(* ===== verification/Prelude.thy ===== *)
theory Prelude
  imports Main "HOL-Library.Word" "HOL-Library.Multiset"
begin

text \<open>
  Shared vocabulary of the development: the result type that keeps every crash of the C++
  code as a value, the machine integers and byte strings, little-endian words as
  \<open>memcpy\<close> lays them out, bounded reads and writes of byte buffers, and the
  generic lemmas the component theories share.
\<close>

unbundle bit_operations_syntax

section \<open>Named collections\<close>

named_theorems res_simps \<open>evaluation of the result type\<close>
named_theorems le_simps \<open>little-endian encoding and decoding\<close>

section \<open>Faults and results\<close>

text \<open>
  \<open>NullDeref\<close>: a load or store through NULL.  \<open>WildPtr\<close>: through an
  address that is not allocated (freed, or never handed out).  \<open>OutOfBounds\<close>:
  an access outside an array.  \<open>AssertFail\<close>: a failed \<open>assert\<close>.
  \<open>Died\<close>: \<open>die()\<close>, which aborts.  \<open>OutOfFuel\<close>: a chain walk that
  visited more nodes than the table says it holds.  \<open>EnvStop\<close>: the operating
  system has given no further answer, or one POSIX does not allow (more bytes than
  requested); it is not a failure of the program.
\<close>

datatype fault = NullDeref | WildPtr | OutOfBounds | AssertFail | Died | OutOfFuel | EnvStop

type_synonym 'a res = "fault + 'a"

definition rbind :: "'a res \<Rightarrow> ('a \<Rightarrow> 'b res) \<Rightarrow> 'b res" where
  "rbind m f = (case m of Inl e \<Rightarrow> Inl e | Inr a \<Rightarrow> f a)"

definition assert_that :: "bool \<Rightarrow> unit res" where
  "assert_that b = (if b then Inr () else Inl AssertFail)"

lemma rbind_Inl [simp, res_simps]: "rbind (Inl e) f = Inl e"
  by (simp add: rbind_def)

lemma rbind_Inr [simp, res_simps]: "rbind (Inr a) f = f a"
  by (simp add: rbind_def)

lemma rbind_cong [fundef_cong]:
  "m = m' \<Longrightarrow> (\<And>a. m' = Inr a \<Longrightarrow> f a = g a) \<Longrightarrow> rbind m f = rbind m' g"
  by (cases m') simp_all

lemma rbind_eq_Inr: "rbind m f = Inr b \<longleftrightarrow> (\<exists>a. m = Inr a \<and> f a = Inr b)"
  by (cases m) simp_all

lemma rbind_eq_Inl:
  "rbind m f = Inl e \<longleftrightarrow> m = Inl e \<or> (\<exists>a. m = Inr a \<and> f a = Inl e)"
  by (cases m) simp_all

lemma rbind_InrE:
  assumes "rbind m f = Inr b"
  obtains a where "m = Inr a" "f a = Inr b"
  using assms by (auto simp: rbind_eq_Inr)

lemma rbind_if:
  "rbind (if c then m else m') f = (if c then rbind m f else rbind m' f)"
  by simp

lemma assert_that_simps [simp, res_simps]:
  "assert_that True = Inr ()" "assert_that False = Inl AssertFail"
  by (simp_all add: assert_that_def)

lemma assert_that_eq_Inr [simp]: "assert_that b = Inr u \<longleftrightarrow> b"
  by (cases b) simp_all

lemma assert_that_eq_Inl [simp]: "assert_that b = Inl e \<longleftrightarrow> \<not> b \<and> e = AssertFail"
  by (cases b) auto

section \<open>Machine integers, addresses and byte strings\<close>

type_synonym byte = "8 word"
type_synonym u32 = "32 word"
type_synonym u64 = "64 word"
type_synonym bytes = "byte list"

text \<open>
  Addresses of allocated objects are abstract; a pointer is \<open>None\<close> (NULL) or the
  address of an object.  \<open>container_of\<close> moves between an object and the node
  embedded in it, which here share one address.
\<close>

type_synonym addr = nat
type_synonym ptr = "addr option"

definition deref :: "ptr \<Rightarrow> addr res" where
  "deref p = (case p of None \<Rightarrow> Inl NullDeref | Some a \<Rightarrow> Inr a)"

lemma deref_simps [simp, res_simps]: "deref None = Inl NullDeref" "deref (Some a) = Inr a"
  by (simp_all add: deref_def)

definition load :: "(addr \<rightharpoonup> 'n) \<Rightarrow> addr \<Rightarrow> 'n res" where
  "load h a = (case h a of None \<Rightarrow> Inl WildPtr | Some nd \<Rightarrow> Inr nd)"

lemma load_Some [simp, res_simps]: "h a = Some nd \<Longrightarrow> load h a = Inr nd"
  by (simp add: load_def)

lemma load_eq_Inr [simp]: "load h a = Inr nd \<longleftrightarrow> h a = Some nd"
  by (simp add: load_def split: option.splits)

section \<open>Buffers\<close>

text \<open>\<open>memcpy\<close> out of a buffer and into one, with the bounds of the buffer.\<close>

definition slice :: "bytes \<Rightarrow> nat \<Rightarrow> nat \<Rightarrow> bytes res" where
  "slice buf off n =
     (if off + n \<le> length buf then Inr (take n (drop off buf)) else Inl OutOfBounds)"

definition blit :: "bytes \<Rightarrow> nat \<Rightarrow> bytes \<Rightarrow> bytes res" where
  "blit buf off bs =
     (if off + length bs \<le> length buf
      then Inr (take off buf @ bs @ drop (off + length bs) buf) else Inl OutOfBounds)"

lemma slice_in [simp]: "off + n \<le> length buf \<Longrightarrow> slice buf off n = Inr (take n (drop off buf))"
  by (simp add: slice_def)

lemma blit_in [simp]:
  "off + length bs \<le> length buf \<Longrightarrow>
     blit buf off bs = Inr (take off buf @ bs @ drop (off + length bs) buf)"
  by (simp add: blit_def)

lemma blit_length: "blit buf off bs = Inr buf' \<Longrightarrow> length buf' = length buf"
  by (auto simp: blit_def split: if_splits)

section \<open>Little-endian words\<close>

definition le32 :: "u32 \<Rightarrow> bytes" where
  "le32 w = [ucast w, ucast (drop_bit 8 w), ucast (drop_bit 16 w), ucast (drop_bit 24 w)]"

definition le64 :: "u64 \<Rightarrow> bytes" where
  "le64 w = [ucast w, ucast (drop_bit 8 w), ucast (drop_bit 16 w), ucast (drop_bit 24 w),
             ucast (drop_bit 32 w), ucast (drop_bit 40 w), ucast (drop_bit 48 w),
             ucast (drop_bit 56 w)]"

definition dec32 :: "bytes \<Rightarrow> u32" where
  "dec32 bs = foldr (\<lambda>b w. ucast b + 256 * w) bs 0"

lemma length_le32 [simp, le_simps]: "length (le32 w) = 4"
  by (simp add: le32_def)

lemma length_le64 [simp, le_simps]: "length (le64 w) = 8"
  by (simp add: le64_def)

lemma unat_drop_bit: "unat (drop_bit n (w :: 'a::len word)) = unat w div 2 ^ n"
  by (simp add: unsigned_drop_bit_eq drop_bit_nat_def take_bit_nat_def unsigned_less)

lemma unat_ucast_byte: "unat (ucast (w :: u32) :: byte) = unat w mod 256"
  by (simp add: unsigned_ucast_eq take_bit_nat_def)

lemma unat_ucast_up32: "unat (ucast (b :: byte) :: u32) = unat b"
  using unsigned_less [of b, where ?'a = nat]
  by (simp add: unsigned_ucast_eq take_bit_nat_def)

lemma ucast_byte_of_u32:
  "(ucast (ucast (drop_bit k (w :: u32)) :: byte) :: u32) = of_nat (unat w div 2 ^ k mod 256)"
proof -
  have "unat w div 2 ^ k mod 256 < 4294967296"
    by (rule less_trans [of _ 256]) simp_all
  then show ?thesis
    unfolding word_unat_eq_iff unat_ucast_up32 unat_ucast_byte unat_drop_bit
    by (simp add: unat_of_nat)
qed

lemma base256_digits:
  fixes n :: nat
  assumes "n < 4294967296"
  shows "n mod 256 + 256 * (n div 256 mod 256 + 256 * (n div 65536 mod 256
           + 256 * (n div 16777216 mod 256))) = n"
proof -
  have digit: "m mod 256 + 256 * (m div 256) = m" for m :: nat
    by simp
  have top: "n div 16777216 mod 256 = n div 16777216"
    using assms by (simp add: div_less_iff_less_mult)
  have "n div 65536 = n div 256 div 256" "n div 16777216 = n div 65536 div 256"
    by (simp_all add: div_mult2_eq [symmetric])
  then show ?thesis
    unfolding top using digit [of n] digit [of "n div 256"] digit [of "n div 65536"] by metis
qed

lemma dec32_le32 [simp, le_simps]: "dec32 (le32 w) = w"
proof -
  have "unat w < 4294967296"
    using unsigned_less [of w, where ?'a = nat] by simp
  note d = base256_digits [OF this]
  have "(of_nat (unat w mod 256) :: u32) + 256 * (of_nat (unat w div 256 mod 256)
      + 256 * (of_nat (unat w div 65536 mod 256) + 256 * of_nat (unat w div 16777216 mod 256)))
      = of_nat (unat w)"
    by (subst (5) d [symmetric]) (simp only: of_nat_add of_nat_mult of_nat_numeral)
  also have "\<dots> = w"
    by simp
  finally have e: "(of_nat (unat w mod 256) :: u32) + 256 * (of_nat (unat w div 256 mod 256)
      + 256 * (of_nat (unat w div 65536 mod 256) + 256 * of_nat (unat w div 16777216 mod 256))) = w" .
  have p: "(2 :: nat) ^ 8 = 256" "(2 :: nat) ^ 16 = 65536" "(2 :: nat) ^ 24 = 16777216"
    by simp_all
  from e show ?thesis
    using ucast_byte_of_u32 [of 0 w]
    by (simp only: dec32_def le32_def foldr.simps o_apply id_apply drop_bit_0 power_0 div_by_1
        ucast_byte_of_u32 p mult_zero_right add_0_right)
qed

lemma unat_byte_less: "unat (x :: byte) < 256" 
    using unsigned_less [of x, where ?'a = nat] by simp
lemma ucast_byte_of_nat: "(ucast (x :: byte) :: u32) = of_nat (unat x)" 
  by simp
lemma unat_dec32:
  "unat (dec32 [a, b, c, d]) = unat a + 256 * (unat b + 256 * (unat c + 256 * unat d))"
proof -
  define n where "n = unat a + 256 * (unat b + 256 * (unat c + 256 * unat d))"
  have n: "n < 4294967296"
    using unat_byte_less [of a] unat_byte_less [of b] unat_byte_less [of c] unat_byte_less [of d] by (simp add: n_def)
  have "dec32 [a, b, c, d] = of_nat n"
    unfolding dec32_def foldr.simps o_apply id_apply ucast_byte_of_nat n_def
    by (simp only: of_nat_add of_nat_mult of_nat_numeral mult_zero_right add_0_right)
  then have "unat (dec32 [a, b, c, d]) = n mod 2 ^ 32"
    by (simp only: unat_of_nat) simp
  with n show ?thesis
    by (simp add: n_def)
qed

lemma ucast_byte_eqI: "unat w mod 256 = unat b \<Longrightarrow> (ucast (w :: u32) :: byte) = b"
  by (simp only: word_unat_eq_iff unat_ucast_byte)

lemma base256_peel:
  "a < (256 :: nat) \<Longrightarrow> (a + 256 * k) mod 256 = a" "a < (256 :: nat) \<Longrightarrow> (a + 256 * k) div 256 = k"
  by simp_all

lemma le32_dec32 [le_simps]:
  assumes "length bs = 4"
  shows "le32 (dec32 bs) = bs"
proof -
  from assms obtain a b c d where bs: "bs = [a, b, c, d]"
    by (auto simp: numeral_eq_Suc length_Suc_conv)
  note l = unat_byte_less [of a] unat_byte_less [of b] unat_byte_less [of c] unat_byte_less [of d]
  let ?n = "unat a + 256 * (unat b + 256 * (unat c + 256 * unat d))"
  have q: "?n mod 256 = unat a" "?n div 2 ^ 8 mod 256 = unat b" "?n div 2 ^ 16 mod 256 = unat c"
    "?n div 2 ^ 24 mod 256 = unat d"
  proof -
    have p: "(2 :: nat) ^ 8 = 256" "(2 :: nat) ^ 16 = 256 * 256" "(2 :: nat) ^ 24 = 256 * 256 * 256"
      by simp_all
    show "?n mod 256 = unat a" "?n div 2 ^ 8 mod 256 = unat b" "?n div 2 ^ 16 mod 256 = unat c"
      "?n div 2 ^ 24 mod 256 = unat d"
      unfolding p by (simp_all only: div_mult2_eq base256_peel [OF l(1)] base256_peel [OF l(2)]
        base256_peel [OF l(3)] mod_less [OF l(4)])
  qed
  have "ucast (dec32 bs) = a"
    by (rule ucast_byte_eqI) (simp only: bs unat_dec32 q)
  moreover have "ucast (drop_bit 8 (dec32 bs)) = b" "ucast (drop_bit 16 (dec32 bs)) = c"
    "ucast (drop_bit 24 (dec32 bs)) = d"
    by (rule ucast_byte_eqI, simp only: bs unat_drop_bit unat_dec32 q)+
  ultimately show ?thesis
    by (simp only: le32_def bs)
qed
lemma dec32_take_le32 [le_simps]: "dec32 (take 4 (le32 w @ bs)) = w"
  by simp

definition rd32 :: "bytes \<Rightarrow> nat \<Rightarrow> u32 res" where
  "rd32 buf off = rbind (slice buf off 4) (\<lambda>bs. Inr (dec32 bs))"

lemma rd32_in: "off + 4 \<le> length buf \<Longrightarrow> rd32 buf off = Inr (dec32 (take 4 (drop off buf)))"
  by (simp add: rd32_def)

lemma rd32_le32 [le_simps]: "length xs = off \<Longrightarrow> rd32 (xs @ le32 w @ ys) off = Inr w"
  by (simp add: rd32_def)

section \<open>Lists\<close>

lemma concat_update:
  "i < length xss \<Longrightarrow> mset (concat (xss[i := ys])) + mset (xss ! i) = mset (concat xss) + mset ys"
proof (induction xss arbitrary: i)
  case Nil
  then show ?case by simp
next
  case (Cons xs xss)
  then show ?case by (cases i) (simp_all add: add.assoc add.left_commute)
qed

lemma concat_cons_at:
  "i < length xss \<Longrightarrow> mset (concat (xss[i := x # xss ! i])) = mset (x # concat xss)"
  using concat_update [of i xss "x # xss ! i"] by simp

lemma concat_remove_at:
  "i < length xss \<Longrightarrow> xss ! i = us @ x # vs \<Longrightarrow>
     mset (x # concat (xss[i := us @ vs])) = mset (concat xss)"
  using concat_update [of i xss "us @ vs"] by simp

text \<open>The same two facts as sets, lengths and distinctness.\<close>

lemma mset_Cons_facts:
  assumes "mset ys = mset (x # zs)"
  shows "set ys = insert x (set zs)" and "length ys = Suc (length zs)"
    and "distinct ys \<longleftrightarrow> x \<notin> set zs \<and> distinct zs"
  using mset_eq_setD [OF assms] mset_eq_length [OF assms] mset_eq_imp_distinct_iff [OF assms]
  by simp_all

lemmas concat_cons_facts = mset_Cons_facts [OF concat_cons_at]
lemmas concat_remove_facts = mset_Cons_facts [OF concat_remove_at [symmetric]]

lemma set_concat_nth: "a \<in> set (concat xss) \<longleftrightarrow> (\<exists>i < length xss. a \<in> set (xss ! i))"
proof (induction xss)
  case Nil
  then show ?case by simp
next
  case (Cons xs xss)
  then show ?case by (auto simp: less_Suc_eq_0_disj)
qed

lemma distinct_concat_nth:
  "distinct (concat xss) \<Longrightarrow> i < length xss \<Longrightarrow> j < length xss \<Longrightarrow>
     a \<in> set (xss ! i) \<Longrightarrow> a \<in> set (xss ! j) \<Longrightarrow> i = j"
proof (induction xss arbitrary: i j)
  case Nil
  then show ?case by simp
next
  case (Cons xs xss)
  then show ?case
    by (cases i; cases j) (auto simp: disjoint_iff dest: nth_mem)
qed

lemma distinct_concat_nthD:
  "distinct (concat xss) \<Longrightarrow> i < length xss \<Longrightarrow> distinct (xss ! i)"
  by (auto simp: distinct_concat_iff)

end
