(* ===== verification/Utils.thy ===== *)
theory Utils
  imports Prelude
begin

text \<open>
  \<open>include/utils.h\<close> and \<open>src/utils.cpp\<close>: the serialisation tags and
  error codes both ends of the wire share, the string hash, and the two loops that read
  or write a socket until all bytes have gone through.
\<close>

section \<open>Tags and error codes\<close>

definition SER_NIL :: byte where "SER_NIL = 0"
definition SER_ERR :: byte where "SER_ERR = 1"
definition SER_STR :: byte where "SER_STR = 2"
definition SER_INT :: byte where "SER_INT = 3"
definition SER_ARR :: byte where "SER_ARR = 4"

definition ERR_2BIG :: u32 where "ERR_2BIG = 0"
definition ERR_UNKNOWN :: u32 where "ERR_UNKNOWN = 1"

lemmas ser_defs = SER_NIL_def SER_ERR_def SER_STR_def SER_INT_def SER_ARR_def

definition k_max_msg :: nat where "k_max_msg = 4096"

section \<open>The string hash\<close>

text \<open>
  \<open>str_hash(data, len)\<close> over the \<open>len\<close> bytes at \<open>data\<close>.  The
  accumulator is a \<open>uint32_t\<close>, so it wraps; the result is widened to 64 bits.
\<close>

primrec str_hash_loop :: "u32 \<Rightarrow> bytes \<Rightarrow> u32" where
  "str_hash_loop h [] = h"
| "str_hash_loop h (d # ds) = str_hash_loop ((h + ucast d) * 0x01000193) ds"

definition str_hash :: "bytes \<Rightarrow> u64" where
  "str_hash data = ucast (str_hash_loop 0x811C9DC5 data)"

lemma str_hash_loop_append:
  "str_hash_loop h (xs @ ys) = str_hash_loop (str_hash_loop h xs) ys"
  by (induction xs arbitrary: h) simp_all

lemma str_hash_bound: "unat (str_hash data) < 2 ^ 32"
proof -
  have "unat (str_hash_loop 0x811C9DC5 data) < 2 ^ 32"
    using unsigned_less [of "str_hash_loop 0x811C9DC5 data", where ?'a = nat] by simp
  then show ?thesis
    by (simp add: str_hash_def unsigned_ucast_eq take_bit_nat_def)
qed

section \<open>System calls\<close>

text \<open>
  The kernel is not part of the repository.  What the program depends on is the sequence
  of answers it gives, so those are an input: \<open>rd_script\<close> holds the results of
  the successive \<open>read\<close> calls, \<open>wr_script\<close> those of the \<open>write\<close>
  calls.  \<open>trace\<close> records the calls the program made, most recent last.  Every
  behaviour of a kernel is such a sequence; an answer POSIX rules out, or the end of the
  sequence, is \<open>EnvStop\<close>.
\<close>

datatype errno = EINTR | EAGAIN | EOTHER

datatype rd_ret = RdErr errno | RdData bytes
datatype wr_ret = WrErr errno | WrN nat

datatype ep_event = EPOLLIN | EPOLLOUT

datatype syscall =
    SysWrite int bytes
  | EpollAdd int ep_event
  | EpollMod int ep_event
  | EpollDel int
  | Close int
  | SetNonBlock int

record io =
  rd_script :: "rd_ret list"
  wr_script :: "wr_ret list"
  trace :: "syscall list"

definition log_call :: "syscall \<Rightarrow> io \<Rightarrow> io" where
  "log_call c s = s\<lparr>trace := trace s @ [c]\<rparr>"

text \<open>\<open>die\<close> prints its message and aborts.\<close>

definition die :: "string \<Rightarrow> 'a res" where
  "die msg = Inl Died"

declare die_def [simp]

text \<open>One \<open>read\<close> of at most \<open>cap\<close> bytes; one \<open>write\<close> of \<open>bs\<close>.\<close>

definition sys_read :: "nat \<Rightarrow> io \<Rightarrow> (rd_ret \<times> io) res" where
  "sys_read cap s = (case rd_script s of
       [] \<Rightarrow> Inl EnvStop
     | RdErr e # rs \<Rightarrow> Inr (RdErr e, s\<lparr>rd_script := rs\<rparr>)
     | RdData bs # rs \<Rightarrow> if length bs \<le> cap then Inr (RdData bs, s\<lparr>rd_script := rs\<rparr>)
                      else Inl EnvStop)"

definition sys_write :: "int \<Rightarrow> bytes \<Rightarrow> io \<Rightarrow> (wr_ret \<times> io) res" where
  "sys_write fd bs s = (case wr_script s of
       [] \<Rightarrow> Inl EnvStop
     | WrErr e # rs \<Rightarrow> Inr (WrErr e, s\<lparr>wr_script := rs\<rparr>)
     | WrN n # rs \<Rightarrow> if n \<le> length bs
                    then Inr (WrN n, log_call (SysWrite fd (take n bs)) (s\<lparr>wr_script := rs\<rparr>))
                    else Inl EnvStop)"

section \<open>\<open>read_full\<close> and \<open>write_all\<close>\<close>

text \<open>
  The loops stop because a successful call makes progress: \<open>rv <= 0\<close> leaves with
  \<open>-1\<close>.  \<open>read_full\<close> returns the status and the bytes it stored.
\<close>

function read_full :: "io \<Rightarrow> nat \<Rightarrow> bytes \<Rightarrow> (int \<times> bytes \<times> io) res" where
  "read_full s n buf =
     (if n = 0 then Inr (0, buf, s)
      else rbind (sys_read n s) (\<lambda>(r, s').
        case r of
          RdErr e \<Rightarrow> Inr (-1, buf, s')
        | RdData bs \<Rightarrow>
            if bs = [] then Inr (-1, buf, s')
            else rbind (assert_that (length bs \<le> n)) (\<lambda>_.
              read_full s' (n - length bs) (buf @ bs))))"
  by pat_completeness auto
termination
  by (relation "measure (\<lambda>(s, n, buf). n)") auto

function write_all :: "io \<Rightarrow> int \<Rightarrow> bytes \<Rightarrow> (int \<times> io) res" where
  "write_all s fd bs =
     (if bs = [] then Inr (0, s)
      else rbind (sys_write fd bs s) (\<lambda>(r, s').
        case r of
          WrErr e \<Rightarrow> Inr (-1, s')
        | WrN n \<Rightarrow>
            if n = 0 then Inr (-1, s')
            else rbind (assert_that (n \<le> length bs)) (\<lambda>_.
              write_all s' fd (drop n bs))))"
  by pat_completeness auto
termination
  by (relation "measure (\<lambda>(s, fd, bs). length bs)") auto

declare read_full.simps [simp del] write_all.simps [simp del]

text \<open>The bytes a run has written to a descriptor, in order.\<close>

primrec written :: "int \<Rightarrow> syscall list \<Rightarrow> bytes" where
  "written fd [] = []"
| "written fd (c # cs) =
     (case c of SysWrite fd' bs \<Rightarrow> if fd' = fd then bs @ written fd cs else written fd cs
      | _ \<Rightarrow> written fd cs)"

text \<open>The bytes a script of answers to \<open>read\<close> delivers, in order.\<close>

fun rd_bytes :: "rd_ret list \<Rightarrow> bytes" where
  "rd_bytes [] = []"
| "rd_bytes (RdData bs # rs) = bs @ rd_bytes rs"
| "rd_bytes (RdErr e # rs) = rd_bytes rs"

lemma rd_bytes_data [simp]: "rd_bytes (map RdData bss @ rs) = concat bss @ rd_bytes rs"
  by (induction bss) simp_all

lemma written_append [simp]: "written fd (cs @ ds) = written fd cs @ written fd ds"
  by (induction cs) (auto split: syscall.splits)

lemma sys_write_Inr:
  assumes "sys_write fd bs s = Inr (r, s')"
  shows "length (wr_script s') < length (wr_script s)"
    and "rd_script s' = rd_script s"
    and "r = WrN n \<Longrightarrow> n \<le> length bs \<and> written fd (trace s') = written fd (trace s) @ take n bs"
    and "r = WrErr e \<Longrightarrow> trace s' = trace s"
  using assms by (auto simp: sys_write_def log_call_def split: list.splits wr_ret.splits if_splits)

lemma sys_read_Inr:
  assumes "sys_read n s = Inr (r, s')"
  shows "length (rd_script s') < length (rd_script s)"
    and "wr_script s' = wr_script s" and "trace s' = trace s"
    and "r = RdData bs \<Longrightarrow> length bs \<le> n"
  using assms by (auto simp: sys_read_def split: list.splits rd_ret.splits if_splits)

lemma sys_write_Inl: "sys_write fd bs s = Inl e \<Longrightarrow> e = EnvStop"
  by (auto simp: sys_write_def split: list.splits wr_ret.splits if_splits)

lemma sys_read_Inl: "sys_read n s = Inl e \<Longrightarrow> e = EnvStop"
  by (auto simp: sys_read_def split: list.splits rd_ret.splits if_splits)

section \<open>What the loops do with any answers\<close>

lemma read_full_Inr:
  "read_full w n buf = Inr (rv, out, w') \<Longrightarrow>
     \<exists>bs. out = buf @ bs \<and> rd_bytes (rd_script w) = bs @ rd_bytes (rd_script w') \<and> trace w' = trace w
       \<and> (rv = 0 \<and> length bs = n \<or> rv = -1 \<and> length bs < n)"
proof (induction w n buf rule: read_full.induct)
  case (1 w n buf)
  show ?case
  proof (cases "n = 0")
    case True
    with "1.prems" show ?thesis by (simp add: read_full.simps [of w])
  next
    case False
    with "1.prems" obtain r w1 where r: "sys_read n w = Inr (r, w1)"
      "(case r of RdErr e \<Rightarrow> Inr (-1, buf, w1) | RdData bs \<Rightarrow> if bs = [] then Inr (-1, buf, w1)
        else rbind (assert_that (length bs \<le> n)) (\<lambda>_. read_full w1 (n - length bs) (buf @ bs))) = Inr (rv, out, w')"
      by (auto simp: read_full.simps [of w n buf] rbind_eq_Inr)
    have st: "trace w1 = trace w" "case r of RdErr e \<Rightarrow> rd_bytes (rd_script w1) = rd_bytes (rd_script w)
        | RdData bs \<Rightarrow> length bs \<le> n \<and> rd_bytes (rd_script w) = bs @ rd_bytes (rd_script w1)"
      using r(1) by (auto simp: sys_read_def split: list.splits rd_ret.splits if_splits)
    show ?thesis
    proof (cases r)
      case (RdErr e)
      with r(2) st False show ?thesis by simp
    next
      case (RdData bs)
      show ?thesis
      proof (cases "bs = []")
        case True
        with RdData r(2) st False show ?thesis by simp
      next
        case ne: False
        have le: "assert_that (length bs \<le> n) = Inr ()" using RdData st(2) by simp
        with RdData ne r(2) have "read_full w1 (n - length bs) (buf @ bs) = Inr (rv, out, w')" by simp
        from "1.IH" [OF False r(1) refl RdData ne le this] RdData st ne show ?thesis by fastforce
      qed
    qed
  qed
qed

lemma read_full_pieces:
  "\<forall>bs \<in> set bss. bs \<noteq> [] \<Longrightarrow> rd_script w = map RdData bss @ rs \<Longrightarrow>
     read_full w (length (concat bss)) buf = Inr (0, buf @ concat bss, w\<lparr>rd_script := rs\<rparr>)"
proof (induction bss arbitrary: w buf)
  case Nil
  then show ?case by (simp add: read_full.simps [of w])
next
  case (Cons bs bss)
  let ?w = "w\<lparr>rd_script := map RdData bss @ rs\<rparr>"
  have "read_full ?w (length (concat bss)) (buf @ bs) = Inr (0, (buf @ bs) @ concat bss, ?w\<lparr>rd_script := rs\<rparr>)"
    by (rule Cons.IH) (use Cons.prems in simp_all)
  then show ?case
    using Cons.prems by (simp add: read_full.simps [of w] sys_read_def)
qed

end
