(* ===== verification/Hashtable.thy ===== *)
theory Hashtable
  imports Utils
begin

text \<open>
  \<open>include/hashtable.h\<close> and the \<open>HTab\<close> half of
  \<open>src/hashtable.cpp\<close>: an intrusive chained hash table.  Nodes live in a heap
  and carry their own \<open>next\<close> pointer; a bucket array holds the chain heads; the
  code edits chains through second-order pointers (\<open>HNode **\<close>), which are the
  \<open>slot\<close>s below.
\<close>

section \<open>State\<close>

record hnode =
  hn_next :: ptr
  hn_hcode :: u64

type_synonym hheap = "addr \<rightharpoonup> hnode"

text \<open>
  \<open>ht_tab\<close> is the array \<open>tab\<close> points to, \<open>None\<close> for NULL.  A table
  array has one owner at any time, so it is a value.
\<close>

record htab =
  ht_tab :: "ptr list option"
  ht_mask :: u64
  ht_size :: u64

definition htab_zero :: htab where
  "htab_zero = \<lparr>ht_tab = None, ht_mask = 0, ht_size = 0\<rparr>"

text \<open>A second-order pointer: the address of a bucket or of a node's \<open>next\<close> field.\<close>

datatype slot = TabSlot nat | NextSlot addr

definition tab_at :: "htab \<Rightarrow> nat \<Rightarrow> ptr res" where
  "tab_at t i = (case ht_tab t of
       None \<Rightarrow> Inl NullDeref
     | Some ps \<Rightarrow> if i < length ps then Inr (ps ! i) else Inl OutOfBounds)"

definition slot_get :: "hheap \<Rightarrow> htab \<Rightarrow> slot \<Rightarrow> ptr res" where
  "slot_get h t sl = (case sl of
       TabSlot i \<Rightarrow> tab_at t i
     | NextSlot a \<Rightarrow> rbind (load h a) (\<lambda>nd. Inr (hn_next nd)))"

definition slot_set :: "hheap \<Rightarrow> htab \<Rightarrow> slot \<Rightarrow> ptr \<Rightarrow> (hheap \<times> htab) res" where
  "slot_set h t sl p = (case sl of
       TabSlot i \<Rightarrow> (case ht_tab t of
           None \<Rightarrow> Inl NullDeref
         | Some ps \<Rightarrow> if i < length ps then Inr (h, t\<lparr>ht_tab := Some (ps[i := p])\<rparr>)
                      else Inl OutOfBounds)
     | NextSlot a \<Rightarrow> rbind (load h a) (\<lambda>nd. Inr (h(a \<mapsto> nd\<lparr>hn_next := p\<rparr>), t)))"

section \<open>Operations\<close>

definition h_init :: "htab \<Rightarrow> u64 \<Rightarrow> htab res" where
  "h_init t n =
     rbind (assert_that (0 < n \<and> (n - 1) AND n = 0)) (\<lambda>_.
       Inr (t\<lparr>ht_tab := Some (replicate (unat n) None), ht_mask := n - 1, ht_size := 0\<rparr>))"

definition h_insert :: "hheap \<Rightarrow> htab \<Rightarrow> addr \<Rightarrow> (hheap \<times> htab) res" where
  "h_insert h t new_node =
     rbind (load h new_node) (\<lambda>nd.
       let pos = unat (hn_hcode nd AND ht_mask t) in
       rbind (tab_at t pos) (\<lambda>nxt.
       rbind (slot_set (h(new_node \<mapsto> nd\<lparr>hn_next := nxt\<rparr>)) t (TabSlot pos) (Some new_node))
         (\<lambda>(h', t'). Inr (h', t'\<lparr>ht_size := ht_size t' + 1\<rparr>))))"

text \<open>
  The loop of \<open>h_lookup\<close>: \<open>from\<close> advances along the chain until a node with
  the key's hash code satisfies \<open>eq(key, cur)\<close>.  The fuel is the table's
  \<open>size\<close>, which bounds the length of any of its chains.
\<close>

fun h_lookup_loop ::
  "nat \<Rightarrow> hheap \<Rightarrow> htab \<Rightarrow> slot \<Rightarrow> addr \<Rightarrow> u64 \<Rightarrow> (addr \<Rightarrow> addr \<Rightarrow> bool res) \<Rightarrow> slot option res"
where
  "h_lookup_loop 0 h t from key kcode eqf =
     rbind (slot_get h t from) (\<lambda>cur. if cur = None then Inr None else Inl OutOfFuel)"
| "h_lookup_loop (Suc fuel) h t from key kcode eqf =
     rbind (slot_get h t from) (\<lambda>cur.
       case cur of
         None \<Rightarrow> Inr None
       | Some c \<Rightarrow>
           rbind (load h c) (\<lambda>nd.
           rbind (if hn_hcode nd = kcode then eqf key c else Inr False) (\<lambda>b.
             if b then Inr (Some from)
             else h_lookup_loop fuel h t (NextSlot c) key kcode eqf)))"

definition h_lookup ::
  "hheap \<Rightarrow> htab \<Rightarrow> addr \<Rightarrow> (addr \<Rightarrow> addr \<Rightarrow> bool res) \<Rightarrow> slot option res"
where
  "h_lookup h t key eqf =
     (if ht_tab t = None then Inr None
      else rbind (load h key) (\<lambda>k.
        let pos = hn_hcode k AND ht_mask t in
        rbind (assert_that (pos < ht_mask t + 1)) (\<lambda>_.
          h_lookup_loop (unat (ht_size t)) h t (TabSlot (unat pos)) key (hn_hcode k) eqf)))"

definition h_detach :: "hheap \<Rightarrow> htab \<Rightarrow> slot \<Rightarrow> (hheap \<times> htab \<times> addr) res" where
  "h_detach h t from =
     rbind (slot_get h t from) (\<lambda>p.
     rbind (deref p) (\<lambda>detached.
     rbind (load h detached) (\<lambda>nd.
     rbind (slot_set h t from (hn_next nd)) (\<lambda>(h', t').
       Inr (h', t'\<lparr>ht_size := ht_size t' - 1\<rparr>, detached)))))"

text \<open>\<open>h_scan\<close>: the callback over every node of every chain, buckets in order.\<close>

fun h_scan_chain :: "nat \<Rightarrow> hheap \<Rightarrow> ptr \<Rightarrow> (addr \<Rightarrow> 's \<Rightarrow> 's res) \<Rightarrow> 's \<Rightarrow> 's res" where
  "h_scan_chain fuel h None f s = Inr s"
| "h_scan_chain 0 h (Some a) f s = Inl OutOfFuel"
| "h_scan_chain (Suc fuel) h (Some a) f s =
     rbind (f a s) (\<lambda>s'. rbind (load h a) (\<lambda>nd. h_scan_chain fuel h (hn_next nd) f s'))"

fun h_scan_rows :: "hheap \<Rightarrow> htab \<Rightarrow> (addr \<Rightarrow> 's \<Rightarrow> 's res) \<Rightarrow> nat \<Rightarrow> nat \<Rightarrow> 's \<Rightarrow> 's res" where
  "h_scan_rows h t f i 0 s = Inr s"
| "h_scan_rows h t f i (Suc k) s =
     rbind (tab_at t i) (\<lambda>p.
     rbind (h_scan_chain (unat (ht_size t)) h p f s) (\<lambda>s'.
       h_scan_rows h t f (Suc i) k s'))"

definition h_scan :: "hheap \<Rightarrow> htab \<Rightarrow> (addr \<Rightarrow> 's \<Rightarrow> 's res) \<Rightarrow> 's \<Rightarrow> 's res" where
  "h_scan h t f s =
     (if ht_size t = 0 then Inr s else h_scan_rows h t f 0 (unat (ht_mask t + 1)) s)"

section \<open>Chains in the heap\<close>

primrec hpath :: "hheap \<Rightarrow> ptr \<Rightarrow> addr list \<Rightarrow> ptr \<Rightarrow> bool" where
  "hpath h p [] q \<longleftrightarrow> p = q"
| "hpath h p (a # as) q \<longleftrightarrow> p = Some a \<and> (\<exists>nd. h a = Some nd \<and> hpath h (hn_next nd) as q)"

abbreviation chain :: "hheap \<Rightarrow> ptr \<Rightarrow> addr list \<Rightarrow> bool" where
  "chain h p as \<equiv> hpath h p as None"

lemma hpath_append [simp]: "hpath h p (as @ bs) q \<longleftrightarrow> (\<exists>r. hpath h p as r \<and> hpath h r bs q)"
  by (induction as arbitrary: p) auto

lemma hpath_frame:
  "(\<And>a. a \<in> set as \<Longrightarrow> h' a = h a) \<Longrightarrow> hpath h' p as q \<longleftrightarrow> hpath h p as q"
  by (induction as arbitrary: p) auto

lemma hpath_upd_other [simp]: "a \<notin> set as \<Longrightarrow> hpath (h(a := v)) p as q \<longleftrightarrow> hpath h p as q"
  by (rule hpath_frame) auto

lemma chain_None [simp]: "chain h None as \<longleftrightarrow> as = []"
  by (cases as) auto

lemma chain_Some: "chain h (Some a) as \<longleftrightarrow>
    (\<exists>nd bs. as = a # bs \<and> h a = Some nd \<and> chain h (hn_next nd) bs)"
  by (cases as) auto

lemma hpath_alloc: "hpath h p as q \<Longrightarrow> a \<in> set as \<Longrightarrow> \<exists>nd. h a = Some nd"
  by (induction as arbitrary: p) auto

text \<open>Redirecting the last \<open>next\<close> of a non-empty path.\<close>

lemma hpath_redirect:
  "hpath h p as q \<Longrightarrow> distinct as \<Longrightarrow> as \<noteq> [] \<Longrightarrow> h (last as) = Some nd \<Longrightarrow>
     hpath (h(last as \<mapsto> nd\<lparr>hn_next := r\<rparr>)) p as r"
proof (induction as arbitrary: p)
  case Nil
  then show ?case by simp
next
  case (Cons a as)
  show ?case
  proof (cases "as = []")
    case True
    with Cons.prems show ?thesis by auto
  next
    case False
    with Cons.prems have "last as \<noteq> a" by (auto dest: last_in_set)
    with False Cons show ?thesis by auto
  qed
qed

section \<open>What a table represents\<close>

text \<open>
  \<open>htab_rep h t bss\<close>: in heap \<open>h\<close>, table \<open>t\<close> is a power-of-two array of
  chains whose nodes are the buckets \<open>bss\<close>, no node occurs twice, every node sits in
  the bucket its hash code selects, and \<open>size\<close> counts them.
\<close>

definition bucket_ix :: "htab \<Rightarrow> u64 \<Rightarrow> nat" where
  "bucket_ix t w = unat (w AND ht_mask t)"

definition htab_rep :: "hheap \<Rightarrow> htab \<Rightarrow> addr list list \<Rightarrow> bool" where
  "htab_rep h t bss \<longleftrightarrow>
     (\<exists>ps k. ht_tab t = Some ps \<and> k < 64 \<and> ht_mask t = mask k
        \<and> length ps = 2 ^ k \<and> length bss = 2 ^ k
        \<and> (\<forall>i < 2 ^ k. chain h (ps ! i) (bss ! i)))
     \<and> distinct (concat bss)
     \<and> (\<forall>i < length bss. \<forall>a \<in> set (bss ! i). \<exists>nd. h a = Some nd \<and> bucket_ix t (hn_hcode nd) = i)
     \<and> unat (ht_size t) = length (concat bss)"

lemma bucket_ix_less:
  assumes "ht_mask t = mask k"
  shows "bucket_ix t w < 2 ^ k"
proof -
  have "unat (take_bit k w) < 2 ^ k"
    by (simp add: unsigned_take_bit_eq)
  then show ?thesis
    by (simp add: bucket_ix_def assms take_bit_eq_mask)
qed

lemma htab_repE:
  assumes "htab_rep h t bss"
  obtains ps k where "ht_tab t = Some ps" "k < 64" "ht_mask t = mask k"
    "length ps = 2 ^ k" "length bss = 2 ^ k" "\<forall>i < 2 ^ k. chain h (ps ! i) (bss ! i)"
  using assms unfolding htab_rep_def by blast

lemma htab_rep_distinct: "htab_rep h t bss \<Longrightarrow> distinct (concat bss)"
  by (simp add: htab_rep_def)

lemma htab_rep_size: "htab_rep h t bss \<Longrightarrow> unat (ht_size t) = length (concat bss)"
  by (simp add: htab_rep_def)

lemma htab_rep_home:
  "htab_rep h t bss \<Longrightarrow> i < length bss \<Longrightarrow> a \<in> set (bss ! i) \<Longrightarrow>
     \<exists>nd. h a = Some nd \<and> bucket_ix t (hn_hcode nd) = i"
  by (auto simp: htab_rep_def)

lemma htab_rep_alloc: "htab_rep h t bss \<Longrightarrow> a \<in> set (concat bss) \<Longrightarrow> \<exists>nd. h a = Some nd"
  by (subst (asm) set_concat_nth) (auto dest: htab_rep_home)

lemma htab_rep_bucket_less: "htab_rep h t bss \<Longrightarrow> bucket_ix t w < length bss"
  by (auto elim!: htab_repE simp: bucket_ix_less)

lemma htab_rep_frame:
  assumes "htab_rep h t bss" and "\<And>a. a \<in> set (concat bss) \<Longrightarrow> h' a = h a"
  shows "htab_rep h' t bss"
proof -
  have eq: "h' a = h a" if "i < length bss" "a \<in> set (bss ! i)" for i a
    using that assms(2) by (metis set_concat_nth)
  from assms(1) obtain ps k where p: "ht_tab t = Some ps" "k < 64" "ht_mask t = mask k"
    "length ps = 2 ^ k" "length bss = 2 ^ k" "\<forall>i < 2 ^ k. chain h (ps ! i) (bss ! i)"
    by (rule htab_repE)
  have "\<forall>i < 2 ^ k. chain h' (ps ! i) (bss ! i)"
    using p(5,6) eq by (metis hpath_frame)
  with p show ?thesis
    using assms(1) eq unfolding htab_rep_def by auto
qed

section \<open>Initialisation\<close>

lemma pow2_and_pred: "k < 64 \<Longrightarrow> ((2 :: u64) ^ k - 1) AND 2 ^ k = 0"
  by (rule bit_eqI) (auto simp: bit_simps simp flip: mask_eq_exp_minus_1)

lemma unat_pow2: "k < 64 \<Longrightarrow> unat ((2 :: u64) ^ k) = 2 ^ k"
proof -
  assume "k < 64"
  then have "(2 :: nat) ^ k < 2 ^ 64"
    by (intro power_strict_increasing) simp_all
  moreover have "unat (of_nat (2 ^ k) :: u64) = 2 ^ k mod 2 ^ 64"
    by (simp only: unat_of_nat) simp
  ultimately show ?thesis by simp
qed

lemma concat_replicate_Nil [simp]: "concat (replicate n []) = []"
  by (induction n) simp_all

lemma h_init_rep:
  assumes "k < 64"
  shows "\<exists>t'. h_init t (2 ^ k) = Inr t' \<and> htab_rep h t' (replicate (2 ^ k) [])
           \<and> ht_mask t' = mask k"
proof -
  have "(0 :: u64) < 2 ^ k"
    using assms by (simp add: word_less_nat_alt unat_pow2)
  then show ?thesis
    using assms
    by (simp add: h_init_def pow2_and_pred htab_rep_def unat_pow2 mask_eq_exp_minus_1)
qed

text \<open>A size that is not a power of two is refused by the \<open>assert\<close>.\<close>

lemma h_init_bad: "(n - 1) AND n \<noteq> 0 \<Longrightarrow> h_init t n = Inl AssertFail"
  by (simp add: h_init_def)

section \<open>Insertion\<close>

lemma htab_rep_insert:
  assumes rep: "htab_rep h t bss" and nd: "h a = Some nd" and fresh: "a \<notin> set (concat bss)"
    and room: "length (concat bss) + 1 < 2 ^ 64"
  defines "i \<equiv> bucket_ix t (hn_hcode nd)"
  shows "\<exists>nx t'. h_insert h t a = Inr (h(a \<mapsto> nd\<lparr>hn_next := nx\<rparr>), t')
     \<and> htab_rep (h(a \<mapsto> nd\<lparr>hn_next := nx\<rparr>)) t' (bss[i := a # bss ! i])
     \<and> ht_mask t' = ht_mask t"
proof -
  from rep obtain ps k where p: "ht_tab t = Some ps" "k < 64" "ht_mask t = mask k"
    "length ps = 2 ^ k" "length bss = 2 ^ k" and ch: "\<forall>i < 2 ^ k. chain h (ps ! i) (bss ! i)"
    by (rule htab_repE)
  have i: "i < 2 ^ k"
    using p(3) by (simp add: i_def bucket_ix_less)
  let ?nd = "nd\<lparr>hn_next := ps ! i\<rparr>"
  let ?h = "h(a \<mapsto> ?nd)"
  let ?t = "t\<lparr>ht_tab := Some (ps[i := Some a]), ht_size := ht_size t + 1\<rparr>"
  let ?bss = "bss[i := a # bss ! i]"
  have run: "h_insert h t a = Inr (?h, ?t)"
    using nd p i
    by (simp add: h_insert_def Let_def tab_at_def slot_set_def i_def [unfolded bucket_ix_def] bucket_ix_def)
  have notin: "a \<notin> set (bss ! j)" if "j < 2 ^ k" for j
    using fresh that p(5) by (metis set_concat_nth)
  have chains: "\<forall>j < 2 ^ k. chain ?h (ps[i := Some a] ! j) (?bss ! j)"
    using ch notin i p(4,5) by (auto simp: nth_list_update)
  have ms: "mset (concat ?bss) = mset (a # concat bss)"
    using i p(5) by (simp add: concat_cons_at)
  have dist: "distinct (concat ?bss)"
    using fresh htab_rep_distinct [OF rep] mset_eq_imp_distinct_iff [OF ms] by simp
  have sz: "unat (ht_size t + 1) = length (concat ?bss)"
  proof -
    have "length (concat ?bss) = length (concat bss) + 1"
      using arg_cong [OF ms, of size] by simp
    moreover have "unat (ht_size t + 1) = unat (ht_size t) + 1"
      using room htab_rep_size [OF rep] by (simp add: unat_word_ariths)
    ultimately show ?thesis
      using htab_rep_size [OF rep] by simp
  qed
  have home: "\<forall>j < length ?bss. \<forall>b \<in> set (?bss ! j).
      \<exists>n. ?h b = Some n \<and> bucket_ix ?t (hn_hcode n) = j"
    using htab_rep_home [OF rep] i p(5) notin
    by (auto simp: nth_list_update bucket_ix_def i_def)
  have "htab_rep ?h ?t ?bss"
    unfolding htab_rep_def
    using p chains dist sz home by (intro conjI exI [of _ "ps[i := Some a]"] exI [of _ k]) auto
  with run show ?thesis by auto
qed

section \<open>Lookup\<close>

text \<open>The second-order pointer that precedes the rest of chain \<open>i\<close> after \<open>us\<close>.\<close>

definition slot_for :: "nat \<Rightarrow> addr list \<Rightarrow> slot" where
  "slot_for i us = (if us = [] then TabSlot i else NextSlot (last us))"

lemma slot_for_simps [simp]: "slot_for i [] = TabSlot i" "slot_for i (us @ [c]) = NextSlot c"
  by (simp_all add: slot_for_def)

lemma slot_get_slot_for:
  assumes rep: "htab_rep h t bss" and i: "i < length bss" and b: "bss ! i = us @ vs"
  shows "\<exists>p. slot_get h t (slot_for i us) = Inr p \<and> chain h p vs"
proof -
  from rep obtain ps k where p: "ht_tab t = Some ps" "length ps = 2 ^ k" "length bss = 2 ^ k"
    "\<forall>i < 2 ^ k. chain h (ps ! i) (bss ! i)"
    by (rule htab_repE)
  have ch: "chain h (ps ! i) (us @ vs)"
    using p(3,4) i b by metis
  show ?thesis
  proof (cases us rule: rev_cases)
    case Nil
    then show ?thesis using p i ch by (simp add: slot_get_def tab_at_def)
  next
    case (snoc ws c)
    then show ?thesis using ch by (auto simp: slot_get_def)
  qed
qed

text \<open>
  The walk finds the first node of the rest of the chain that matches, or none; the
  callback has only to answer for nodes with the key's hash code.
\<close>

lemma h_lookup_loop_correct:
  assumes rep: "htab_rep h t bss" and i: "i < length bss"
    and eqf: "\<And>c nd. c \<in> set (bss ! i) \<Longrightarrow> h c = Some nd \<Longrightarrow> hn_hcode nd = kc \<Longrightarrow> eqf key c = Inr (P c)"
    and P: "\<And>c nd. c \<in> set (bss ! i) \<Longrightarrow> h c = Some nd \<Longrightarrow> P c \<Longrightarrow> hn_hcode nd = kc"
  shows "bss ! i = us @ vs \<Longrightarrow> length vs \<le> fuel \<Longrightarrow>
     (if \<exists>c \<in> set vs. P c
      then \<exists>xs c ys. bss ! i = us @ xs @ c # ys \<and> P c \<and> (\<forall>x \<in> set xs. \<not> P x)
             \<and> h_lookup_loop fuel h t (slot_for i us) key kc eqf = Inr (Some (slot_for i (us @ xs)))
      else h_lookup_loop fuel h t (slot_for i us) key kc eqf = Inr None)"
proof (induction vs arbitrary: us fuel)
  case Nil
  then show ?case
    using slot_get_slot_for [OF rep i, of us "[]"] by (cases fuel) auto
next
  case (Cons c vs)
  from Cons.prems(2) obtain f where fuel: "fuel = Suc f" and f: "length vs \<le> f"
    by (cases fuel) auto
  from slot_get_slot_for [OF rep i Cons.prems(1)] obtain nd where
    sg: "slot_get h t (slot_for i us) = Inr (Some c)" and nd: "h c = Some nd"
    by auto
  have cin: "c \<in> set (bss ! i)"
    using Cons.prems(1) by simp
  have step: "h_lookup_loop fuel h t (slot_for i us) key kc eqf =
      (if P c then Inr (Some (slot_for i us)) else h_lookup_loop f h t (NextSlot c) key kc eqf)"
    using eqf [OF cin nd] P [OF cin nd] by (simp add: fuel sg nd)
  show ?case
  proof (cases "P c")
    case True
    then show ?thesis
      using Cons.prems(1) step by (auto intro!: exI [of _ "[]"])
  next
    case False
    have "bss ! i = (us @ [c]) @ vs"
      using Cons.prems(1) by simp
    from Cons.IH [OF this f] False step show ?thesis
      by (auto split: if_splits) (metis append_Cons set_ConsD append.assoc append_Nil)+
  qed
qed

text \<open>\<open>h_lookup\<close> walks the bucket its key selects, with enough fuel for all of it.\<close>

lemma h_lookup_walks:
  assumes rep: "htab_rep h t bss" and k: "h key = Some kn"
  defines "i \<equiv> bucket_ix t (hn_hcode kn)"
  shows "i < length bss" "length (bss ! i) \<le> unat (ht_size t)"
    "h_lookup h t key eqf = h_lookup_loop (unat (ht_size t)) h t (slot_for i []) key (hn_hcode kn) eqf"
proof -
  show i: "i < length bss"
    using rep by (simp add: i_def htab_rep_bucket_less)
  have "length (bss ! i) \<le> length (concat bss)"
    using i by (simp add: length_concat elem_le_sum_list [of i "map length bss", simplified])
  then show "length (bss ! i) \<le> unat (ht_size t)" using htab_rep_size [OF rep] by simp
  from rep obtain ps m where m: "ht_tab t = Some ps" "m < 64" "ht_mask t = mask m"
    by (rule htab_repE)
  have "unat (mask m + 1 :: u64) = 2 ^ m"
    using m(2) by (simp add: mask_eq_exp_minus_1 unat_pow2)
  then have "hn_hcode kn AND ht_mask t < ht_mask t + 1"
    using bucket_ix_less [OF m(3), of "hn_hcode kn"] m(3)
    by (simp add: word_less_nat_alt bucket_ix_def)
  then show "h_lookup h t key eqf = h_lookup_loop (unat (ht_size t)) h t (slot_for i []) key (hn_hcode kn) eqf"
    using m(1) k by (auto simp: h_lookup_def Let_def i_def bucket_ix_def)
qed

lemma same_code_same_bucket:
  assumes rep: "htab_rep h t bss" and c: "c \<in> set (concat bss)" "h c = Some nd"
  shows "c \<in> set (bss ! bucket_ix t (hn_hcode nd))"
proof -
  from c(1) obtain j where j: "j < length bss" "c \<in> set (bss ! j)"
    by (metis set_concat_nth)
  from htab_rep_home [OF rep this] c(2) j show ?thesis by auto
qed

lemma h_lookup_correct:
  assumes rep: "htab_rep h t bss" and k: "h key = Some kn"
    and eqf: "\<And>c nd. c \<in> set (concat bss) \<Longrightarrow> h c = Some nd \<Longrightarrow> hn_hcode nd = hn_hcode kn
                \<Longrightarrow> eqf key c = Inr (P c)"
    and P: "\<And>c nd. c \<in> set (concat bss) \<Longrightarrow> h c = Some nd \<Longrightarrow> P c \<Longrightarrow> hn_hcode nd = hn_hcode kn"
  defines "i \<equiv> bucket_ix t (hn_hcode kn)"
  shows "if \<exists>c \<in> set (concat bss). P c
     then \<exists>xs c ys. i < length bss \<and> bss ! i = xs @ c # ys \<and> P c \<and> (\<forall>x \<in> set xs. \<not> P x)
            \<and> h_lookup h t key eqf = Inr (Some (slot_for i xs))
     else h_lookup h t key eqf = Inr None"
proof -
  note w = h_lookup_walks [OF rep k, folded i_def]
  have sub: "c \<in> set (concat bss)" if "c \<in> set (bss ! i)" for c
    using that w(1) by (metis set_concat_nth)
  have only: "c \<in> set (bss ! i)" if c: "c \<in> set (concat bss)" "P c" for c
    using htab_rep_alloc [OF rep c(1)] same_code_same_bucket [OF rep c(1)] P [OF c(1) _ c(2)]
    by (auto simp: i_def)
  have "if \<exists>c \<in> set (bss ! i). P c
      then \<exists>xs c ys. bss ! i = [] @ xs @ c # ys \<and> P c \<and> (\<forall>x \<in> set xs. \<not> P x)
             \<and> h_lookup h t key eqf = Inr (Some (slot_for i ([] @ xs)))
      else h_lookup h t key eqf = Inr None"
    unfolding w(3)
    by (rule h_lookup_loop_correct [OF rep w(1)]) (auto intro: eqf P sub w(2))
  moreover have iff: "(\<exists>c \<in> set (concat bss). P c) \<longleftrightarrow> (\<exists>c \<in> set (bss ! i). P c)"
    using only sub by blast
  ultimately show ?thesis
    unfolding iff using w(1) by (auto split: if_splits)
qed

text \<open>A callback that fails on every node makes the lookup fail when it is called at all.\<close>

lemma h_lookup_loop_fails:
  assumes rep: "htab_rep h t bss" and i: "i < length bss" and eqf: "\<And>c. eqf key c = Inl e"
  shows "bss ! i = us @ vs \<Longrightarrow> length vs \<le> fuel \<Longrightarrow> \<exists>c \<in> set vs. \<exists>nd. h c = Some nd \<and> hn_hcode nd = kc \<Longrightarrow>
     h_lookup_loop fuel h t (slot_for i us) key kc eqf = Inl e"
proof (induction vs arbitrary: us fuel)
  case (Cons c vs)
  from Cons.prems(2) obtain f where fuel: "fuel = Suc f" and f: "length vs \<le> f"
    by (cases fuel) auto
  from slot_get_slot_for [OF rep i Cons.prems(1)] obtain nd where
    sg: "slot_get h t (slot_for i us) = Inr (Some c)" and nd: "h c = Some nd"
    by auto
  show ?case
  proof (cases "hn_hcode nd = kc")
    case True
    then show ?thesis using eqf by (simp add: fuel sg nd)
  next
    case False
    have "bss ! i = (us @ [c]) @ vs"
      using Cons.prems(1) by simp
    from Cons.IH [OF this f] False nd Cons.prems(3) show ?thesis by (simp add: fuel sg)
  qed
qed simp

lemma h_lookup_fails:
  assumes rep: "htab_rep h t bss" and k: "h key = Some kn" and eqf: "\<And>c. eqf key c = Inl e"
    and c: "c \<in> set (concat bss)" "h c = Some nd" "hn_hcode nd = hn_hcode kn"
  shows "h_lookup h t key eqf = Inl e"
proof -
  note w = h_lookup_walks [OF rep k]
  have "c \<in> set (bss ! bucket_ix t (hn_hcode kn))"
    using same_code_same_bucket [OF rep c(1,2)] c(3) by simp
  then show ?thesis
    unfolding w(3)
    by (intro h_lookup_loop_fails [OF rep w(1), of _ _ _ "[]"]) (use c(2,3) eqf w(2) in auto)
qed

section \<open>Detaching\<close>

text \<open>Two heaps with the same nodes and hash codes; only \<open>next\<close> fields may differ.\<close>

definition same_codes :: "hheap \<Rightarrow> hheap \<Rightarrow> bool" where
  "same_codes h h' \<longleftrightarrow> (\<forall>a. map_option hn_hcode (h' a) = map_option hn_hcode (h a))"

lemma same_codes_refl [simp]: "same_codes h h"
  by (simp add: same_codes_def)

lemma same_codes_trans: "same_codes h h' \<Longrightarrow> same_codes h' h'' \<Longrightarrow> same_codes h h''"
  by (simp add: same_codes_def)

lemma same_codes_upd: "h a = Some nd \<Longrightarrow> same_codes h (h(a \<mapsto> nd\<lparr>hn_next := p\<rparr>))"
  by (simp add: same_codes_def)

lemma same_codesD:
  "same_codes h h' \<Longrightarrow> h a = Some nd \<Longrightarrow> \<exists>nd'. h' a = Some nd' \<and> hn_hcode nd' = hn_hcode nd"
  by (auto simp: same_codes_def dest!: spec [of _ a])

lemma same_codesD':
  "same_codes h h' \<Longrightarrow> h' a = Some nd' \<Longrightarrow> \<exists>nd. h a = Some nd \<and> hn_hcode nd' = hn_hcode nd"
  by (cases "h a") (auto simp: same_codes_def dest!: spec [of _ a])

lemma same_codes_dom: "same_codes h h' \<Longrightarrow> dom h' = dom h"
  by (auto dest: same_codesD same_codesD')

lemma slot_set_size: "slot_set h t sl p = Inr (h', t') \<Longrightarrow> ht_size t' = ht_size t"
  by (cases sl) (auto simp: slot_set_def rbind_eq_Inr split: option.splits if_splits)

lemma h_detach_size:
  "h_detach h t from = Inr (h', t', d) \<Longrightarrow> ht_size t' = ht_size t - 1"
  by (auto simp: h_detach_def rbind_eq_Inr dest: slot_set_size)

text \<open>Setting the slot that precedes \<open>c\<close> to \<open>c\<close>'s successor drops \<open>c\<close> from its chain.\<close>

lemma slot_set_skip:
  assumes rep: "htab_rep h t bss" and i: "i < length bss" and b: "bss ! i = us @ c # vs"
    and nd: "h c = Some nd"
  shows "\<exists>h' ps'. slot_set h t (slot_for i us) (hn_next nd) = Inr (h', t\<lparr>ht_tab := Some ps'\<rparr>)
     \<and> length ps' = length bss \<and> same_codes h h' \<and> (\<forall>a. a \<notin> set us \<longrightarrow> h' a = h a)
     \<and> (\<forall>j < length bss. chain h' (ps' ! j) (bss[i := us @ vs] ! j))"
proof -
  from rep obtain ps k where p: "ht_tab t = Some ps" "length ps = 2 ^ k" "length bss = 2 ^ k"
    and ch: "\<forall>i < 2 ^ k. chain h (ps ! i) (bss ! i)"
    by (rule htab_repE)
  have chi: "chain h (ps ! i) (us @ c # vs)"
    using ch i b p by metis
  then obtain r where r: "hpath h (ps ! i) us r" "chain h (hn_next nd) vs"
    using nd by auto
  show ?thesis
  proof (cases "us = []")
    case True
    then show ?thesis
      using i p ch r by (auto simp: slot_set_def nth_list_update)
  next
    case False
    define l where "l = last us"
    have lin: "l \<in> set us" using False by (simp add: l_def)
    have di: "distinct (us @ c # vs)"
      using htab_rep_distinct [OF rep] i b by (metis distinct_concat_nthD)
    obtain ln where ln: "h l = Some ln"
      using r(1) lin by (blast dest: hpath_alloc)
    let ?h = "h(l \<mapsto> ln\<lparr>hn_next := hn_next nd\<rparr>)"
    have "hpath ?h (ps ! i) us (hn_next nd)"
      using hpath_redirect [OF r(1)] di False ln by (simp add: l_def)
    moreover have "l \<notin> set vs"
      using di lin by auto
    then have "chain ?h (hn_next nd) vs"
      using r(2) by simp
    moreover have "chain ?h (ps ! j) (bss ! j)" if "j < 2 ^ k" "j \<noteq> i" for j
    proof -
      have "l \<notin> set (bss ! j)"
        using distinct_concat_nth [OF htab_rep_distinct [OF rep], of j i l] that i b lin p by auto
      then show ?thesis using ch that by simp
    qed
    ultimately have "\<forall>j < length bss. chain ?h (ps ! j) (bss[i := us @ vs] ! j)"
      using p i by (auto simp: nth_list_update)
    moreover have "slot_set h t (slot_for i us) (hn_next nd) = Inr (?h, t\<lparr>ht_tab := Some ps\<rparr>)"
      using False ln p by (simp add: slot_for_def slot_set_def l_def)
    ultimately show ?thesis
      using same_codes_upd [of h l, OF ln] lin p by (intro exI [of _ ?h] exI [of _ ps]) auto
  qed
qed

lemma htab_rep_detach:
  assumes rep: "htab_rep h t bss" and i: "i < length bss" and b: "bss ! i = us @ c # vs"
  shows "\<exists>h' t'. h_detach h t (slot_for i us) = Inr (h', t', c)
     \<and> htab_rep h' t' (bss[i := us @ vs]) \<and> ht_mask t' = ht_mask t
     \<and> same_codes h h' \<and> (\<forall>a. a \<notin> set us \<longrightarrow> h' a = h a)"
proof -
  from slot_get_slot_for [OF rep i b] obtain nd where
    sg: "slot_get h t (slot_for i us) = Inr (Some c)" and nd: "h c = Some nd"
    by auto
  from slot_set_skip [OF rep i b nd] obtain h' ps' where
    ss: "slot_set h t (slot_for i us) (hn_next nd) = Inr (h', t\<lparr>ht_tab := Some ps'\<rparr>)"
    and ps': "length ps' = length bss" and sc: "same_codes h h'"
    and fr: "\<forall>a. a \<notin> set us \<longrightarrow> h' a = h a"
    and ch: "\<forall>j < length bss. chain h' (ps' ! j) (bss[i := us @ vs] ! j)"
    by blast
  let ?t = "t\<lparr>ht_tab := Some ps', ht_size := ht_size t - 1\<rparr>"
  let ?bss = "bss[i := us @ vs]"
  have run: "h_detach h t (slot_for i us) = Inr (h', ?t, c)"
    by (simp add: h_detach_def sg nd ss)
  have ms: "mset (concat bss) = mset (c # concat ?bss)"
    using concat_remove_at [OF i b] by simp
  have dist: "distinct (concat ?bss)"
    using mset_eq_imp_distinct_iff [OF ms] htab_rep_distinct [OF rep] by simp
  have sz: "unat (ht_size t - 1) = length (concat ?bss)"
  proof -
    have "length (concat bss) = Suc (length (concat ?bss))"
      using arg_cong [OF ms, of size] by simp
    moreover from this have "1 \<le> ht_size t"
      using htab_rep_size [OF rep] by (simp add: word_le_nat_alt)
    ultimately show ?thesis
      using htab_rep_size [OF rep] by (simp add: unat_sub)
  qed
  have home: "\<forall>j < length ?bss. \<forall>a \<in> set (?bss ! j). \<exists>n. h' a = Some n \<and> bucket_ix ?t (hn_hcode n) = j"
  proof (intro allI ballI impI)
    fix j a assume j: "j < length ?bss" and "a \<in> set (?bss ! j)"
    then have "a \<in> set (bss ! j)"
      using i b by (auto simp: nth_list_update split: if_splits)
    then obtain n where "h a = Some n" "bucket_ix t (hn_hcode n) = j"
      using htab_rep_home [OF rep] j by auto
    then show "\<exists>n. h' a = Some n \<and> bucket_ix ?t (hn_hcode n) = j"
      using same_codesD [OF sc] by (fastforce simp: bucket_ix_def)
  qed
  from rep obtain k where "k < 64" "ht_mask t = mask k" "length bss = 2 ^ k"
    by (rule htab_repE)
  then have "htab_rep h' ?t ?bss"
    unfolding htab_rep_def using ps' ch dist sz home
    by (intro conjI exI [of _ ps'] exI [of _ k]) auto
  with run sc fr show ?thesis by auto
qed

section \<open>Scanning\<close>

lemma h_scan_chain_fold:
  "chain h p as \<Longrightarrow> length as \<le> fuel \<Longrightarrow> (\<And>a s. a \<in> set as \<Longrightarrow> f a s = Inr (g a s)) \<Longrightarrow>
     h_scan_chain fuel h p f s = Inr (fold g as s)"
proof (induction as arbitrary: p fuel s)
  case Nil
  then show ?case by simp
next
  case (Cons a as)
  then obtain n where "fuel = Suc n" by (cases fuel) auto
  with Cons show ?case by auto
qed

lemma length_nth_le_concat: "i < length xss \<Longrightarrow> length (xss ! i) \<le> length (concat xss)"
  by (simp add: length_concat elem_le_sum_list [of i "map length xss", simplified])

lemma h_scan_rows_fold:
  assumes rep: "htab_rep h t bss"
    and f: "\<And>a s. a \<in> set (concat bss) \<Longrightarrow> f a s = Inr (g a s)"
  shows "i + k = length bss \<Longrightarrow> h_scan_rows h t f i k s = Inr (fold g (concat (drop i bss)) s)"
proof (induction k arbitrary: i s)
  case 0
  then show ?case by simp
next
  case (Suc k)
  then have i: "i < length bss" by simp
  from slot_get_slot_for [OF rep i, of "[]" "bss ! i"] obtain p where
    p: "tab_at t i = Inr p" "chain h p (bss ! i)"
    by (auto simp: slot_get_def)
  have sub: "a \<in> set (concat bss)" if "a \<in> set (bss ! i)" for a
    using that i by (metis set_concat_nth)
  have "h_scan_chain (unat (ht_size t)) h p f s = Inr (fold g (bss ! i) s)"
    using p(2) length_nth_le_concat [OF i] htab_rep_size [OF rep] f sub
    by (intro h_scan_chain_fold) auto
  moreover have "concat (drop i bss) = bss ! i @ concat (drop (Suc i) bss)"
    using i by (metis Cons_nth_drop_Suc concat.simps(2))
  ultimately show ?case
    using Suc p(1) by simp
qed

lemma unat_mask_plus1: "k < 64 \<Longrightarrow> unat (mask k + 1 :: u64) = 2 ^ k"
  by (simp add: mask_eq_exp_minus_1 unat_pow2)

lemma h_scan_fold:
  assumes rep: "htab_rep h t bss"
    and f: "\<And>a s. a \<in> set (concat bss) \<Longrightarrow> f a s = Inr (g a s)"
  shows "h_scan h t f s = Inr (fold g (concat bss) s)"
proof (cases "ht_size t = 0")
  case True
  then have "concat bss = []"
    using htab_rep_size [OF rep] by simp
  with True show ?thesis by (simp add: h_scan_def del: concat_eq_Nil_conv)
next
  case False
  from rep obtain k where "k < 64" "ht_mask t = mask k" "length bss = 2 ^ k"
    by (rule htab_repE)
  then have "unat (ht_mask t + 1) = length bss"
    by (simp add: unat_mask_plus1)
  then show ?thesis
    using False h_scan_rows_fold [OF rep f, where i = 0 and k = "length bss"] by (simp add: h_scan_def)
qed

end
