(* ===== verification/HMap.thy ===== *)
theory HMap
  imports Hashtable
begin

text \<open>
  The \<open>HMap\<close> half of \<open>src/hashtable.cpp\<close>: two \<open>HTab\<close>s and a resizing
  position, insertion that grows the map, the helper that moves nodes from the old table
  to the new one, lookup and removal.  The section on resizing says exactly when the
  move succeeds.
\<close>

section \<open>State and operations\<close>

record hmap =
  hm_tb1 :: htab
  hm_tb2 :: htab
  hm_pos :: u64

definition hmap_zero :: hmap where
  "hmap_zero = \<lparr>hm_tb1 = htab_zero, hm_tb2 = htab_zero, hm_pos = 0\<rparr>"

definition k_max_load_factor :: u64 where "k_max_load_factor = 8"
definition k_resizing_work :: u64 where "k_resizing_work = 128"

definition inc :: "addr \<Rightarrow> u32 \<Rightarrow> u32 res" where
  "inc node arg = Inr (arg + 1)"

definition hm_size :: "hheap \<Rightarrow> hmap \<Rightarrow> u32 res" where
  "hm_size h m =
     rbind (h_scan h (hm_tb1 m) inc 0) (\<lambda>count.
     h_scan h (hm_tb2 m) inc count)"

definition hm_start_resizing :: "hmap \<Rightarrow> hmap res" where
  "hm_start_resizing m =
     rbind (assert_that (ht_tab (hm_tb2 m) = None)) (\<lambda>_.
     rbind (h_init (hm_tb1 m) (2 * (ht_mask (hm_tb1 m) + 1))) (\<lambda>t.
       Inr (m\<lparr>hm_tb2 := hm_tb1 m, hm_tb1 := t, hm_pos := 0\<rparr>)))"

lemma pred_size_less: "0 < (w :: u64) \<Longrightarrow> unat (w - 1) < unat w"
  by (simp add: word_gt_0 unat_minus_one unat_gt_0)

text \<open>
  The loop of \<open>hm_help_resizing\<close>.  \<open>n_work\<close> is never incremented in the code,
  so the guard depends on \<open>tb2.size\<close> alone; each round detaches one node, which is
  why the loop ends.  An empty bucket moves the position on by one before the detach,
  which then dereferences whatever the next bucket holds.
\<close>

function hm_resize_loop :: "hheap \<Rightarrow> hmap \<Rightarrow> u64 \<Rightarrow> (hheap \<times> hmap) res" where
  "hm_resize_loop h m n_work =
     (if n_work < k_resizing_work \<and> 0 < ht_size (hm_tb2 m) then
        rbind (tab_at (hm_tb2 m) (unat (hm_pos m))) (\<lambda>p.
        let pos = (if p = None then hm_pos m + 1 else hm_pos m) in
        rbind (h_detach h (hm_tb2 m) (TabSlot (unat pos))) (\<lambda>(h2, t2, to_move).
        rbind (h_insert h2 (hm_tb1 m) to_move) (\<lambda>(h3, t1).
          hm_resize_loop h3 (m\<lparr>hm_tb1 := t1, hm_tb2 := t2, hm_pos := pos\<rparr>) n_work)))
      else Inr (h, m))"
  by pat_completeness auto

termination
  by (relation "measure (\<lambda>(h, m, n). unat (ht_size (hm_tb2 m)))")
    (auto simp: pred_size_less dest: h_detach_size)

declare hm_resize_loop.simps [simp del]

definition hm_help_resizing :: "hheap \<Rightarrow> hmap \<Rightarrow> (hheap \<times> hmap) res" where
  "hm_help_resizing h m =
     rbind (hm_resize_loop h m 0) (\<lambda>(h', m').
       if ht_size (hm_tb2 m') = 0 \<and> ht_tab (hm_tb2 m') \<noteq> None
       then Inr (h', m'\<lparr>hm_tb2 := htab_zero\<rparr>)
       else Inr (h', m'))"

definition hm_insert :: "hheap \<Rightarrow> hmap \<Rightarrow> addr \<Rightarrow> (hheap \<times> hmap) res" where
  "hm_insert h m node =
     rbind (if ht_tab (hm_tb1 m) = None then h_init (hm_tb1 m) 4 else Inr (hm_tb1 m)) (\<lambda>t0.
     rbind (h_insert h t0 node) (\<lambda>(h1, t1).
     let m1 = m\<lparr>hm_tb1 := t1\<rparr> in
     rbind (if ht_tab (hm_tb2 m1) = None
              \<and> k_max_load_factor < ht_size t1 div (ht_mask t1 + 1)
            then hm_start_resizing m1 else Inr m1) (\<lambda>m2.
     hm_help_resizing h1 m2)))"

definition hm_lookup ::
  "hheap \<Rightarrow> hmap \<Rightarrow> addr \<Rightarrow> (addr \<Rightarrow> addr \<Rightarrow> bool res) \<Rightarrow> (hheap \<times> hmap \<times> ptr) res"
where
  "hm_lookup h m key eqf =
     rbind (hm_help_resizing h m) (\<lambda>(h, m).
     rbind (h_lookup h (hm_tb1 m) key eqf) (\<lambda>from.
       case from of
         Some sl \<Rightarrow> rbind (slot_get h (hm_tb1 m) sl) (\<lambda>p. Inr (h, m, p))
       | None \<Rightarrow>
           rbind (h_lookup h (hm_tb2 m) key eqf) (\<lambda>from.
             case from of
               Some sl \<Rightarrow> rbind (slot_get h (hm_tb2 m) sl) (\<lambda>p. Inr (h, m, p))
             | None \<Rightarrow> Inr (h, m, None))))"

definition hm_pop ::
  "hheap \<Rightarrow> hmap \<Rightarrow> addr \<Rightarrow> (addr \<Rightarrow> addr \<Rightarrow> bool res) \<Rightarrow> (hheap \<times> hmap \<times> ptr) res"
where
  "hm_pop h m key eqf =
     rbind (h_lookup h (hm_tb1 m) key eqf) (\<lambda>from.
       case from of
         Some sl \<Rightarrow> rbind (h_detach h (hm_tb1 m) sl) (\<lambda>(h', t, d).
           Inr (h', m\<lparr>hm_tb1 := t\<rparr>, Some d))
       | None \<Rightarrow>
           rbind (h_lookup h (hm_tb2 m) key eqf) (\<lambda>from.
             case from of
               Some sl \<Rightarrow> rbind (h_detach h (hm_tb2 m) sl) (\<lambda>(h', t, d).
                 Inr (h', m\<lparr>hm_tb2 := t\<rparr>, Some d))
             | None \<Rightarrow> Inr (h, m, None)))"

section \<open>The two-table invariant\<close>

text \<open>
  Between operations the second table is NULL: \<open>hm_help_resizing\<close> empties it in one
  call.  \<open>hm_idle h m bss\<close> says so, and that the first table is untouched or
  represents \<open>bss\<close>.
\<close>

definition hm_idle :: "hheap \<Rightarrow> hmap \<Rightarrow> addr list list \<Rightarrow> bool" where
  "hm_idle h m bss \<longleftrightarrow> hm_tb2 m = htab_zero \<and>
     (if ht_tab (hm_tb1 m) = None then hm_tb1 m = htab_zero \<and> bss = []
      else htab_rep h (hm_tb1 m) bss)"

lemma hm_idle_zero: "hm_idle h hmap_zero []"
  by (simp add: hm_idle_def hmap_zero_def htab_zero_def)

lemma hm_idle_frame:
  "hm_idle h m bss \<Longrightarrow> (\<And>a. a \<in> set (concat bss) \<Longrightarrow> h' a = h a) \<Longrightarrow> hm_idle h' m bss"
  by (auto simp: hm_idle_def intro: htab_rep_frame)

lemma hm_idle_distinct: "hm_idle h m bss \<Longrightarrow> distinct (concat bss)"
  by (auto simp: hm_idle_def htab_rep_distinct split: if_splits)

lemma hm_idle_alloc: "hm_idle h m bss \<Longrightarrow> a \<in> set (concat bss) \<Longrightarrow> \<exists>nd. h a = Some nd"
  by (auto simp: hm_idle_def simp del: set_concat split: if_splits dest: htab_rep_alloc)

lemma h_lookup_NULL [simp]: "h_lookup h htab_zero key eqf = Inr None"
  by (simp add: h_lookup_def htab_zero_def)

lemma hm_help_idle: "hm_tb2 m = htab_zero \<Longrightarrow> hm_help_resizing h m = Inr (h, m)"
  by (simp add: hm_help_resizing_def hm_resize_loop.simps [of h m 0] htab_zero_def)

section \<open>Resizing\<close>

text \<open>
  The old table can be moved iff, past the current position, no bucket before the last
  non-empty one is empty.
\<close>

definition gap_free :: "nat \<Rightarrow> 'a list list \<Rightarrow> bool" where
  "gap_free p bss \<longleftrightarrow> (\<forall>i j. p < i \<longrightarrow> i < j \<longrightarrow> j < length bss \<longrightarrow> bss ! j \<noteq> [] \<longrightarrow> bss ! i \<noteq> [])"

lemma gap_free_mono: "gap_free p bss \<Longrightarrow> p \<le> q \<Longrightarrow> gap_free q bss"
  by (auto simp: gap_free_def)

lemma gap_free_update [simp]: "gap_free p (bss[p := xs]) = gap_free p bss"
  by (auto simp: gap_free_def nth_list_update)

lemma gap_free_Suc: "bss ! Suc p \<noteq> [] \<Longrightarrow> gap_free (Suc p) bss = gap_free p bss"
  by (auto simp: gap_free_def) (metis Suc_lessI)

lemma gap_free_skip:
  assumes "p < j" "j < length bss" "bss ! j \<noteq> []"
  shows "gap_free p bss \<longleftrightarrow> bss ! Suc p \<noteq> [] \<and> gap_free (Suc p) bss"
proof (cases "bss ! Suc p = []")
  case True
  with assms have "Suc p < j"
    by (metis Suc_lessI)
  with True assms show ?thesis
    unfolding gap_free_def by blast
next
  case False
  then show ?thesis by (simp add: gap_free_Suc)
qed

text \<open>One round of the loop, moving the head of bucket \<open>q\<close>.\<close>

lemma resize_move:
  assumes r1: "htab_rep h t1 bss1" and r2: "htab_rep h t2 bss2"
    and disj: "set (concat bss1) \<inter> set (concat bss2) = {}"
    and room: "length (concat bss1) + length (concat bss2) < 2 ^ 64"
    and q: "q < length bss2" and b: "bss2 ! q = c # cs"
  shows "\<exists>t2' h' t1' i. h_detach h t2 (TabSlot q) = Inr (h, t2', c)
    \<and> h_insert h t1 c = Inr (h', t1') \<and> htab_rep h' t1' (bss1[i := c # bss1 ! i]) \<and> i < length bss1
    \<and> htab_rep h' t2' (bss2[q := cs]) \<and> ht_mask t1' = ht_mask t1 \<and> same_codes h h'
    \<and> (\<forall>a. a \<noteq> c \<longrightarrow> h' a = h a)"
proof -
  from htab_rep_detach [OF r2 q, of "[]" c cs] b obtain h2 t2' where
    d: "h_detach h t2 (TabSlot q) = Inr (h2, t2', c)" "htab_rep h2 t2' (bss2[q := cs])"
    and "\<forall>a. h2 a = h a"
    by auto
  then have h2: "h2 = h" by auto
  note rm = concat_remove_facts [OF q, of "[]" c cs, simplified append_Nil, OF b]
  have cin: "c \<in> set (concat bss2)"
    unfolding rm(1) by simp
  then have fresh: "c \<notin> set (concat bss1)"
    using disj by blast
  from htab_rep_alloc [OF r2 cin] obtain nd where nd: "h c = Some nd" ..
  have "length (concat bss1) + 1 < 2 ^ 64"
    using room unfolding rm(2) by linarith
  from htab_rep_insert [OF r1 nd fresh this] obtain nx t1' where
    ins: "h_insert h t1 c = Inr (h(c \<mapsto> nd\<lparr>hn_next := nx\<rparr>), t1')"
    "htab_rep (h(c \<mapsto> nd\<lparr>hn_next := nx\<rparr>)) t1'
       (bss1[bucket_ix t1 (hn_hcode nd) := c # bss1 ! bucket_ix t1 (hn_hcode nd)])"
    "ht_mask t1' = ht_mask t1"
    by blast
  have "c \<notin> set (concat (bss2[q := cs]))"
    using rm(3) htab_rep_distinct [OF r2] by blast
  then have "(h(c \<mapsto> nd\<lparr>hn_next := nx\<rparr>)) a = h a" if "a \<in> set (concat (bss2[q := cs]))" for a
    using that by (metis fun_upd_other)
  with d(2) h2 have "htab_rep (h(c \<mapsto> nd\<lparr>hn_next := nx\<rparr>)) t2' (bss2[q := cs])"
    by (blast intro: htab_rep_frame)
  then have "h_detach h t2 (TabSlot q) = Inr (h, t2', c)
    \<and> h_insert h t1 c = Inr (h(c \<mapsto> nd\<lparr>hn_next := nx\<rparr>), t1')
    \<and> htab_rep (h(c \<mapsto> nd\<lparr>hn_next := nx\<rparr>)) t1'
         (bss1[bucket_ix t1 (hn_hcode nd) := c # bss1 ! bucket_ix t1 (hn_hcode nd)])
    \<and> bucket_ix t1 (hn_hcode nd) < length bss1
    \<and> htab_rep (h(c \<mapsto> nd\<lparr>hn_next := nx\<rparr>)) t2' (bss2[q := cs])
    \<and> ht_mask t1' = ht_mask t1 \<and> same_codes h (h(c \<mapsto> nd\<lparr>hn_next := nx\<rparr>))
    \<and> (\<forall>a. a \<noteq> c \<longrightarrow> (h(c \<mapsto> nd\<lparr>hn_next := nx\<rparr>)) a = h a)"
    using d(1) h2 ins htab_rep_bucket_less [OF r1] same_codes_upd [of h c, OF nd] by simp
  then show ?thesis
    by (intro exI)
qed

lemma resize_loop_done:
  "concat bss2 = [] \<Longrightarrow> htab_rep h (hm_tb2 m) bss2 \<Longrightarrow> hm_resize_loop h m n = Inr (h, m)"
  using htab_rep_size [of h "hm_tb2 m" bss2]
  by (simp add: hm_resize_loop.simps [of h m n] word_less_nat_alt del: concat_eq_Nil_conv)

text \<open>What a finished move leaves behind: an emptied second table and every node in the first.\<close>

definition moved :: "hheap \<Rightarrow> hmap \<Rightarrow> addr list list \<Rightarrow> addr list list \<Rightarrow> hheap \<Rightarrow> hmap \<Rightarrow> bool" where
  "moved h m bss1 bss2 h' m' \<longleftrightarrow>
     (\<exists>bss1'. htab_rep h' (hm_tb1 m') bss1'
        \<and> mset (concat bss1') = mset (concat bss1) + mset (concat bss2)
        \<and> length bss1' = length bss1)
     \<and> ht_size (hm_tb2 m') = 0 \<and> ht_tab (hm_tb2 m') \<noteq> None
     \<and> same_codes h h'
     \<and> (\<forall>a. a \<notin> set (concat bss2) \<longrightarrow> h' a = h a)"

lemma moved_refl:
  assumes "htab_rep h (hm_tb1 m) bss1" "htab_rep h (hm_tb2 m) bss2" "concat bss2 = []"
  shows "moved h m bss1 bss2 h m"
proof -
  from assms(2) obtain ps where "ht_tab (hm_tb2 m) = Some ps"
    by (rule htab_repE)
  then show ?thesis
    using assms htab_rep_size [OF assms(2)]
    by (auto simp: moved_def unsigned_eq_0_iff simp del: concat_eq_Nil_conv)
qed

lemma moved_step:
  assumes mv: "moved h1 m1 (bss1[i := c # bss1 ! i]) (bss2[q := cs]) h' m'"
    and i: "i < length bss1" and q: "q < length bss2" and b: "bss2 ! q = c # cs"
    and sc: "same_codes h h1" and fr: "\<forall>a. a \<noteq> c \<longrightarrow> h1 a = h a"
  shows "moved h m bss1 bss2 h' m'"
proof -
  have ms: "mset (concat bss2) = mset (c # concat (bss2[q := cs]))"
    using concat_remove_at [OF q, of "[]" c cs] b by simp
  note st = mset_Cons_facts(1) [OF ms]
  show ?thesis
    using mv ms sc fr concat_cons_at [OF i, of c] same_codes_trans [OF sc]
    unfolding moved_def st by (auto simp del: set_concat)
qed

text \<open>
  The loop, exactly: it moves every node when there is no gap, and otherwise
  dereferences the NULL head of the first empty bucket past the position.
\<close>

lemma resize_loop_correct:
  assumes "htab_rep h (hm_tb1 m) bss1" and "htab_rep h (hm_tb2 m) bss2"
    and "set (concat bss1) \<inter> set (concat bss2) = {}"
    and "length (concat bss1) + length (concat bss2) < 2 ^ 64"
    and "p < length bss2" and "\<forall>i < p. bss2 ! i = []" and "unat (hm_pos m) = p"
  shows "if gap_free p bss2
     then \<exists>h' m'. hm_resize_loop h m 0 = Inr (h', m') \<and> moved h m bss1 bss2 h' m'
     else hm_resize_loop h m 0 = Inl NullDeref"
  using assms
proof (induction "length (concat bss2)" arbitrary: h m bss1 bss2 p)
  case 0
  then have e: "concat bss2 = []" by simp
  then have "gap_free p bss2"
    by (auto simp: gap_free_def)
  with 0 e show ?case
    by (simp add: resize_loop_done [OF e] moved_refl del: concat_eq_Nil_conv)
next
  case (Suc n)
  note r1 = Suc.prems(1) and r2 = Suc.prems(2) and pos = Suc.prems(7)
  from r2 obtain ps k where ps: "ht_tab (hm_tb2 m) = Some ps" "k < 64"
    "length ps = 2 ^ k" "length bss2 = 2 ^ k" "\<forall>i < 2 ^ k. chain h (ps ! i) (bss2 ! i)"
    by (rule htab_repE)
  have sz: "0 < ht_size (hm_tb2 m)"
    using htab_rep_size [OF r2] Suc.hyps(2) [symmetric] by (simp only: word_less_nat_alt) simp
  have p: "p < 2 ^ k" and chp: "chain h (ps ! p) (bss2 ! p)"
    using ps Suc.prems(5) by auto
  define q where "q = (if bss2 ! p = [] then Suc p else p)"
  have ex: "\<exists>j. p \<le> j \<and> j < length bss2 \<and> bss2 ! j \<noteq> []"
  proof -
    have "set (concat bss2) \<noteq> {}" using Suc.hyps(2) by (metis list.size(3) nat.distinct(1) set_empty)
    then obtain a j where j: "j < length bss2" "a \<in> set (bss2 ! j)"
      by (metis ex_in_conv set_concat_nth)
    then have "\<not> j < p" using Suc.prems(6) by auto
    with j show ?thesis by (intro exI [of _ j]) auto
  qed
  then have q: "q < length bss2"
    by (auto simp: q_def Suc.prems(5) intro: le_neq_implies_less le_less_trans [of "Suc p"] Suc_leI)
  have below: "\<forall>i < q. bss2 ! i = []"
    using Suc.prems(6) by (auto simp: q_def less_Suc_eq)
  have gf: "gap_free p bss2 \<longleftrightarrow> bss2 ! q \<noteq> [] \<and> gap_free q bss2"
  proof (cases "bss2 ! p = []")
    case True
    with ex obtain j where "p < j" "j < length bss2" "bss2 ! j \<noteq> []"
      by (metis le_neq_implies_less)
    with True show ?thesis
      using gap_free_skip [of p j bss2] by (simp add: q_def)
  next
    case False
    then show ?thesis by (simp add: q_def)
  qed
  define pos' where "pos' = (if ps ! p = None then hm_pos m + 1 else hm_pos m)"
  have pnone: "ps ! p = None \<longleftrightarrow> bss2 ! p = []"
    using chp by (cases "bss2 ! p") auto
  have q64: "q < 2 ^ 64"
  proof -
    have "(2 :: nat) ^ k < 2 ^ 64"
      using ps(2) by (intro power_strict_increasing) simp_all
    with q ps(4) show ?thesis by linarith
  qed
  have pos': "unat pos' = q"
    using pos pnone q64 by (auto simp: pos'_def q_def unat_word_ariths)
  have unf: "hm_resize_loop h m 0 =
      rbind (h_detach h (hm_tb2 m) (TabSlot q)) (\<lambda>(h2, t2, c).
      rbind (h_insert h2 (hm_tb1 m) c) (\<lambda>(h3, t1).
        hm_resize_loop h3 (m\<lparr>hm_tb1 := t1, hm_tb2 := t2, hm_pos := pos'\<rparr>) 0))"
    using sz p ps pos pos'
    by (simp add: hm_resize_loop.simps [of h m 0] k_resizing_work_def tab_at_def pos'_def Let_def)
  show ?case
  proof (cases "bss2 ! q")
    case Nil
    then have "ps ! q = None"
      using ps q by (metis chain_None hpath.simps(1))
    then have "hm_resize_loop h m 0 = Inl NullDeref"
      using q ps by (simp add: unf h_detach_def slot_get_def tab_at_def)
    then show ?thesis using gf Nil by simp
  next
    case (Cons c cs)
    from resize_move [OF r1 r2 Suc.prems(3,4) q Cons] obtain t2' h' t1' i where
      mv: "h_detach h (hm_tb2 m) (TabSlot q) = Inr (h, t2', c)"
      "h_insert h (hm_tb1 m) c = Inr (h', t1')"
      and rep': "htab_rep h' t1' (bss1[i := c # bss1 ! i])" "htab_rep h' t2' (bss2[q := cs])"
      and i: "i < length bss1" and sc: "same_codes h h'" and fr: "\<forall>a. a \<noteq> c \<longrightarrow> h' a = h a"
      by blast
    let ?m = "m\<lparr>hm_tb1 := t1', hm_tb2 := t2', hm_pos := pos'\<rparr>"
    let ?b1 = "bss1[i := c # bss1 ! i]" and ?b2 = "bss2[q := cs]"
    have run: "hm_resize_loop h m 0 = hm_resize_loop h' ?m 0"
      by (simp add: unf mv)
    note rm = concat_remove_facts [OF q, of "[]" c cs, simplified append_Nil, OF Cons]
    note ad = concat_cons_facts [OF i, of c]
    have n: "n = length (concat ?b2)"
      using Suc.hyps(2) unfolding rm(2) by simp
    have "c \<notin> set (concat ?b2)"
      using rm(3) htab_rep_distinct [OF r2] by blast
    then have disj: "set (concat ?b1) \<inter> set (concat ?b2) = {}"
      using Suc.prems(3) unfolding rm(1) ad(1) by blast
    have room: "length (concat ?b1) + length (concat ?b2) < 2 ^ 64"
      using Suc.prems(4) unfolding rm(2) ad(2) by linarith
    have IH: "if gap_free q ?b2
       then \<exists>h'' m'. hm_resize_loop h' ?m 0 = Inr (h'', m') \<and> moved h' ?m ?b1 ?b2 h'' m'
       else hm_resize_loop h' ?m 0 = Inl NullDeref"
      by (rule Suc.hyps(1) [OF n])
        (use rep' disj room q below pos' in \<open>simp_all add: nth_list_update del: set_concat\<close>)
    then show ?thesis
      using gf Cons run moved_step [OF _ i q Cons sc fr] by (auto split: if_splits)
  qed
qed

section \<open>Insertion\<close>

text \<open>
  \<open>push_bucket bss a w\<close>: the buckets right after \<open>a\<close>, with hash code \<open>w\<close>, went
  into the (possibly just created, four-bucket) first table.
\<close>

definition table_of :: "addr list list \<Rightarrow> addr list list" where
  "table_of bss = (if bss = [] then replicate 4 [] else bss)"

definition push_bucket :: "addr list list \<Rightarrow> addr \<Rightarrow> u64 \<Rightarrow> addr list list" where
  "push_bucket bss a w =
     (let tb = table_of bss; i = unat w mod length tb in tb[i := a # tb ! i])"

definition over_full :: "addr list list \<Rightarrow> bool" where
  "over_full bss \<longleftrightarrow> 8 < length (concat bss) div length bss"

lemma bucket_ix_mod:
  assumes "ht_mask t = mask k" and "k < 64"
  shows "bucket_ix t w = unat w mod 2 ^ k"
proof -
  show ?thesis
    unfolding bucket_ix_def assms(1) take_bit_eq_mask [symmetric]
    by (simp only: unsigned_take_bit_eq take_bit_nat_def)
qed

lemma mask_2: "(mask 2 :: u64) = 3"
  by (simp add: mask_eq_exp_minus_1)

lemma h_init_4: "\<exists>t'. h_init t 4 = Inr t' \<and> htab_rep h t' (replicate 4 []) \<and> ht_mask t' = mask 2"
  using h_init_rep [of 2 t h] by simp

lemma htab_rep_nonempty: "htab_rep h t bss \<Longrightarrow> bss \<noteq> []"
  by (auto elim!: htab_repE)

text \<open>The first two steps of \<open>hm_insert\<close>.\<close>

lemma hm_insert_step:
  assumes idle: "hm_idle h m bss" and nd: "h a = Some nd" and fresh: "a \<notin> set (concat bss)"
    and room: "length (concat bss) + 1 < 2 ^ 60"
  shows "\<exists>t0 nx t1. (if ht_tab (hm_tb1 m) = None then h_init (hm_tb1 m) 4 else Inr (hm_tb1 m)) = Inr t0
     \<and> h_insert h t0 a = Inr (h(a \<mapsto> nd\<lparr>hn_next := nx\<rparr>), t1)
     \<and> htab_rep (h(a \<mapsto> nd\<lparr>hn_next := nx\<rparr>)) t1 (push_bucket bss a (hn_hcode nd))"
proof -
  have "\<exists>t0. (if ht_tab (hm_tb1 m) = None then h_init (hm_tb1 m) 4 else Inr (hm_tb1 m)) = Inr t0
     \<and> htab_rep h t0 (table_of bss)"
  proof (cases "ht_tab (hm_tb1 m) = None")
    case True
    then show ?thesis
      using idle h_init_4 [of "hm_tb1 m" h] by (auto simp: hm_idle_def table_of_def)
  next
    case False
    then show ?thesis
      using idle htab_rep_nonempty [of h "hm_tb1 m" bss] by (auto simp: hm_idle_def table_of_def)
  qed
  then obtain t0 where t0:
    "(if ht_tab (hm_tb1 m) = None then h_init (hm_tb1 m) 4 else Inr (hm_tb1 m)) = Inr t0"
    "htab_rep h t0 (table_of bss)"
    by blast
  have c: "concat (table_of bss) = concat bss"
    by (simp add: table_of_def)
  have "a \<notin> set (concat (table_of bss))" "length (concat (table_of bss)) + 1 < 2 ^ 64"
    using fresh room unfolding c by simp_all
  from htab_rep_insert [OF t0(2) nd this] obtain nx t1 where
    "h_insert h t0 a = Inr (h(a \<mapsto> nd\<lparr>hn_next := nx\<rparr>), t1)"
    "htab_rep (h(a \<mapsto> nd\<lparr>hn_next := nx\<rparr>)) t1
      ((table_of bss)[bucket_ix t0 (hn_hcode nd) := a # table_of bss ! bucket_ix t0 (hn_hcode nd)])"
    by blast
  moreover have "bucket_ix t0 (hn_hcode nd) = unat (hn_hcode nd) mod length (table_of bss)"
    using t0(2) bucket_ix_mod by (metis htab_repE)
  ultimately show ?thesis
    using t0(1) by (auto simp: push_bucket_def Let_def)
qed

lemma table_of_nonempty: "0 < length (table_of bss)"
  by (auto simp: table_of_def)

lemma push_bucket_facts:
  shows "mset (concat (push_bucket bss a w)) = mset (a # concat bss)"
    and "length (push_bucket bss a w) = length (table_of bss)"
proof -
  have c: "concat (table_of bss) = concat bss"
    by (simp add: table_of_def)
  have "unat w mod length (table_of bss) < length (table_of bss)"
    using table_of_nonempty by simp
  from concat_cons_at [OF this, of a]
  show "mset (concat (push_bucket bss a w)) = mset (a # concat bss)"
    by (simp add: push_bucket_def Let_def c)
  show "length (push_bucket bss a w) = length (table_of bss)"
    by (simp add: push_bucket_def Let_def)
qed

text \<open>The load test of the code is \<open>over_full\<close>.\<close>

lemma load_factor:
  assumes rep: "htab_rep h t bss"
  shows "k_max_load_factor < ht_size t div (ht_mask t + 1) \<longleftrightarrow> over_full bss"
proof -
  from rep obtain k where k: "k < 64" "ht_mask t = mask k" "length bss = 2 ^ k"
    by (rule htab_repE)
  have "unat (ht_size t div (ht_mask t + 1)) = length (concat bss) div length bss"
    using htab_rep_size [OF rep] k by (simp add: unat_div unat_mask_plus1)
  then show ?thesis
    by (simp add: word_less_nat_alt k_max_load_factor_def over_full_def)
qed

text \<open>Starting and helping a resize of an over_full table, in one go.\<close>

lemma start_and_help:
  assumes rep: "htab_rep h (hm_tb1 m) bss" and tb2: "hm_tb2 m = htab_zero"
    and over: "over_full bss" and room: "length (concat bss) < 2 ^ 60"
  shows "if gap_free 0 bss
     then \<exists>h' m' bss'. rbind (hm_start_resizing m) (hm_help_resizing h) = Inr (h', m')
       \<and> hm_idle h' m' bss' \<and> bss' \<noteq> [] \<and> mset (concat bss') = mset (concat bss)
       \<and> length bss' = 2 * length bss
       \<and> same_codes h h' \<and> (\<forall>a. a \<notin> set (concat bss) \<longrightarrow> h' a = h a)
     else rbind (hm_start_resizing m) (hm_help_resizing h) = Inl NullDeref"
proof -
  from rep obtain k where k: "k < 64" "ht_mask (hm_tb1 m) = mask k" "length bss = 2 ^ k"
    by (rule htab_repE)
  have "0 < length bss" "9 \<le> length (concat bss) div length bss"
    using over k(3) by (simp_all add: over_full_def)
  then have "9 * length bss \<le> length (concat bss)"
    by (simp add: less_eq_div_iff_mult_less_eq)
  then have "(2 :: nat) ^ k < 2 ^ 60"
    using room k(3) by linarith
  then have k60: "Suc k < 64"
    by (simp only: power_strict_increasing_iff)
  have sz: "2 * (mask k + 1 :: u64) = 2 ^ Suc k"
    by (simp add: mask_eq_exp_minus_1)
  from h_init_rep [OF k60, of "hm_tb1 m" h] obtain t where
    t: "h_init (hm_tb1 m) (2 ^ Suc k) = Inr t" "htab_rep h t (replicate (2 ^ Suc k) [])"
    by blast
  let ?m = "m\<lparr>hm_tb2 := hm_tb1 m, hm_tb1 := t, hm_pos := 0\<rparr>"
  have start: "hm_start_resizing m = Inr ?m"
    using t(1) tb2 unfolding hm_start_resizing_def k(2) sz by (simp add: htab_zero_def)
  have loop: "if gap_free 0 bss
     then \<exists>h' m'. hm_resize_loop h ?m 0 = Inr (h', m') \<and> moved h ?m (replicate (2 ^ Suc k) []) bss h' m'
     else hm_resize_loop h ?m 0 = Inl NullDeref"
    by (rule resize_loop_correct) (use t(2) rep k room in \<open>simp_all del: set_concat\<close>)
  show ?thesis
  proof (cases "gap_free 0 bss")
    case False
    with loop show ?thesis
      by (simp add: start hm_help_resizing_def)
  next
    case True
    with loop obtain h' m' where run: "hm_resize_loop h ?m 0 = Inr (h', m')"
      and mv: "moved h ?m (replicate (2 ^ Suc k) []) bss h' m'"
      by auto
    from mv obtain bss' where rep': "htab_rep h' (hm_tb1 m') bss'"
      "mset (concat bss') = mset (concat bss)" "length bss' = 2 ^ Suc k"
      by (auto simp: moved_def simp del: replicate_Suc power_Suc)
    have "hm_idle h' (m'\<lparr>hm_tb2 := htab_zero\<rparr>) bss'"
      using rep'(1) by (auto simp: hm_idle_def elim: htab_repE)
    then show ?thesis
      using True run mv rep' htab_rep_nonempty [OF rep'(1)] k(3)
      by (auto simp: start hm_help_resizing_def moved_def simp del: set_concat)
  qed
qed

lemma hm_insert_correct:
  assumes idle: "hm_idle h m bss" and nd: "h a = Some nd" and fresh: "a \<notin> set (concat bss)"
    and room: "length (concat bss) + 1 < 2 ^ 60"
  defines "bss1 \<equiv> push_bucket bss a (hn_hcode nd)"
  shows "if over_full bss1 \<and> \<not> gap_free 0 bss1
     then hm_insert h m a = Inl NullDeref
     else \<exists>h' m' bss'. hm_insert h m a = Inr (h', m') \<and> hm_idle h' m' bss'
       \<and> mset (concat bss') = mset (a # concat bss)
       \<and> (if over_full bss1 then length bss' = 2 * length bss1 else bss' = bss1)
       \<and> same_codes h h' \<and> (\<forall>b. b \<notin> set (a # concat bss) \<longrightarrow> h' b = h b)"
proof -
  from hm_insert_step [OF idle nd fresh room] obtain t0 nx t1 where
    t0: "(if ht_tab (hm_tb1 m) = None then h_init (hm_tb1 m) 4 else Inr (hm_tb1 m)) = Inr t0"
    and ins: "h_insert h t0 a = Inr (h(a \<mapsto> nd\<lparr>hn_next := nx\<rparr>), t1)"
    and rep: "htab_rep (h(a \<mapsto> nd\<lparr>hn_next := nx\<rparr>)) t1 bss1"
    unfolding bss1_def by blast
  let ?h = "h(a \<mapsto> nd\<lparr>hn_next := nx\<rparr>)" and ?m = "m\<lparr>hm_tb1 := t1\<rparr>"
  note ms = push_bucket_facts(1) [of bss a "hn_hcode nd", folded bss1_def]
  have tb2: "hm_tb2 m = htab_zero"
    using idle by (simp add: hm_idle_def)
  have sc: "same_codes h ?h"
    by (rule same_codes_upd [of h a, OF nd])
  have run: "hm_insert h m a =
      (if over_full bss1 then rbind (hm_start_resizing ?m) (hm_help_resizing ?h)
       else hm_help_resizing ?h ?m)"
    by (simp add: hm_insert_def t0 ins load_factor [OF rep] tb2 htab_zero_def Let_def)
  show ?thesis
  proof (cases "over_full bss1")
    case False
    then have "hm_insert h m a = Inr (?h, ?m)"
      by (simp add: run hm_help_idle tb2)
    moreover have "hm_idle ?h ?m bss1"
      using rep tb2 by (auto simp: hm_idle_def elim: htab_repE)
    ultimately show ?thesis
      using False ms sc by auto
  next
    case True
    have rm: "length (concat bss1) < 2 ^ 60"
      using room mset_Cons_facts(2) [OF ms] by simp
    have "if gap_free 0 bss1
     then \<exists>h' m' bss'. hm_insert h m a = Inr (h', m')
       \<and> hm_idle h' m' bss' \<and> bss' \<noteq> [] \<and> mset (concat bss') = mset (concat bss1)
       \<and> length bss' = 2 * length bss1
       \<and> same_codes ?h h' \<and> (\<forall>a. a \<notin> set (concat bss1) \<longrightarrow> h' a = ?h a)
     else hm_insert h m a = Inl NullDeref"
      unfolding run if_P [OF True]
      by (rule start_and_help) (use rep tb2 True rm in simp_all)
    then show ?thesis
      using True ms same_codes_trans [OF sc] mset_Cons_facts(1) [OF ms]
      by (auto simp del: set_concat split: if_splits)
  qed
qed

section \<open>The callback interface: lookup and removal by key\<close>

text \<open>
  The map is generic in the objects its nodes are embedded in; it reaches their keys only
  through the \<open>eq\<close> callback.  \<open>keyed\<close> says that objects carry keys and that
  node hash codes are the hashes of those keys; \<open>key_index\<close> is what a callback has
  to satisfy: on objects with keys, it decides key equality.
\<close>

definition keyed ::
  "('e \<Rightarrow> addr \<Rightarrow> 'k option) \<Rightarrow> ('k \<Rightarrow> u64) \<Rightarrow> 'e \<Rightarrow> hheap \<Rightarrow> addr set \<Rightarrow> bool"
where
  "keyed key_of hash e h A \<longleftrightarrow>
     (\<forall>a \<in> A. \<exists>nd k. h a = Some nd \<and> key_of e a = Some k \<and> hn_hcode nd = hash k)"

lemma keyed_subset: "keyed key_of hash e h A \<Longrightarrow> B \<subseteq> A \<Longrightarrow> keyed key_of hash e h B"
  by (auto simp: keyed_def)

lemma keyed_same_codes:
  assumes "keyed key_of hash e h A" "same_codes h h'"
  shows "keyed key_of hash e h' A"
  unfolding keyed_def
proof
  fix a assume "a \<in> A"
  with assms(1) obtain nd k where "h a = Some nd" "key_of e a = Some k" "hn_hcode nd = hash k"
    unfolding keyed_def by blast
  with same_codesD [OF assms(2)]
  show "\<exists>nd k. h' a = Some nd \<and> key_of e a = Some k \<and> hn_hcode nd = hash k"
    by fastforce
qed

lemma hm_idle_lookup1:
  assumes idle: "hm_idle h m bss" and k: "h key = Some kn"
    and eqf: "\<And>c nd. c \<in> set (concat bss) \<Longrightarrow> h c = Some nd \<Longrightarrow> hn_hcode nd = hn_hcode kn
                \<Longrightarrow> eqf key c = Inr (P c)"
    and P: "\<And>c nd. c \<in> set (concat bss) \<Longrightarrow> h c = Some nd \<Longrightarrow> P c \<Longrightarrow> hn_hcode nd = hn_hcode kn"
  shows "if \<exists>c \<in> set (concat bss). P c
     then \<exists>i xs c ys. htab_rep h (hm_tb1 m) bss \<and> i < length bss \<and> bss ! i = xs @ c # ys \<and> P c
            \<and> h_lookup h (hm_tb1 m) key eqf = Inr (Some (slot_for i xs))
     else h_lookup h (hm_tb1 m) key eqf = Inr None"
proof (cases "ht_tab (hm_tb1 m) = None")
  case True
  then show ?thesis
    using idle by (simp add: hm_idle_def)
next
  case False
  then have rep: "htab_rep h (hm_tb1 m) bss"
    using idle by (simp add: hm_idle_def)
  let ?i = "bucket_ix (hm_tb1 m) (hn_hcode kn)"
  have "if \<exists>c \<in> set (concat bss). P c
     then \<exists>xs c ys. ?i < length bss \<and> bss ! ?i = xs @ c # ys \<and> P c \<and> (\<forall>x \<in> set xs. \<not> P x)
            \<and> h_lookup h (hm_tb1 m) key eqf = Inr (Some (slot_for ?i xs))
     else h_lookup h (hm_tb1 m) key eqf = Inr None"
    by (rule h_lookup_correct [OF rep k]) (blast intro: eqf P)+
  then show ?thesis
    using rep by (auto split: if_splits simp del: set_concat)
qed

locale key_index =
  fixes eqf :: "'e \<Rightarrow> addr \<Rightarrow> addr \<Rightarrow> bool res"
    and key_of :: "'e \<Rightarrow> addr \<Rightarrow> 'k option"
    and hash :: "'k \<Rightarrow> u64"
  assumes eqf_keys: "key_of e a = Some k \<Longrightarrow> key_of e b = Some k' \<Longrightarrow> eqf e a b = Inr (k = k')"
begin

lemma find_first:
  assumes idle: "hm_idle h m bss"
    and ks: "keyed key_of hash e h (insert key (set (concat bss)))"
  shows "if \<exists>c \<in> set (concat bss). key_of e c = key_of e key
     then \<exists>i xs c ys. htab_rep h (hm_tb1 m) bss \<and> i < length bss \<and> bss ! i = xs @ c # ys
            \<and> key_of e c = key_of e key
            \<and> h_lookup h (hm_tb1 m) key (eqf e) = Inr (Some (slot_for i xs))
     else h_lookup h (hm_tb1 m) key (eqf e) = Inr None"
proof -
  from ks obtain kn k where kn: "h key = Some kn" "key_of e key = Some k" "hn_hcode kn = hash k"
    unfolding keyed_def by blast
  have ck: "\<exists>k'. key_of e c = Some k' \<and> hn_hcode nd = hash k'"
    if "c \<in> set (concat bss)" "h c = Some nd" for c nd
    using ks that unfolding keyed_def by fastforce
  show ?thesis
    by (rule hm_idle_lookup1 [OF idle kn(1)])
      (use ck kn eqf_keys [OF kn(2)] in fastforce)+
qed

lemma lookup_found:
  assumes "hm_idle h m bss" "keyed key_of hash e h (insert key (set (concat bss)))"
    and "\<exists>c \<in> set (concat bss). key_of e c = key_of e key"
  shows "\<exists>c \<in> set (concat bss). key_of e c = key_of e key
           \<and> hm_lookup h m key (eqf e) = Inr (h, m, Some c)"
proof -
  from find_first [OF assms(1,2)] assms(3) obtain i xs c ys where
    r: "htab_rep h (hm_tb1 m) bss" "i < length bss" "bss ! i = xs @ c # ys"
    "key_of e c = key_of e key" "h_lookup h (hm_tb1 m) key (eqf e) = Inr (Some (slot_for i xs))"
    by (auto simp del: set_concat)
  from slot_get_slot_for [OF r(1-3)] have "slot_get h (hm_tb1 m) (slot_for i xs) = Inr (Some c)"
    by auto
  moreover have "c \<in> set (concat bss)"
    using r(2,3) set_concat_nth [of c bss] by auto
  ultimately show ?thesis
    using r assms(1) by (auto simp: hm_lookup_def hm_help_idle hm_idle_def simp del: set_concat)
qed

lemma lookup_missing:
  assumes "hm_idle h m bss" "keyed key_of hash e h (insert key (set (concat bss)))"
    and "\<forall>c \<in> set (concat bss). key_of e c \<noteq> key_of e key"
  shows "hm_lookup h m key (eqf e) = Inr (h, m, None)"
  using find_first [OF assms(1,2)] assms(1,3)
  by (auto simp: hm_lookup_def hm_help_idle hm_idle_def simp del: set_concat split: if_splits)

lemma pop_found:
  assumes "hm_idle h m bss" "keyed key_of hash e h (insert key (set (concat bss)))"
    and "\<exists>c \<in> set (concat bss). key_of e c = key_of e key"
  shows "\<exists>h' m' bss' c. hm_pop h m key (eqf e) = Inr (h', m', Some c)
     \<and> key_of e c = key_of e key \<and> hm_idle h' m' bss' \<and> mset (concat bss) = mset (c # concat bss')
     \<and> length bss' = length bss \<and> same_codes h h' \<and> (\<forall>a. a \<notin> set (concat bss') \<longrightarrow> h' a = h a)"
proof -
  from find_first [OF assms(1,2)] assms(3) obtain i xs c ys where
    r: "htab_rep h (hm_tb1 m) bss" "i < length bss" "bss ! i = xs @ c # ys"
    "key_of e c = key_of e key" "h_lookup h (hm_tb1 m) key (eqf e) = Inr (Some (slot_for i xs))"
    by (auto simp del: set_concat)
  from htab_rep_detach [OF r(1-3)] obtain h' t' where
    d: "h_detach h (hm_tb1 m) (slot_for i xs) = Inr (h', t', c)" "htab_rep h' t' (bss[i := xs @ ys])"
    "same_codes h h'" "\<forall>a. a \<notin> set xs \<longrightarrow> h' a = h a"
    by blast
  have fr: "\<forall>a. a \<notin> set (concat (bss[i := xs @ ys])) \<longrightarrow> h' a = h a"
  proof (intro allI impI)
    fix a assume "a \<notin> set (concat (bss[i := xs @ ys]))"
    then have "a \<notin> set xs"
      using r(2) set_concat_nth [of a "bss[i := xs @ ys]"] by fastforce
    with d(4) show "h' a = h a" by blast
  qed
  have "hm_pop h m key (eqf e) = Inr (h', m\<lparr>hm_tb1 := t'\<rparr>, Some c)"
    by (simp add: hm_pop_def r(5) d(1))
  moreover have "hm_idle h' (m\<lparr>hm_tb1 := t'\<rparr>) (bss[i := xs @ ys])"
    using d(2) assms(1) by (auto simp: hm_idle_def elim: htab_repE)
  ultimately show ?thesis
    using r(4) d(3) fr concat_remove_at [OF r(2,3)] length_list_update by metis
qed

lemma pop_missing:
  assumes "hm_idle h m bss" "keyed key_of hash e h (insert key (set (concat bss)))"
    and "\<forall>c \<in> set (concat bss). key_of e c \<noteq> key_of e key"
  shows "hm_pop h m key (eqf e) = Inr (h, m, None)"
  using find_first [OF assms(1,2)] assms(1,3)
  by (auto simp: hm_pop_def hm_idle_def simp del: set_concat split: if_splits)

end

section \<open>Scanning and counting\<close>

lemma h_scan_NULL [simp]: "h_scan h htab_zero f s = Inr s"
  by (simp add: h_scan_def htab_zero_def)

lemma hm_scan_fold:
  assumes idle: "hm_idle h m bss"
    and f: "\<And>a s. a \<in> set (concat bss) \<Longrightarrow> f a s = Inr (g a s)"
  shows "rbind (h_scan h (hm_tb1 m) f s) (h_scan h (hm_tb2 m) f) = Inr (fold g (concat bss) s)"
proof (cases "ht_tab (hm_tb1 m) = None")
  case True
  then show ?thesis
    using idle by (simp add: hm_idle_def)
next
  case False
  then show ?thesis
    using idle h_scan_fold [of h "hm_tb1 m" bss f g s, OF _ f] by (simp add: hm_idle_def)
qed

lemma hm_size_correct:
  assumes "hm_idle h m bss"
  shows "hm_size h m = Inr (of_nat (length (concat bss)))"
proof -
  have "fold (\<lambda>a n. n + 1) as (k :: u32) = k + of_nat (length as)" for as :: "addr list" and k
    by (induction as arbitrary: k) simp_all
  then show ?thesis
    using hm_scan_fold [OF assms, of inc "\<lambda>a n. n + 1" 0]
    by (simp add: hm_size_def inc_def del: length_concat)
qed

end
