(* ===== verification/Codec.thy ===== *)
theory Codec
  imports Utils
begin

text \<open>
  The two wire formats of \<open>src/server_utils.cpp\<close>: the tagged response encoding
  (\<open>out_*\<close>), the request parser \<open>parse_req\<close> and the command match
  \<open>cmd_is\<close>.
\<close>

section \<open>Response encoding\<close>

definition out_nil :: "bytes \<Rightarrow> bytes" where
  "out_nil out = out @ [SER_NIL]"

definition out_str :: "bytes \<Rightarrow> bytes \<Rightarrow> bytes" where
  "out_str out val = out @ [SER_STR] @ le32 (of_nat (length val)) @ val"

definition out_int :: "bytes \<Rightarrow> u64 \<Rightarrow> bytes" where
  "out_int out val = out @ [SER_INT] @ le64 val"

text \<open>
  The length \<open>out_err\<close> writes is \<open>out.size()\<close>, the size of everything put into
  the buffer so far, not the size of the message.
\<close>

definition out_err :: "bytes \<Rightarrow> u32 \<Rightarrow> bytes \<Rightarrow> bytes" where
  "out_err out code m =
     (let out1 = out @ [SER_ERR] @ le32 code;
          msg_len = of_nat (length out1)
      in out1 @ le32 msg_len @ m)"

definition out_arr :: "bytes \<Rightarrow> u32 \<Rightarrow> bytes" where
  "out_arr out n = out @ [SER_ARR] @ le32 n"

lemmas out_defs = out_nil_def out_str_def out_int_def out_err_def out_arr_def

lemma length_out [simp]:
  "length (out_nil out) = length out + 1"
  "length (out_str out v) = length out + 5 + length v"
  "length (out_int out i) = length out + 9"
  "length (out_err out c m) = length out + 9 + length m"
  "length (out_arr out n) = length out + 5"
  by (simp_all add: out_defs Let_def)

section \<open>Request parsing\<close>

text \<open>
  The loop \<open>while (n--)\<close> of \<open>parse_req\<close>; the final test for trailing bytes is
  its exit.  Positions are \<open>size_t\<close>; with \<open>len\<close> at most \<open>k_max_msg\<close> and a
  32-bit \<open>sz\<close> their sums cannot wrap.
\<close>

fun parse_args :: "bytes \<Rightarrow> nat \<Rightarrow> nat \<Rightarrow> nat \<Rightarrow> bytes list \<Rightarrow> (int \<times> bytes list) res" where
  "parse_args data len 0 pos out = Inr (if pos \<noteq> len then -1 else 0, out)"
| "parse_args data len (Suc n) pos out =
     (if len < pos + 4 then Inr (-1, out)
      else rbind (rd32 data pos) (\<lambda>sz.
        if len < pos + 4 + unat sz then Inr (-1, out)
        else rbind (slice data (pos + 4) (unat sz)) (\<lambda>s.
          parse_args data len n (pos + 4 + unat sz) (out @ [s]))))"

definition parse_req :: "bytes \<Rightarrow> nat \<Rightarrow> bytes list \<Rightarrow> (int \<times> bytes list) res" where
  "parse_req data len out =
     (if len < 4 then Inr (-1, out)
      else rbind (rd32 data 0) (\<lambda>n.
        if k_max_msg < unat n then Inr (-1, out)
        else parse_args data len (unat n) 4 out))"

text \<open>The request format: a count, then length-prefixed strings.\<close>

definition enc_arg :: "bytes \<Rightarrow> bytes" where
  "enc_arg s = le32 (of_nat (length s)) @ s"

definition enc_req :: "bytes list \<Rightarrow> bytes" where
  "enc_req cmd = le32 (of_nat (length cmd)) @ concat (map enc_arg cmd)"

lemma length_enc_arg [simp]: "length (enc_arg s) = 4 + length s"
  by (simp add: enc_arg_def)

lemma length_enc_req:
  "length (enc_req cmd) = 4 + (\<Sum>s \<leftarrow> cmd. 4 + length s)"
  by (induction cmd) (simp_all add: enc_req_def)

subsection \<open>Safety\<close>

lemma parse_args_safe:
  "len \<le> length data \<Longrightarrow> \<exists>r cmd. parse_args data len n pos out = Inr (r, cmd) \<and> (r = 0 \<or> r = -1)"
  by (induction n arbitrary: pos out) (auto simp: rd32_in)

lemma parse_req_total:
  "len \<le> length data \<Longrightarrow> \<exists>r cmd. parse_req data len out = Inr (r, cmd) \<and> (r = 0 \<or> r = -1)"
  using parse_args_safe [of len data] by (auto simp: parse_req_def rd32_in)

subsection \<open>Exactness\<close>

lemma take_add_eq: "take (m + n) xs = take m xs @ take n (drop m xs)"
  by (simp add: take_add)

lemma rd32_eq_le32:
  assumes "pos + 4 \<le> length data" "rd32 data pos = Inr w"
  shows "take 4 (drop pos data) = le32 w"
  using assms by (auto simp: rd32_in le32_dec32)

lemma parse_args_sound:
  "len \<le> length data \<Longrightarrow> pos \<le> len \<Longrightarrow> parse_args data len n pos out = Inr (0, cmd) \<Longrightarrow>
     \<exists>cs. cmd = out @ cs \<and> length cs = n \<and> take (len - pos) (drop pos data) = concat (map enc_arg cs)"
proof (induction n arbitrary: pos out)
  case 0
  then show ?case by (auto split: if_splits)
next
  case (Suc n)
  then obtain sz where fits: "pos + 4 \<le> len" and sz: "rd32 data pos = Inr sz"
    and fits2: "pos + 4 + unat sz \<le> len"
    and rest: "parse_args data len n (pos + 4 + unat sz)
                 (out @ [take (unat sz) (drop (pos + 4) data)]) = Inr (0, cmd)"
    by (auto simp: rbind_eq_Inr rd32_in split: if_splits)
  let ?s = "take (unat sz) (drop (pos + 4) data)"
  from Suc.IH [OF Suc.prems(1) fits2 rest] obtain cs where
    cs: "cmd = (out @ [?s]) @ cs" "length cs = n"
    "take (len - (pos + 4 + unat sz)) (drop (pos + 4 + unat sz) data) = concat (map enc_arg cs)"
    by blast
  have len_s: "length ?s = unat sz"
    using fits2 Suc.prems(1) by simp
  have "take (4 + unat sz) (drop pos data)
      = take 4 (drop pos data) @ take (unat sz) (drop 4 (drop pos data))"
    by (rule take_add_eq)
  then have arg: "take (4 + unat sz) (drop pos data) = enc_arg ?s"
    using rd32_eq_le32 [OF _ sz] fits Suc.prems(1) len_s by (simp add: enc_arg_def add.commute)
  have "take (len - pos) (drop pos data)
      = take (4 + unat sz) (drop pos data)
        @ take (len - (pos + 4 + unat sz)) (drop (4 + unat sz) (drop pos data))"
    using fits2 take_add_eq [of "4 + unat sz" "len - (pos + 4 + unat sz)" "drop pos data"] by simp
  then show ?case
    using cs arg by (intro exI [of _ "?s # cs"]) (simp add: add.commute add.left_commute)
qed

lemma parse_args_complete:
  "\<lbrakk>pos + length (concat (map enc_arg cs)) = len; \<forall>s \<in> set cs. length s < 2 ^ 32;
    length pre = pos\<rbrakk> \<Longrightarrow>
   parse_args (pre @ concat (map enc_arg cs) @ post) len (length cs) pos out = Inr (0, out @ cs)"
proof (induction cs arbitrary: pos pre out)
  case Nil
  then show ?case by simp
next
  case (Cons s cs)
  have sz: "unat (of_nat (length s) :: u32) = length s"
    using Cons.prems(2) by (simp add: unat_of_nat)
  let ?d = "pre @ concat (map enc_arg (s # cs)) @ post"
  have d: "?d = pre @ le32 (of_nat (length s)) @ (s @ concat (map enc_arg cs) @ post)"
    by (simp add: enc_arg_def)
  have r: "rd32 ?d pos = Inr (of_nat (length s))"
    unfolding d by (rule rd32_le32) (rule Cons.prems(3))
  have sl: "slice ?d (pos + 4) (length s) = Inr s"
    using Cons.prems(3) by (simp add: slice_def enc_arg_def)
  have rec: "parse_args ((pre @ enc_arg s) @ concat (map enc_arg cs) @ post) len (length cs)
      (pos + 4 + length s) (out @ [s]) = Inr (0, (out @ [s]) @ cs)"
    by (rule Cons.IH) (use Cons.prems in auto)
  have "parse_args ?d len (length (s # cs)) pos out =
      parse_args ?d len (length cs) (pos + 4 + length s) (out @ [s])"
    using r sl sz Cons.prems(1) by simp
  with rec show ?case by simp
qed

lemma unat_of_nat_u32: "n < 2 ^ 32 \<Longrightarrow> unat (of_nat n :: u32) = n"
  by (simp add: unat_of_nat)

lemma parse_req_complete:
  assumes "length cmd \<le> k_max_msg" and "\<forall>s \<in> set cmd. length s < 2 ^ 32"
  shows "parse_req (enc_req cmd @ post) (length (enc_req cmd)) [] = Inr (0, cmd)"
proof -
  have n: "unat (of_nat (length cmd) :: u32) = length cmd"
    using assms(1) by (intro unat_of_nat_u32) (simp add: k_max_msg_def)
  have "rd32 (enc_req cmd @ post) 0 = Inr (of_nat (length cmd))"
    using rd32_le32 [of "[]" 0] by (simp add: enc_req_def)
  moreover have "parse_args (le32 (of_nat (length cmd)) @ concat (map enc_arg cmd) @ post)
      (length (enc_req cmd)) (length cmd) 4 [] = Inr (0, [] @ cmd)"
    by (rule parse_args_complete) (use assms in \<open>auto simp: enc_req_def\<close>)
  ultimately show ?thesis
    using assms(1) by (simp add: parse_req_def n) (simp add: enc_req_def)
qed

lemma parse_req_sound:
  assumes "len \<le> length data" and "parse_req data len [] = Inr (0, cmd)"
  shows "take len data = enc_req cmd \<and> length cmd \<le> k_max_msg"
proof -
  from assms(2) have len4: "4 \<le> len"
    by (auto simp: parse_req_def split: if_splits)
  from assms have r: "rd32 data 0 = Inr (dec32 (take 4 data))"
    using len4 by (simp add: rd32_in)
  let ?n = "dec32 (take 4 data)"
  have n: "unat ?n \<le> k_max_msg" "parse_args data len (unat ?n) 4 [] = Inr (0, cmd)"
    using assms(2) len4 r by (auto simp: parse_req_def split: if_splits)
  from parse_args_sound [OF assms(1) len4 n(2)] obtain cs where
    cs: "cmd = cs" "length cs = unat ?n" "take (len - 4) (drop 4 data) = concat (map enc_arg cs)"
    by auto
  have "take len data = take 4 data @ take (len - 4) (drop 4 data)"
    using len4 take_add_eq [of 4 "len - 4" data] by simp
  moreover have "take 4 data = le32 (of_nat (length cs))"
    using len4 assms(1) cs(2) le32_dec32 [of "take 4 data"] by simp
  ultimately have "take len data = enc_req cs"
    using cs(3) by (simp add: enc_req_def)
  then show ?thesis
    using cs(1,2) n(1) by simp
qed

text \<open>The parser looks at the first \<open>len\<close> bytes only.\<close>

lemma parse_args_take:
  "len \<le> length data \<Longrightarrow> parse_args (take len data) len n pos out = parse_args data len n pos out"
  by (induction n arbitrary: pos out)
    (auto simp: rd32_in slice_def drop_take min_absorb1 intro!: arg_cong2 [of _ _ _ _ rbind])

lemma parse_req_take:
  "len \<le> length data \<Longrightarrow> parse_req (take len data) len out = parse_req data len out"
  by (simp add: parse_req_def rd32_in parse_args_take min_absorb1)

lemma enc_arg_length_bound:
  "s \<in> set cmd \<Longrightarrow> 8 + length s \<le> length (enc_req cmd)"
proof -
  assume "s \<in> set cmd"
  then have "4 + length s \<le> (\<Sum>s \<leftarrow> cmd. 4 + length s)"
    by (induction cmd) auto
  then show ?thesis by (simp add: length_enc_req)
qed

lemma parse_req_iff:
  assumes "len \<le> length data" and "len \<le> k_max_msg"
  shows "parse_req data len [] = Inr (0, cmd)
     \<longleftrightarrow> take len data = enc_req cmd \<and> length cmd \<le> k_max_msg"
proof
  assume "parse_req data len [] = Inr (0, cmd)"
  then show "take len data = enc_req cmd \<and> length cmd \<le> k_max_msg"
    by (rule parse_req_sound [OF assms(1)])
next
  assume e: "take len data = enc_req cmd \<and> length cmd \<le> k_max_msg"
  then have len: "len = length (enc_req cmd)"
    using assms(1) by (metis length_take min.absorb2)
  have "\<forall>s \<in> set cmd. length s < 2 ^ 32"
    using enc_arg_length_bound assms(2) len by (fastforce simp: k_max_msg_def)
  then have "parse_req (enc_req cmd @ drop len data) (length (enc_req cmd)) [] = Inr (0, cmd)"
    using e by (intro parse_req_complete) simp_all
  then show "parse_req data len [] = Inr (0, cmd)"
    using e len by (metis append_take_drop_id)
qed

text \<open>
  C20.  The parser, on any bytes: as long as the payload lies in the buffer, \<open>parse_req\<close>
  reads nothing outside it and returns 0 or \<open>-1\<close>; and for a payload within the message
  limit it returns 0 and the strings \<open>cmd\<close> if and only if the payload is
  \<open>enc_req cmd\<close> with at most \<open>k_max_msg\<close> strings.  So decoding inverts encoding, and no
  two argument lists share an encoding.
\<close>

theorem parse_req_exact:
  assumes "len \<le> length data"
  shows "(\<exists>r cmd. parse_req data len [] = Inr (r, cmd) \<and> (r = 0 \<or> r = -1))
     \<and> (len \<le> k_max_msg \<longrightarrow>
          (parse_req data len [] = Inr (0, cmd) \<longleftrightarrow> take len data = enc_req cmd \<and> length cmd \<le> k_max_msg))"
  using parse_req_total [OF assms] parse_req_iff [OF assms] by blast

theorem parse_req_exact_witness:
  "(9 :: nat) \<le> length [1, 0, 0, 0, 1, 0, 0, 0, 107, 99 :: byte]
   \<and> parse_req [1, 0, 0, 0, 1, 0, 0, 0, 107, 99] 9 [] = Inr (0, [[107]])"
proof -
  have le: "(9 :: nat) \<le> length [1, 0, 0, 0, 1, 0, 0, 0, 107, 99 :: byte]" "9 \<le> k_max_msg"
    by (simp_all add: k_max_msg_def)
  have "take 9 [1, 0, 0, 0, 1, 0, 0, 0, 107, 99 :: byte] = enc_req [[107]]"
    by (simp add: enc_req_def enc_arg_def le32_def)
  then show ?thesis
    using le parse_req_exact [OF le(1), of "[[107]]"] by (simp add: k_max_msg_def)
qed

section \<open>Command names\<close>

text \<open>
  \<open>cmd_is\<close> compares with \<open>strcasecmp\<close> on C strings: the word counts only up to
  its first NUL byte, and ASCII letters compare without case.
\<close>

definition to_lower :: "byte \<Rightarrow> byte" where
  "to_lower b = (if 65 \<le> b \<and> b \<le> 90 then b + 32 else b)"

definition c_str :: "bytes \<Rightarrow> bytes" where
  "c_str s = takeWhile (\<lambda>b. b \<noteq> 0) s"

definition cmd_is :: "bytes \<Rightarrow> bytes \<Rightarrow> bool" where
  "cmd_is word cmd \<longleftrightarrow> map to_lower (c_str word) = map to_lower (c_str cmd)"

definition ascii :: "string \<Rightarrow> bytes" where
  "ascii s = map (\<lambda>c. of_nat (of_char c)) s"

end
