(* ===== verification/Keyspace.thy ===== *)
theory Keyspace
  imports HMap Codec
begin

text \<open>
  The key space of the server: \<open>Entry\<close>, \<open>g_data\<close>, \<open>entry_eq\<close>,
  \<open>cb_scan\<close>, the command handlers \<open>do_get\<close>, \<open>do_set\<close>, \<open>do_del\<close>,
  \<open>do_keys\<close> and the dispatcher \<open>do_request\<close> of \<open>src/server_utils.cpp\<close>.
  The second half shows that they implement a finite map, and exactly when they crash.
\<close>

section \<open>State\<close>

text \<open>
  An \<open>Entry\<close> embeds an \<open>HNode\<close>; both halves live at one address, in
  \<open>db_entries\<close> and \<open>db_nodes\<close>.  \<open>db_next\<close> is the next address the
  allocator (heap or stack) hands out.  \<open>db_map\<close> is \<open>g_data.db\<close>.
\<close>

record entry =
  e_key :: bytes
  e_val :: bytes

record db =
  db_nodes :: hheap
  db_entries :: "addr \<rightharpoonup> entry"
  db_map :: hmap
  db_next :: addr

text \<open>\<open>g_data\<close> has static storage, so it starts zeroed.\<close>

definition db_init :: db where
  "db_init = \<lparr>db_nodes = Map.empty, db_entries = Map.empty, db_map = hmap_zero, db_next = 0\<rparr>"

definition new_entry :: "bytes \<Rightarrow> bytes \<Rightarrow> u64 \<Rightarrow> db \<Rightarrow> addr \<times> db" where
  "new_entry k v hc s = (db_next s,
     s\<lparr>db_nodes := (db_nodes s)(db_next s \<mapsto> \<lparr>hn_next = None, hn_hcode = hc\<rparr>),
       db_entries := (db_entries s)(db_next s \<mapsto> \<lparr>e_key = k, e_val = v\<rparr>),
       db_next := Suc (db_next s)\<rparr>)"

definition free_entry :: "addr \<Rightarrow> db \<Rightarrow> db" where
  "free_entry a s = s\<lparr>db_nodes := (db_nodes s)(a := None), db_entries := (db_entries s)(a := None)\<rparr>"

text \<open>The \<open>Entry key\<close> a handler keeps on its stack for the lookup, and its end of life.\<close>

definition stack_key :: "bytes \<Rightarrow> db \<Rightarrow> addr \<times> db" where
  "stack_key k s = new_entry k [] (str_hash k) s"

definition entry_eq :: "(addr \<rightharpoonup> entry) \<Rightarrow> addr \<Rightarrow> addr \<Rightarrow> bool res" where
  "entry_eq ents lhs rhs =
     rbind (load ents lhs) (\<lambda>le. rbind (load ents rhs) (\<lambda>re. Inr (e_key le = e_key re)))"

definition cb_scan :: "(addr \<rightharpoonup> entry) \<Rightarrow> addr \<Rightarrow> bytes \<Rightarrow> bytes res" where
  "cb_scan ents node out = rbind (load ents node) (\<lambda>e. Inr (out_str out (e_key e)))"

definition arg :: "bytes list \<Rightarrow> nat \<Rightarrow> bytes res" where
  "arg cmd i = (if i < length cmd then Inr (cmd ! i) else Inl OutOfBounds)"

section \<open>Handlers\<close>

definition do_keys :: "db \<Rightarrow> bytes list \<Rightarrow> bytes \<Rightarrow> (db \<times> bytes) res" where
  "do_keys s cmd out =
     rbind (hm_size (db_nodes s) (db_map s)) (\<lambda>n.
     rbind (h_scan (db_nodes s) (hm_tb1 (db_map s)) (cb_scan (db_entries s)) (out_arr out n)) (\<lambda>out1.
     rbind (h_scan (db_nodes s) (hm_tb2 (db_map s)) (cb_scan (db_entries s)) out1) (\<lambda>out2.
       Inr (s, out2))))"

definition do_get :: "db \<Rightarrow> bytes list \<Rightarrow> bytes \<Rightarrow> (db \<times> bytes) res" where
  "do_get s cmd out =
     rbind (arg cmd 1) (\<lambda>k.
     let (key, s1) = stack_key k s in
     rbind (hm_lookup (db_nodes s1) (db_map s1) key (entry_eq (db_entries s1))) (\<lambda>(h, m, node).
     let s2 = s1\<lparr>db_nodes := h, db_map := m\<rparr> in
     case node of
       None \<Rightarrow> Inr (free_entry key s2, out_nil out)
     | Some n \<Rightarrow>
         rbind (load (db_entries s2) n) (\<lambda>e.
         rbind (assert_that (length (e_val e) < k_max_msg)) (\<lambda>_.
           Inr (free_entry key s2, out_str out (e_val e))))))"

definition do_set :: "db \<Rightarrow> bytes list \<Rightarrow> bytes \<Rightarrow> (db \<times> bytes) res" where
  "do_set s cmd out =
     rbind (arg cmd 1) (\<lambda>k.
     let (key, s1) = stack_key k s in
     rbind (hm_lookup (db_nodes s1) (db_map s1) key (entry_eq (db_entries s1))) (\<lambda>(h, m, query).
     let s2 = s1\<lparr>db_nodes := h, db_map := m\<rparr> in
     rbind (case query of
         Some q \<Rightarrow>
           rbind (load (db_entries s2) q) (\<lambda>e.
           rbind (arg cmd 2) (\<lambda>v.
             Inr (s2\<lparr>db_entries := (db_entries s2)(q \<mapsto> e\<lparr>e_val := v\<rparr>)\<rparr>)))
       | None \<Rightarrow>
           rbind (arg cmd 2) (\<lambda>v.
           let (a, s3) = new_entry k v (str_hash k) s2 in
           rbind (hm_insert (db_nodes s3) (db_map s3) a) (\<lambda>(h', m').
             Inr (s3\<lparr>db_nodes := h', db_map := m'\<rparr>)))) (\<lambda>s4.
     Inr (free_entry key s4, out_nil out))))"

definition do_del :: "db \<Rightarrow> bytes list \<Rightarrow> bytes \<Rightarrow> (db \<times> bytes) res" where
  "do_del s cmd out =
     rbind (arg cmd 1) (\<lambda>k.
     let (key, s1) = stack_key k s in
     rbind (hm_pop (db_nodes s1) (db_map s1) key (entry_eq (db_entries s1))) (\<lambda>(h, m, del_node).
     let s2 = s1\<lparr>db_nodes := h, db_map := m\<rparr>;
         s3 = (case del_node of None \<Rightarrow> s2 | Some d \<Rightarrow> free_entry d s2)
     in Inr (free_entry key s3, out_int out (if del_node \<noteq> None then 1 else 0))))"

definition do_request :: "db \<Rightarrow> bytes list \<Rightarrow> bytes \<Rightarrow> (db \<times> bytes) res" where
  "do_request s cmd out =
     (if length cmd = 1 \<and> cmd_is (cmd ! 0) (ascii ''keys'') then do_keys s cmd out
      else if length cmd = 2 \<and> cmd_is (cmd ! 0) (ascii ''get'') then do_get s cmd out
      else if length cmd = 3 \<and> cmd_is (cmd ! 0) (ascii ''set'') then do_set s cmd out
      else if length cmd = 2 \<and> cmd_is (cmd ! 0) (ascii ''del'') then do_del s cmd out
      else Inr (s, out_err out ERR_UNKNOWN (ascii ''Unknown cmd'')))"

section \<open>The \<open>entry_eq\<close> callback satisfies the map's interface\<close>

definition ekey :: "(addr \<rightharpoonup> entry) \<Rightarrow> addr \<Rightarrow> bytes option" where
  "ekey ents a = map_option e_key (ents a)"

interpretation ei: key_index entry_eq ekey str_hash
  by unfold_locales (auto simp: entry_eq_def ekey_def)

section \<open>The invariant of the key space\<close>

text \<open>
  \<open>db_ok s bss\<close>: the map is between operations with buckets \<open>bss\<close>; the allocated
  nodes and entries are exactly those in the table (no leak, no dangling pointer); hash
  codes belong to the keys; no key occurs twice.
\<close>

definition db_ok :: "db \<Rightarrow> addr list list \<Rightarrow> bool" where
  "db_ok s bss \<longleftrightarrow>
     hm_idle (db_nodes s) (db_map s) bss
     \<and> dom (db_nodes s) = set (concat bss) \<and> dom (db_entries s) = set (concat bss)
     \<and> keyed ekey str_hash (db_entries s) (db_nodes s) (set (concat bss))
     \<and> inj_on (ekey (db_entries s)) (set (concat bss))
     \<and> (\<forall>a \<in> set (concat bss). a < db_next s)"

text \<open>The finite map the entries stand for.\<close>

definition view :: "(addr \<rightharpoonup> entry) \<Rightarrow> (bytes \<rightharpoonup> bytes) \<Rightarrow> bool" where
  "view ents M \<longleftrightarrow>
     (\<forall>k v. M k = Some v \<longleftrightarrow> (\<exists>a e. ents a = Some e \<and> e_key e = k \<and> e_val e = v))"

definition db_rep :: "db \<Rightarrow> (bytes \<rightharpoonup> bytes) \<Rightarrow> bool" where
  "db_rep s M \<longleftrightarrow> (\<exists>bss. db_ok s bss \<and> view (db_entries s) M)"

lemma db_ok_init: "db_ok db_init []"
  by (simp add: db_ok_def db_init_def hm_idle_zero keyed_def)

lemma view_init: "view (db_entries db_init) Map.empty"
  by (simp add: view_def db_init_def)

lemma db_ok_fresh:
  assumes "db_ok s bss"
  shows "db_next s \<notin> set (concat bss)" "db_nodes s (db_next s) = None" "db_entries s (db_next s) = None"
  using assms unfolding db_ok_def by (blast, blast+)

section \<open>The stack key\<close>

definition node_of :: "u64 \<Rightarrow> hnode" where
  "node_of hc = \<lparr>hn_next = None, hn_hcode = hc\<rparr>"

definition key_nodes :: "bytes \<Rightarrow> db \<Rightarrow> hheap" where
  "key_nodes k s = (db_nodes s)(db_next s \<mapsto> node_of (str_hash k))"

definition key_entries :: "bytes \<Rightarrow> db \<Rightarrow> (addr \<rightharpoonup> entry)" where
  "key_entries k s = (db_entries s)(db_next s \<mapsto> \<lparr>e_key = k, e_val = []\<rparr>)"

abbreviation bump :: "db \<Rightarrow> db" where
  "bump s \<equiv> s\<lparr>db_next := Suc (db_next s)\<rparr>"

lemma stack_key_eq:
  "stack_key k s = (db_next s,
     s\<lparr>db_nodes := key_nodes k s, db_entries := key_entries k s, db_next := Suc (db_next s)\<rparr>)"
  by (simp add: stack_key_def new_entry_def key_nodes_def key_entries_def node_of_def)

lemma ekey_key_entries [simp]: "ekey (key_entries k s) (db_next s) = Some k"
  by (simp add: ekey_def key_entries_def)

lemma key_entries_other: "a \<noteq> db_next s \<Longrightarrow> key_entries k s a = db_entries s a"
  by (simp add: key_entries_def)

lemma key_facts:
  assumes ok: "db_ok s bss"
  shows "hm_idle (key_nodes k s) (db_map s) bss"
    and "keyed ekey str_hash (key_entries k s) (key_nodes k s) (insert (db_next s) (set (concat bss)))"
    and "c \<in> set (concat bss) \<Longrightarrow> key_entries k s c = db_entries s c"
proof -
  note fresh = db_ok_fresh [OF ok]
  show "hm_idle (key_nodes k s) (db_map s) bss"
    by (rule hm_idle_frame [of "db_nodes s"])
      (use ok fresh(1) in \<open>auto simp: db_ok_def key_nodes_def simp del: set_concat\<close>)
  show eq: "c \<in> set (concat bss) \<Longrightarrow> key_entries k s c = db_entries s c" for c
    using fresh(1) by (metis key_entries_other)
  have "\<exists>nd k'. key_nodes k s a = Some nd \<and> ekey (key_entries k s) a = Some k' \<and> hn_hcode nd = str_hash k'"
    if "a \<in> set (concat bss)" for a
    using that ok eq [OF that] fresh(1)
    by (auto simp: db_ok_def keyed_def key_nodes_def ekey_def simp del: set_concat)
  moreover have "key_nodes k s (db_next s) = Some (node_of (str_hash k))"
    by (simp add: key_nodes_def)
  ultimately show "keyed ekey str_hash (key_entries k s) (key_nodes k s)
      (insert (db_next s) (set (concat bss)))"
    unfolding keyed_def by (auto simp: node_of_def simp del: set_concat)
qed

lemma free_stack_key:
  assumes "db_ok s bss"
  shows "free_entry (db_next s) (s\<lparr>db_entries := key_entries k s, db_next := n,
           db_nodes := key_nodes k s\<rparr>) = s\<lparr>db_next := n\<rparr>"
proof -
  have "(db_nodes s)(db_next s := None) = db_nodes s" "(db_entries s)(db_next s := None) = db_entries s"
    using db_ok_fresh(2,3) [OF assms] by (auto simp: fun_eq_iff)
  then show ?thesis
    by (simp add: free_entry_def key_nodes_def key_entries_def)
qed

lemma db_ok_bump: "db_ok s bss \<Longrightarrow> db_ok (bump s) bss"
  by (auto simp: db_ok_def intro: less_SucI)

text \<open>The entries of the table, by key.\<close>

lemma db_ok_entry:
  assumes "db_ok s bss" "a \<in> set (concat bss)"
  shows "\<exists>e. db_entries s a = Some e"
  using assms unfolding db_ok_def by blast

lemma view_entry:
  assumes ok: "db_ok s bss" and vw: "view (db_entries s) M" and M: "M k = Some v"
  shows "\<exists>a e. a \<in> set (concat bss) \<and> db_entries s a = Some e \<and> e_key e = k \<and> e_val e = v"
proof -
  from vw M obtain a e where "db_entries s a = Some e" "e_key e = k" "e_val e = v"
    by (auto simp: view_def)
  moreover from this have "a \<in> set (concat bss)"
    using ok unfolding db_ok_def by blast
  ultimately show ?thesis by blast
qed

lemma view_absent:
  assumes vw: "view ents M" and M: "M k = None" and "ents a = Some e"
  shows "e_key e \<noteq> k"
  using assms unfolding view_def by (metis option.distinct(1))

lemma view_val:
  assumes vw: "view ents M" and e: "ents a = Some e"
  shows "M (e_key e) = Some (e_val e)"
  using assms unfolding view_def by blast

lemma entry_unique:
  assumes "db_ok s bss" "db_entries s a = Some e" "db_entries s b = Some f" "e_key e = e_key f"
  shows "a = b"
proof -
  have "a \<in> set (concat bss)" "b \<in> set (concat bss)"
    using assms(1-3) unfolding db_ok_def by blast+
  moreover have "ekey (db_entries s) a = ekey (db_entries s) b"
    using assms(2-4) by (simp add: ekey_def)
  ultimately show ?thesis
    using assms(1) unfolding db_ok_def by (metis inj_onD)
qed

text \<open>What \<open>hm_lookup\<close> and \<open>hm_pop\<close> find for a stack key.\<close>

lemma key_present:
  assumes ok: "db_ok s bss" and vw: "view (db_entries s) M"
  shows "(\<exists>c \<in> set (concat bss). ekey (key_entries k s) c = ekey (key_entries k s) (db_next s))
           \<longleftrightarrow> M k \<noteq> None"
proof
  assume "\<exists>c \<in> set (concat bss). ekey (key_entries k s) c = ekey (key_entries k s) (db_next s)"
  then obtain c where c: "c \<in> set (concat bss)" "ekey (key_entries k s) c = Some k"
    by auto
  then obtain e where "db_entries s c = Some e" "e_key e = k"
    using key_facts(3) [OF ok c(1)] by (auto simp: ekey_def)
  then show "M k \<noteq> None"
    using view_val [OF vw] by auto
next
  assume "M k \<noteq> None"
  then obtain v where "M k = Some v" by blast
  from view_entry [OF ok vw this] obtain a e where
    a: "a \<in> set (concat bss)" "db_entries s a = Some e" "e_key e = k"
    by blast
  then have "ekey (key_entries k s) a = Some k"
    using key_facts(3) [OF ok a(1)] by (simp add: ekey_def)
  with a(1) show "\<exists>c \<in> set (concat bss). ekey (key_entries k s) c = ekey (key_entries k s) (db_next s)"
    by (intro bexI [of _ a]) simp_all
qed

lemma key_lookup_none:
  assumes "db_ok s bss" "view (db_entries s) M" "M k = None"
  shows "hm_lookup (key_nodes k s) (db_map s) (db_next s) (entry_eq (key_entries k s))
           = Inr (key_nodes k s, db_map s, None)"
  by (rule ei.lookup_missing [OF key_facts(1,2) [OF assms(1)]])
    (use key_present [OF assms(1,2), of k] assms(3) in blast)

lemma key_lookup_some:
  assumes ok: "db_ok s bss" and vw: "view (db_entries s) M" and M: "M k = Some v"
  shows "\<exists>c e. c \<in> set (concat bss) \<and> db_entries s c = Some e \<and> e_key e = k \<and> e_val e = v
     \<and> hm_lookup (key_nodes k s) (db_map s) (db_next s) (entry_eq (key_entries k s))
         = Inr (key_nodes k s, db_map s, Some c)"
proof -
  have "\<exists>c \<in> set (concat bss). ekey (key_entries k s) c = ekey (key_entries k s) (db_next s)"
    using key_present [OF ok vw] M by blast
  from ei.lookup_found [OF key_facts(1,2) [OF ok] this] obtain c where
    c: "c \<in> set (concat bss)" "ekey (key_entries k s) c = Some k"
    "hm_lookup (key_nodes k s) (db_map s) (db_next s) (entry_eq (key_entries k s))
       = Inr (key_nodes k s, db_map s, Some c)"
    by auto
  from c(2) obtain e where e: "db_entries s c = Some e" "e_key e = k"
    using key_facts(3) [OF ok c(1)] by (auto simp: ekey_def)
  then have "e_val e = v"
    using view_val [OF vw e(1)] M by simp
  with c e show ?thesis by blast
qed

section \<open>GET\<close>

definition enc_lookup :: "bytes \<Rightarrow> bytes option \<Rightarrow> bytes" where
  "enc_lookup out r = (case r of None \<Rightarrow> out_nil out | Some v \<Rightarrow> out_str out v)"

definition short_vals :: "(bytes \<rightharpoonup> bytes) \<Rightarrow> bool" where
  "short_vals M \<longleftrightarrow> (\<forall>k v. M k = Some v \<longrightarrow> length v < k_max_msg)"

lemma do_get_ok:
  assumes ok: "db_ok s bss" and vw: "view (db_entries s) M" and sv: "short_vals M"
  shows "do_get s [c, k] out = Inr (bump s, enc_lookup out (M k))"
proof (cases "M k")
  case None
  then show ?thesis
    by (simp add: do_get_def arg_def stack_key_eq key_lookup_none [OF ok vw None]
        free_stack_key [OF ok] enc_lookup_def)
next
  case (Some v)
  from key_lookup_some [OF ok vw Some] obtain n e where
    n: "n \<in> set (concat bss)" "db_entries s n = Some e" "e_val e = v"
    "hm_lookup (key_nodes k s) (db_map s) (db_next s) (entry_eq (key_entries k s))
       = Inr (key_nodes k s, db_map s, Some n)"
    by blast
  have "length v < k_max_msg"
    using sv Some by (simp add: short_vals_def)
  then show ?thesis
    using n Some key_facts(3) [OF ok n(1)]
    by (simp add: do_get_def arg_def stack_key_eq free_stack_key [OF ok] enc_lookup_def)
qed

section \<open>SET\<close>

lemma db_ok_update:
  assumes ok: "db_ok s bss" and e: "db_entries s q = Some e"
  shows "db_ok (s\<lparr>db_entries := (db_entries s)(q \<mapsto> e\<lparr>e_val := v\<rparr>)\<rparr>) bss"
proof -
  have "ekey ((db_entries s)(q \<mapsto> e\<lparr>e_val := v\<rparr>)) = ekey (db_entries s)"
    using e by (auto simp: ekey_def fun_eq_iff)
  moreover have "dom ((db_entries s)(q \<mapsto> e\<lparr>e_val := v\<rparr>)) = dom (db_entries s)"
    using e by auto
  ultimately show ?thesis
    using ok by (simp add: db_ok_def keyed_def)
qed

lemma view_update:
  assumes vw: "view ents M" and e: "ents q = Some e"
    and uniq: "\<And>a f. ents a = Some f \<Longrightarrow> e_key f = e_key e \<Longrightarrow> a = q"
  shows "view (ents(q \<mapsto> e\<lparr>e_val := v\<rparr>)) (M(e_key e \<mapsto> v))"
  unfolding view_def
proof (intro allI)
  fix k w
  show "(M(e_key e \<mapsto> v)) k = Some w \<longleftrightarrow>
      (\<exists>a f. (ents(q \<mapsto> e\<lparr>e_val := v\<rparr>)) a = Some f \<and> e_key f = k \<and> e_val f = w)"
  proof (cases "k = e_key e")
    case True
    have "a = q" if "(ents(q \<mapsto> e\<lparr>e_val := v\<rparr>)) a = Some f" "e_key f = e_key e" for a f
      using that uniq by (metis fun_upd_other)
    then have "(\<exists>a f. (ents(q \<mapsto> e\<lparr>e_val := v\<rparr>)) a = Some f \<and> e_key f = e_key e \<and> e_val f = w)
        \<longleftrightarrow> w = v"
      by (metis entry.select_convs(1,2) entry.surjective entry.update_convs(2) fun_upd_same option.inject)
    then show ?thesis unfolding True by auto
  next
    case False
    then have "M k = Some w \<longleftrightarrow> (\<exists>a f. ents a = Some f \<and> e_key f = k \<and> e_val f = w)"
      using vw by (simp add: view_def)
    moreover have "a \<noteq> q" if "ents a = Some f" "e_key f = k" for a f
      using that e False by auto
    ultimately show ?thesis using False by auto
  qed
qed

lemma view_new:
  assumes vw: "view ents M" and "M k = None" and "ents a = None"
  shows "view (ents(a \<mapsto> \<lparr>e_key = k, e_val = v\<rparr>)) (M(k \<mapsto> v))"
  unfolding view_def
proof (intro allI)
  fix k' w
  have nk: "e_key f \<noteq> k" if "ents b = Some f" for b f
    using view_absent [OF vw assms(2) that] .
  have old: "M k' = Some w \<longleftrightarrow> (\<exists>b f. ents b = Some f \<and> e_key f = k' \<and> e_val f = w)"
    using vw by (simp add: view_def)
  show "(M(k \<mapsto> v)) k' = Some w \<longleftrightarrow> (\<exists>b f. (ents(a \<mapsto> \<lparr>e_key = k, e_val = v\<rparr>)) b = Some f
      \<and> e_key f = k' \<and> e_val f = w)"
  proof (cases "k' = k")
    case True
    then show ?thesis using nk by auto
  next
    case False
    then show ?thesis
      using old assms(3) by (auto split: if_splits) (metis option.distinct(1))
  qed
qed

text \<open>
  Storing a new key: \<open>hm_insert\<close> runs with the stack key still in place, at the next
  address.  \<open>set_crashes\<close> is the condition under which the resize it triggers
  dereferences NULL.
\<close>

definition set_crashes :: "db \<Rightarrow> addr list list \<Rightarrow> bytes \<Rightarrow> bool" where
  "set_crashes s bss k \<longleftrightarrow>
     (let b = push_bucket bss (Suc (db_next s)) (str_hash k) in over_full b \<and> \<not> gap_free 0 b)"

definition set_nodes :: "bytes \<Rightarrow> db \<Rightarrow> hheap" where
  "set_nodes k s = (key_nodes k s)(Suc (db_next s) \<mapsto> node_of (str_hash k))"

lemma dom_set_nodes:
  "db_ok s bss \<Longrightarrow> dom (set_nodes k s) = insert (db_next s) (insert (Suc (db_next s)) (set (concat bss)))"
  unfolding db_ok_def set_nodes_def key_nodes_def by (simp add: insert_commute del: set_concat)

lemma Suc_next_fresh: "db_ok s bss \<Longrightarrow> Suc (db_next s) \<notin> set (concat bss)"
  unfolding db_ok_def by (metis Suc_lessD less_irrefl)

lemma set_nodes_idle:
  assumes "db_ok s bss"
  shows "hm_idle (set_nodes k s) (db_map s) bss"
  by (rule hm_idle_frame [OF key_facts(1) [OF assms, of k]])
    (use Suc_next_fresh [OF assms] in \<open>auto simp: set_nodes_def simp del: set_concat\<close>)

lemma db_ok_insert:
  assumes ok: "db_ok s bss" and vw: "view (db_entries s) M" and new: "M k = None"
    and idle: "hm_idle h' m' bss'" and ms: "mset (concat bss') = mset (Suc (db_next s) # concat bss)"
    and sc: "same_codes (set_nodes k s) h'"
  shows "db_ok \<lparr>db_nodes = h'(db_next s := None),
                db_entries = (db_entries s)(Suc (db_next s) \<mapsto> \<lparr>e_key = k, e_val = v\<rparr>),
                db_map = m', db_next = Suc (Suc (db_next s))\<rparr> bss'"
proof -
  let ?n = "db_next s" and ?a = "Suc (db_next s)" and ?A = "set (concat bss)"
  let ?E = "(db_entries s)(?a \<mapsto> \<lparr>e_key = k, e_val = v\<rparr>)"
  note A' = mset_Cons_facts(1) [OF ms]
  note fresh = db_ok_fresh(1) [OF ok] Suc_next_fresh [OF ok]
  have n: "?n \<notin> set (concat bss')"
    using fresh unfolding A' by simp
  have 1: "hm_idle (h'(?n := None)) m' bss'"
    by (rule hm_idle_frame [OF idle]) (use n in \<open>auto simp del: set_concat\<close>)
  have "dom h' = insert ?n (insert ?a ?A)"
    using same_codes_dom [OF sc] dom_set_nodes [OF ok, of k] by simp
  then have 2: "dom (h'(?n := None)) = set (concat bss')"
    using fresh unfolding A' by (auto simp del: set_concat)
  have 3: "dom ?E = set (concat bss')"
    using ok unfolding A' db_ok_def by (simp del: set_concat)
  have E: "ekey ?E c = ekey (db_entries s) c" if "c \<in> ?A" for c
    using that fresh by (auto simp: ekey_def simp del: set_concat)
  have Ea: "ekey ?E ?a = Some k"
    by (simp add: ekey_def)
  have 4: "keyed ekey str_hash ?E (h'(?n := None)) (set (concat bss'))"
    unfolding keyed_def
  proof
    fix c assume c: "c \<in> set (concat bss')"
    have "\<exists>nd k'. set_nodes k s c = Some nd \<and> ekey ?E c = Some k' \<and> hn_hcode nd = str_hash k'"
    proof (cases "c = ?a")
      case True
      then show ?thesis using Ea by (simp add: set_nodes_def node_of_def)
    next
      case False
      then have "c \<in> ?A" using c unfolding A' by simp
      then show ?thesis
        using ok E False fresh unfolding db_ok_def keyed_def set_nodes_def key_nodes_def
        by (metis fun_upd_other)
    qed
    with same_codesD [OF sc] c n
    show "\<exists>nd k'. (h'(?n := None)) c = Some nd \<and> ekey ?E c = Some k' \<and> hn_hcode nd = str_hash k'"
      by (metis fun_upd_other)
  qed
  have nk: "ekey (db_entries s) c \<noteq> Some k" for c
    using view_absent [OF vw new] by (auto simp: ekey_def)
  have 5: "inj_on (ekey ?E) (set (concat bss'))"
    unfolding A' inj_on_insert
  proof
    show "inj_on (ekey ?E) ?A"
      using ok E unfolding db_ok_def by (metis (no_types, lifting) inj_on_cong)
    have "ekey ?E c \<noteq> Some k" if "c \<in> ?A" for c
      unfolding E [OF that] by (rule nk)
    then show "ekey ?E ?a \<notin> ekey ?E ` (?A - {?a})"
      unfolding Ea by (force simp del: set_concat)
  qed
  have 6: "\<forall>c \<in> set (concat bss'). c < Suc ?a"
    using ok unfolding A' db_ok_def by (auto simp del: set_concat intro: less_SucI)
  show ?thesis
    using 1 2 3 4 5 6 by (simp add: db_ok_def del: set_concat)
qed

lemma do_set_update:
  assumes ok: "db_ok s bss" and vw: "view (db_entries s) M" and M: "M k = Some w"
  shows "\<exists>s'. do_set s [c, k, v] out = Inr (s', out_nil out) \<and> db_ok s' bss
           \<and> view (db_entries s') (M(k \<mapsto> v))"
proof -
  from key_lookup_some [OF ok vw M] obtain q e where
    q: "q \<in> set (concat bss)" "db_entries s q = Some e" "e_key e = k"
    "hm_lookup (key_nodes k s) (db_map s) (db_next s) (entry_eq (key_entries k s))
       = Inr (key_nodes k s, db_map s, Some q)"
    by blast
  let ?E = "(db_entries s)(q \<mapsto> e\<lparr>e_val := v\<rparr>)"
  let ?s = "s\<lparr>db_entries := ?E, db_next := Suc (db_next s)\<rparr>"
  have ne: "q \<noteq> db_next s"
    using q(1) db_ok_fresh(1) [OF ok] by blast
  have "(key_nodes k s)(db_next s := None) = db_nodes s"
    using db_ok_fresh(2) [OF ok] by (auto simp: key_nodes_def fun_eq_iff)
  moreover have "((key_entries k s)(q \<mapsto> e\<lparr>e_val := v\<rparr>))(db_next s := None) = ?E"
    using db_ok_fresh(3) [OF ok] ne by (auto simp: key_entries_def fun_eq_iff)
  ultimately have "do_set s [c, k, v] out = Inr (?s, out_nil out)"
    using q(2,4) key_facts(3) [OF ok q(1)]
    by (simp add: do_set_def arg_def stack_key_eq free_entry_def)
  moreover have "db_ok ?s bss"
    using db_ok_bump [OF db_ok_update [OF ok q(2), of v]] by simp
  moreover have "view (db_entries ?s) (M(k \<mapsto> v))"
    using view_update [OF vw q(2)] entry_unique [OF ok _ q(2)] q(3) by simp
  ultimately show ?thesis by blast
qed

lemma db_all_fields:
  "s\<lparr>db_entries := e, db_next := n, db_nodes := a, db_map := b\<rparr>
     = \<lparr>db_nodes = a, db_entries = e, db_map = b, db_next = n\<rparr>"
  by (cases s) simp

lemma do_set_new:
  assumes ok: "db_ok s bss" and vw: "view (db_entries s) M" and M: "M k = None"
    and room: "length (concat bss) + 1 < 2 ^ 60"
  shows "if set_crashes s bss k then do_set s [c, k, v] out = Inl NullDeref
     else \<exists>s' bss'. do_set s [c, k, v] out = Inr (s', out_nil out) \<and> db_ok s' bss'
            \<and> view (db_entries s') (M(k \<mapsto> v))
            \<and> mset (concat bss') = mset (Suc (db_next s) # concat bss)
            \<and> (\<not> over_full (push_bucket bss (Suc (db_next s)) (str_hash k)) \<longrightarrow>
                 bss' = push_bucket bss (Suc (db_next s)) (str_hash k))
            \<and> db_next s' = Suc (Suc (db_next s))"
proof -
  let ?a = "Suc (db_next s)"
  let ?b = "push_bucket bss ?a (str_hash k)"
  have nd: "set_nodes k s ?a = Some (node_of (str_hash k))"
    by (simp add: set_nodes_def)
  note ins = hm_insert_correct [OF set_nodes_idle [OF ok, of k] nd Suc_next_fresh [OF ok] room]
  have run: "do_set s [c, k, v] out =
      rbind (hm_insert (set_nodes k s) (db_map s) ?a) (\<lambda>(h', m'). Inr (free_entry (db_next s)
        \<lparr>db_nodes = h', db_entries = (key_entries k s)(?a \<mapsto> \<lparr>e_key = k, e_val = v\<rparr>),
         db_map = m', db_next = Suc ?a\<rparr>, out_nil out))"
    by (cases "hm_insert (set_nodes k s) (db_map s) ?a")
      (auto simp: do_set_def arg_def stack_key_eq key_lookup_none [OF ok vw M] new_entry_def
        set_nodes_def node_of_def db_all_fields)
  show ?thesis
  proof (cases "set_crashes s bss k")
    case True
    then have "hm_insert (set_nodes k s) (db_map s) ?a = Inl NullDeref"
      using ins by (simp add: set_crashes_def Let_def node_of_def)
    with True show ?thesis by (simp add: run)
  next
    case False
    with ins obtain h' m' bss' where
      r: "hm_insert (set_nodes k s) (db_map s) ?a = Inr (h', m')" "hm_idle h' m' bss'"
      "mset (concat bss') = mset (?a # concat bss)" "same_codes (set_nodes k s) h'"
      and b': "\<not> over_full ?b \<longrightarrow> bss' = ?b"
      by (auto simp: set_crashes_def Let_def node_of_def simp del: set_concat split: if_splits)
    let ?E = "(db_entries s)(?a \<mapsto> \<lparr>e_key = k, e_val = v\<rparr>)"
    let ?s = "\<lparr>db_nodes = h'(db_next s := None), db_entries = ?E, db_map = m', db_next = Suc ?a\<rparr>"
    have "((key_entries k s)(?a \<mapsto> \<lparr>e_key = k, e_val = v\<rparr>))(db_next s := None) = ?E"
      using db_ok_fresh(3) [OF ok] by (auto simp: key_entries_def fun_eq_iff)
    then have "do_set s [c, k, v] out = Inr (?s, out_nil out)"
      by (simp add: run r(1) free_entry_def)
    moreover have "db_ok ?s bss'"
      by (rule db_ok_insert [OF ok vw M r(2-4)])
    moreover have "db_entries s ?a = None"
      using ok Suc_next_fresh [OF ok] unfolding db_ok_def by blast
    then have "view (db_entries ?s) (M(k \<mapsto> v))"
      using view_new [OF vw M] by simp
    ultimately show ?thesis
      using False r(3) b' by (metis (no_types, lifting) db.select_convs(4))
  qed
qed

section \<open>DEL\<close>

lemma view_remove:
  assumes vw: "view ents M" and e: "ents c = Some e"
    and uniq: "\<And>a f. ents a = Some f \<Longrightarrow> e_key f = e_key e \<Longrightarrow> a = c"
  shows "view (ents(c := None)) (M(e_key e := None))"
  unfolding view_def
proof (intro allI)
  fix k w
  have old: "M k = Some w \<longleftrightarrow> (\<exists>a f. ents a = Some f \<and> e_key f = k \<and> e_val f = w)"
    using vw by (simp add: view_def)
  show "(M(e_key e := None)) k = Some w \<longleftrightarrow>
      (\<exists>a f. (ents(c := None)) a = Some f \<and> e_key f = k \<and> e_val f = w)"
  proof (cases "k = e_key e")
    case True
    have "\<not> ((ents(c := None)) a = Some f \<and> e_key f = e_key e)" for a f
      using uniq [of a f] by auto
    then show ?thesis unfolding True by (metis fun_upd_same option.distinct(1))
  next
    case False
    have "a \<noteq> c" if "ents a = Some f" "e_key f = k" for a f
      using that e False by auto
    with False old show ?thesis by auto
  qed
qed

lemma db_ok_delete:
  assumes ok: "db_ok s bss" and idle: "hm_idle h' m' bss'"
    and ms: "mset (concat bss) = mset (c # concat bss')"
    and sc: "same_codes (key_nodes k s) h'"
  shows "db_ok \<lparr>db_nodes = h'(c := None, db_next s := None), db_entries = (db_entries s)(c := None),
                db_map = m', db_next = Suc (db_next s)\<rparr> bss'"
proof -
  let ?n = "db_next s" and ?A' = "set (concat bss')"
  let ?H = "h'(c := None, ?n := None)"
  note A = mset_Cons_facts(1) [OF ms]
  have c: "c \<notin> ?A'"
    using mset_Cons_facts(3) [OF ms] ok hm_idle_distinct unfolding db_ok_def by blast
  have n: "?n \<notin> ?A'" "?n \<noteq> c"
    using db_ok_fresh(1) [OF ok] unfolding A by blast+
  have 1: "hm_idle ?H m' bss'"
    by (rule hm_idle_frame [OF idle]) (use c n in \<open>auto simp del: set_concat\<close>)
  have "dom h' = insert ?n (insert c ?A')"
    using same_codes_dom [OF sc] ok A unfolding db_ok_def key_nodes_def by (simp del: set_concat)
  then have 2: "dom ?H = ?A'"
    using c n by (auto simp del: set_concat)
  have 3: "dom ((db_entries s)(c := None)) = ?A'"
    using ok c A unfolding db_ok_def by (auto simp del: set_concat)
  have E: "ekey ((db_entries s)(c := None)) a = ekey (db_entries s) a" if "a \<in> ?A'" for a
    using that c by (auto simp: ekey_def simp del: set_concat)
  have 4: "keyed ekey str_hash ((db_entries s)(c := None)) ?H ?A'"
    unfolding keyed_def
  proof
    fix a assume a: "a \<in> ?A'"
    then have "a \<in> set (concat bss)"
      unfolding A by blast
    moreover have "keyed ekey str_hash (db_entries s) (db_nodes s) (set (concat bss))"
      using ok unfolding db_ok_def by blast
    ultimately obtain nd k' where nd: "db_nodes s a = Some nd" "ekey (db_entries s) a = Some k'"
      "hn_hcode nd = str_hash k'"
      unfolding keyed_def by blast
    have "key_nodes k s a = Some nd"
      using nd(1) a n by (auto simp: key_nodes_def simp del: set_concat)
    from same_codesD [OF sc this] obtain nd' where "h' a = Some nd'" "hn_hcode nd' = hn_hcode nd"
      by blast
    moreover have "?H a = h' a" using a c n by (auto simp del: set_concat)
    ultimately show "\<exists>nd k'. ?H a = Some nd \<and> ekey ((db_entries s)(c := None)) a = Some k'
        \<and> hn_hcode nd = str_hash k'"
      using nd E [OF a] by simp
  qed
  have "inj_on (ekey (db_entries s)) ?A'"
    using ok A unfolding db_ok_def by (metis inj_on_subset subset_insertI)
  then have 5: "inj_on (ekey ((db_entries s)(c := None))) ?A'"
    using inj_on_cong [of ?A' "ekey ((db_entries s)(c := None))" "ekey (db_entries s)"] E by blast
  have 6: "\<forall>a \<in> ?A'. a < Suc ?n"
    using ok A unfolding db_ok_def by (blast intro: less_SucI)
  show ?thesis
    using 1 2 3 4 5 6 by (simp add: db_ok_def del: set_concat)
qed

lemma db_del_fields:
  "s\<lparr>db_entries := e, db_next := n, db_nodes := a, db_map := b\<rparr>
     \<lparr>db_nodes := a', db_entries := e'\<rparr>
     = \<lparr>db_nodes = a', db_entries = e', db_map = b, db_next = n\<rparr>"
  by (cases s) simp

lemma do_del_present:
  assumes ok: "db_ok s bss" and vw: "view (db_entries s) M" and M: "M k = Some v"
  shows "\<exists>s' bss'. do_del s [c, k] out = Inr (s', out_int out 1) \<and> db_ok s' bss'
           \<and> view (db_entries s') (M(k := None)) \<and> length bss' = length bss"
proof -
  have "\<exists>c \<in> set (concat bss). ekey (key_entries k s) c = ekey (key_entries k s) (db_next s)"
    using key_present [OF ok vw] M by blast
  from ei.pop_found [OF key_facts(1,2) [OF ok] this] obtain h' m' bss' d where
    r: "hm_pop (key_nodes k s) (db_map s) (db_next s) (entry_eq (key_entries k s)) = Inr (h', m', Some d)"
    "ekey (key_entries k s) d = Some k" "hm_idle h' m' bss'" "mset (concat bss) = mset (d # concat bss')"
    "same_codes (key_nodes k s) h'" "length bss' = length bss"
    by (auto simp del: set_concat)
  have d: "d \<in> set (concat bss)"
    unfolding mset_Cons_facts(1) [OF r(4)] by simp
  then obtain e where e: "db_entries s d = Some e" "e_key e = k"
    using r(2) key_facts(3) [OF ok d] by (auto simp: ekey_def)
  have "((key_entries k s)(d := None))(db_next s := None) = (db_entries s)(d := None)"
    using db_ok_fresh(3) [OF ok] by (auto simp: key_entries_def fun_eq_iff)
  then have "do_del s [c, k] out = Inr (\<lparr>db_nodes = h'(d := None, db_next s := None),
      db_entries = (db_entries s)(d := None), db_map = m', db_next = Suc (db_next s)\<rparr>, out_int out 1)"
    by (simp add: do_del_def arg_def stack_key_eq r(1) free_entry_def db_all_fields Let_def)
  moreover note db_ok_delete [OF ok r(3-5)]
  moreover have "view ((db_entries s)(d := None)) (M(k := None))"
    using view_remove [OF vw e(1)] entry_unique [OF ok _ e(1)] e(2) by simp
  ultimately show ?thesis using r(6) by (metis db.select_convs(2))
qed

lemma do_del_absent:
  assumes ok: "db_ok s bss" and vw: "view (db_entries s) M" and M: "M k = None"
  shows "do_del s [c, k] out = Inr (bump s, out_int out 0)"
proof -
  have "hm_pop (key_nodes k s) (db_map s) (db_next s) (entry_eq (key_entries k s))
      = Inr (key_nodes k s, db_map s, None)"
    by (rule ei.pop_missing [OF key_facts(1,2) [OF ok]])
      (use key_present [OF ok vw, of k] M in blast)
  then show ?thesis
    by (simp add: do_del_def arg_def stack_key_eq free_stack_key [OF ok])
qed

section \<open>KEYS\<close>

definition table_keys :: "db \<Rightarrow> addr list list \<Rightarrow> bytes list" where
  "table_keys s bss = map (\<lambda>a. the (ekey (db_entries s) a)) (concat bss)"

lemma fold_out_str:
  "fold (\<lambda>a out. out_str out (f a)) as out = out @ concat (map (\<lambda>a. out_str [] (f a)) as)"
  by (induction as arbitrary: out) (simp_all add: out_str_def)

lemma do_keys_ok:
  assumes ok: "db_ok s bss"
  shows "do_keys s cmd out = Inr (s, out_arr out (of_nat (length (table_keys s bss)))
            @ concat (map (out_str []) (table_keys s bss)))"
proof -
  have idle: "hm_idle (db_nodes s) (db_map s) bss"
    using ok by (simp add: db_ok_def)
  have cb: "cb_scan (db_entries s) a o1 = Inr (out_str o1 (the (ekey (db_entries s) a)))"
    if "a \<in> set (concat bss)" for a o1
    using db_ok_entry [OF ok that] by (auto simp: cb_scan_def ekey_def)
  have scan: "rbind (h_scan (db_nodes s) (hm_tb1 (db_map s)) (cb_scan (db_entries s)) o1)
      (h_scan (db_nodes s) (hm_tb2 (db_map s)) (cb_scan (db_entries s)))
    = Inr (fold (\<lambda>a o1. out_str o1 (the (ekey (db_entries s) a))) (concat bss) o1)" for o1
    by (rule hm_scan_fold [OF idle cb])
  let ?o = "out_arr out (of_nat (length (concat bss)))"
  have "do_keys s cmd out = rbind (rbind (h_scan (db_nodes s) (hm_tb1 (db_map s)) (cb_scan (db_entries s)) ?o)
      (h_scan (db_nodes s) (hm_tb2 (db_map s)) (cb_scan (db_entries s)))) (\<lambda>out2. Inr (s, out2))"
    by (simp only: do_keys_def hm_size_correct [OF idle] rbind_Inr)
      (cases "h_scan (db_nodes s) (hm_tb1 (db_map s)) (cb_scan (db_entries s)) ?o"; simp)
  then show ?thesis
    unfolding scan fold_out_str by (simp add: table_keys_def comp_def)
qed

lemma table_keys_facts:
  assumes ok: "db_ok s bss" and vw: "view (db_entries s) M"
  shows "distinct (table_keys s bss)" and "set (table_keys s bss) = dom M"
    and "length (table_keys s bss) = length (concat bss)"
proof -
  let ?K = "ekey (db_entries s)"
  have ex: "\<exists>e. db_entries s a = Some e \<and> the (?K a) = e_key e" if "a \<in> set (concat bss)" for a
    using db_ok_entry [OF ok that] by (auto simp: ekey_def)
  have "inj_on (\<lambda>a. the (?K a)) (set (concat bss))"
    using ex entry_unique [OF ok] by (metis (no_types, lifting) inj_onI)
  moreover have "distinct (concat bss)"
    using ok hm_idle_distinct unfolding db_ok_def by blast
  ultimately show "distinct (table_keys s bss)"
    by (simp only: table_keys_def distinct_map simp_thms)
  show "set (table_keys s bss) = dom M"
  proof (intro set_eqI iffI)
    fix k assume "k \<in> set (table_keys s bss)"
    then obtain a where "a \<in> set (concat bss)" "k = the (?K a)"
      by (auto simp: table_keys_def simp del: set_concat)
    with ex view_val [OF vw] show "k \<in> dom M" by fastforce
  next
    fix k assume "k \<in> dom M"
    then obtain v where "M k = Some v" by blast
    from view_entry [OF ok vw this] obtain a e where
      "a \<in> set (concat bss)" "db_entries s a = Some e" "e_key e = k" by blast
    then show "k \<in> set (table_keys s bss)"
      unfolding table_keys_def set_map by (intro image_eqI [of _ _ a]) (simp_all add: ekey_def)
  qed
  show "length (table_keys s bss) = length (concat bss)"
    by (simp add: table_keys_def)
qed

lemma card_view:
  assumes "db_ok s bss" "view (db_entries s) M"
  shows "finite (dom M)" "card (dom M) = length (concat bss)"
  using table_keys_facts [OF assms] distinct_card List.finite_set by (metis, metis)

end
