(* ===== verification/KVSpec.thy ===== *)
theory KVSpec
  imports Keyspace
begin

text \<open>
  The abstract key-value machine the server promises: a finite map, a step per command
  and the replies it allows.  \<open>do_request\<close> refines it, up to the crash in the resize
  of the hash map; whole command sequences follow in the locale \<open>kv_server\<close>.
\<close>

section \<open>The abstract machine\<close>

datatype kcmd = KKeys | KGet bytes | KSet bytes bytes | KDel bytes | KUnknown

definition classify :: "bytes list \<Rightarrow> kcmd" where
  "classify cmd =
     (if length cmd = 1 \<and> cmd_is (cmd ! 0) (ascii ''keys'') then KKeys
      else if length cmd = 2 \<and> cmd_is (cmd ! 0) (ascii ''get'') then KGet (cmd ! 1)
      else if length cmd = 3 \<and> cmd_is (cmd ! 0) (ascii ''set'') then KSet (cmd ! 1) (cmd ! 2)
      else if length cmd = 2 \<and> cmd_is (cmd ! 0) (ascii ''del'') then KDel (cmd ! 1)
      else KUnknown)"

fun abs_step :: "(bytes \<rightharpoonup> bytes) \<Rightarrow> kcmd \<Rightarrow> (bytes \<rightharpoonup> bytes)" where
  "abs_step M (KSet k v) = M(k \<mapsto> v)"
| "abs_step M (KDel k) = M(k := None)"
| "abs_step M _ = M"

text \<open>\<open>KEYS\<close> may list the keys in any order.\<close>

fun reply_ok :: "(bytes \<rightharpoonup> bytes) \<Rightarrow> kcmd \<Rightarrow> bytes \<Rightarrow> bool" where
  "reply_ok M KKeys out \<longleftrightarrow> (\<exists>ks. distinct ks \<and> set ks = dom M
       \<and> out = out_arr [] (of_nat (length ks)) @ concat (map (out_str []) ks))"
| "reply_ok M (KGet k) out \<longleftrightarrow> out = enc_lookup [] (M k)"
| "reply_ok M (KSet k v) out \<longleftrightarrow> out = out_nil []"
| "reply_ok M (KDel k) out \<longleftrightarrow> out = out_int [] (if M k = None then 0 else 1)"
| "reply_ok M KUnknown out \<longleftrightarrow> out = out_err [] ERR_UNKNOWN (ascii ''Unknown cmd'')"

text \<open>Side conditions: values below the \<open>assert\<close> of \<open>do_get\<close>, fewer keys than memory holds.\<close>

definition roomy :: "(bytes \<rightharpoonup> bytes) \<Rightarrow> bool" where
  "roomy M \<longleftrightarrow> finite (dom M) \<and> card (dom M) + 1 < 2 ^ 60"

fun short_cmd :: "kcmd \<Rightarrow> bool" where
  "short_cmd (KSet k v) \<longleftrightarrow> length v < k_max_msg"
| "short_cmd _ \<longleftrightarrow> True"

lemma short_vals_step: "short_vals M \<Longrightarrow> short_cmd c \<Longrightarrow> short_vals (abs_step M c)"
  by (cases c) (auto simp: short_vals_def split: if_splits)

lemma short_vals_empty [simp]: "short_vals Map.empty"
  by (simp add: short_vals_def)

section \<open>\<open>do_request\<close> refines the machine\<close>

lemma handler_args:
  "length cmd = 2 \<Longrightarrow> do_get s [cmd ! 0, cmd ! 1] out = do_get s cmd out"
  "length cmd = 2 \<Longrightarrow> do_del s [cmd ! 0, cmd ! 1] out = do_del s cmd out"
  "length cmd = 3 \<Longrightarrow> do_set s [cmd ! 0, cmd ! 1, cmd ! 2] out = do_set s cmd out"
proof -
  have "arg [cmd ! 0, cmd ! 1, cmd ! 2] 1 = arg cmd 1" "arg [cmd ! 0, cmd ! 1, cmd ! 2] 2 = arg cmd 2"
    if "length cmd = 3"
    using that by (simp_all add: arg_def)
  then show "length cmd = 3 \<Longrightarrow> do_set s [cmd ! 0, cmd ! 1, cmd ! 2] out = do_set s cmd out"
    by (simp only: do_set_def)
qed (simp_all add: do_get_def do_del_def arg_def)

lemma do_request_classify:
  "do_request s cmd out = (case classify cmd of
       KKeys \<Rightarrow> do_keys s cmd out
     | KGet k \<Rightarrow> do_get s [cmd ! 0, k] out
     | KSet k v \<Rightarrow> do_set s [cmd ! 0, k, v] out
     | KDel k \<Rightarrow> do_del s [cmd ! 0, k] out
     | KUnknown \<Rightarrow> Inr (s, out_err out ERR_UNKNOWN (ascii ''Unknown cmd'')))"
  by (simp add: do_request_def classify_def handler_args [unfolded One_nat_def])

text \<open>The exact outcome for the buckets \<open>bss\<close> of the table.\<close>

definition request_crashes :: "db \<Rightarrow> addr list list \<Rightarrow> (bytes \<rightharpoonup> bytes) \<Rightarrow> kcmd \<Rightarrow> bool" where
  "request_crashes s bss M c \<longleftrightarrow>
     (case c of KSet k v \<Rightarrow> M k = None \<and> set_crashes s bss k | _ \<Rightarrow> False)"

lemma do_request_exact:
  assumes ok: "db_ok s bss" and vw: "view (db_entries s) M" and sv: "short_vals M" and room: "roomy M"
  shows "if request_crashes s bss M (classify cmd) then do_request s cmd [] = Inl NullDeref
     else \<exists>s' bss' out. do_request s cmd [] = Inr (s', out) \<and> db_ok s' bss'
            \<and> view (db_entries s') (abs_step M (classify cmd)) \<and> reply_ok M (classify cmd) out"
proof (cases "classify cmd")
  case KKeys
  then show ?thesis
    using do_keys_ok [OF ok, of cmd "[]"] table_keys_facts(1,2) [OF ok vw] ok vw
    by (auto simp: request_crashes_def do_request_classify)
next
  case (KGet k)
  then show ?thesis
    using do_get_ok [OF ok vw sv, of "cmd ! 0" k "[]"] db_ok_bump [OF ok] vw
    by (auto simp: request_crashes_def do_request_classify)
next
  case (KSet k v)
  have "length (concat bss) + 1 < 2 ^ 60"
    using room card_view(2) [OF ok vw] by (simp add: roomy_def)
  from do_set_new [OF ok vw _ this, of k "cmd ! 0" v "[]"] do_set_update [OF ok vw, of k _ "cmd ! 0" v "[]"]
  show ?thesis
    unfolding request_crashes_def do_request_classify KSet
    by (cases "M k") (simp_all split: if_splits, blast+)
next
  case (KDel k)
  then show ?thesis
    using do_del_absent [OF ok vw, of k "cmd ! 0" "[]"] do_del_present [OF ok vw, of k _ "cmd ! 0" "[]"]
      db_ok_bump [OF ok] vw
    by (cases "M k") (auto simp: request_crashes_def do_request_classify fun_upd_idem)
next
  case KUnknown
  then show ?thesis
    using ok vw by (auto simp: request_crashes_def do_request_classify)
qed

section \<open>Sequences of commands\<close>

primrec run_cmds :: "('s \<Rightarrow> bytes list \<Rightarrow> ('s \<times> bytes) res) \<Rightarrow> 's \<Rightarrow> bytes list list \<Rightarrow> ('s \<times> bytes list) res" where
  "run_cmds exec s [] = Inr (s, [])"
| "run_cmds exec s (c # cs) =
     rbind (exec s c) (\<lambda>(s', out). rbind (run_cmds exec s' cs) (\<lambda>(s'', outs). Inr (s'', out # outs)))"

lemma run_cmds_append:
  "run_cmds exec s xs = Inr (s1, os) \<Longrightarrow> run_cmds exec s1 ys = Inr (s2, ps) \<Longrightarrow>
     run_cmds exec s (xs @ ys) = Inr (s2, os @ ps)"
  by (induction xs arbitrary: s os) (auto simp: rbind_eq_Inr)

fun replies_ok :: "(bytes \<rightharpoonup> bytes) \<Rightarrow> kcmd list \<Rightarrow> bytes list \<Rightarrow> bool" where
  "replies_ok M [] [] \<longleftrightarrow> True"
| "replies_ok M (c # cs) (out # outs) \<longleftrightarrow> reply_ok M c out \<and> replies_ok (abs_step M c) cs outs"
| "replies_ok M _ _ \<longleftrightarrow> False"

lemma card_step: "finite (dom M) \<Longrightarrow> finite (dom (abs_step M c)) \<and> card (dom (abs_step M c)) \<le> card (dom M) + 1"
proof (cases c)
  case (KSet k v)
  assume "finite (dom M)"
  then show ?thesis using KSet by (simp add: card_insert_if)
next
  case (KDel k)
  assume fin: "finite (dom M)"
  have "card (dom M - {k}) \<le> card (dom M)"
    by (rule card_mono) (use fin in auto)
  then show ?thesis using KDel fin by (simp add: le_SucI)
qed auto

text \<open>
  \<open>kv_server\<close>: an executor that refines the machine one command at a time, where a
  crash is a NULL dereference on a \<open>SET\<close> of a new key.
\<close>

locale kv_server =
  fixes exec :: "'s \<Rightarrow> bytes list \<Rightarrow> ('s \<times> bytes) res"
    and rep :: "'s \<Rightarrow> (bytes \<rightharpoonup> bytes) \<Rightarrow> bool"
  assumes exec_ok: "rep s M \<Longrightarrow> short_vals M \<Longrightarrow> roomy M \<Longrightarrow> exec s cmd = Inr (s', out) \<Longrightarrow>
      rep s' (abs_step M (classify cmd)) \<and> reply_ok M (classify cmd) out"
    and exec_crash: "rep s M \<Longrightarrow> short_vals M \<Longrightarrow> roomy M \<Longrightarrow> exec s cmd = Inl f \<Longrightarrow>
      f = NullDeref \<and> (\<exists>k v. classify cmd = KSet k v \<and> M k = None)"
begin

lemma run_ok:
  assumes "run_cmds exec s cmds = Inr (s', outs)" "rep s M" "short_vals M"
    and "finite (dom M)" "card (dom M) + length cmds < 2 ^ 60"
    and "\<forall>cmd \<in> set cmds. short_cmd (classify cmd)"
  shows "rep s' (foldl abs_step M (map classify cmds)) \<and> replies_ok M (map classify cmds) outs"
  using assms
proof (induction cmds arbitrary: s M outs)
  case Nil
  then show ?case by simp
next
  case (Cons c cs)
  from Cons.prems(1) obtain s1 out outs' where
    r: "exec s c = Inr (s1, out)" "run_cmds exec s1 cs = Inr (s', outs')" "outs = out # outs'"
    by (auto simp: rbind_eq_Inr)
  have "roomy M"
    using Cons.prems(4,5) by (simp add: roomy_def)
  from exec_ok [OF Cons.prems(2,3) this r(1)]
  have e: "rep s1 (abs_step M (classify c))" "reply_ok M (classify c) out" by simp_all
  have "rep s' (foldl abs_step (abs_step M (classify c)) (map classify cs))
      \<and> replies_ok (abs_step M (classify c)) (map classify cs) outs'"
    by (rule Cons.IH [OF r(2) e(1)])
      (use Cons.prems card_step [of M "classify c"] in \<open>auto intro: short_vals_step\<close>)
  with e(2) r(3) show ?case by simp
qed

lemma run_crash:
  assumes "run_cmds exec s cmds = Inl f" "rep s M" "short_vals M"
    and "finite (dom M)" "card (dom M) + length cmds < 2 ^ 60"
    and "\<forall>cmd \<in> set cmds. short_cmd (classify cmd)"
  shows "f = NullDeref \<and> (\<exists>cmd \<in> set cmds. \<exists>k v. classify cmd = KSet k v)"
  using assms
proof (induction cmds arbitrary: s M)
  case Nil
  then show ?case by simp
next
  case (Cons c cs)
  have ro: "roomy M"
    using Cons.prems(4,5) by (simp add: roomy_def)
  show ?case
  proof (cases "exec s c")
    case (Inl g)
    with Cons.prems(1) have "f = g" by simp
    with exec_crash [OF Cons.prems(2,3) ro Inl] show ?thesis by auto
  next
    case (Inr r)
    then obtain s1 out where r: "exec s c = Inr (s1, out)" by (cases r) auto
    from Cons.prems(1) r have run: "run_cmds exec s1 cs = Inl f"
      by (auto simp: rbind_eq_Inl)
    from exec_ok [OF Cons.prems(2,3) ro r] have "rep s1 (abs_step M (classify c))" by simp
    then have "f = NullDeref \<and> (\<exists>cmd \<in> set cs. \<exists>k v. classify cmd = KSet k v)"
      by (rule Cons.IH [OF run])
        (use Cons.prems card_step [of M "classify c"] in \<open>auto intro: short_vals_step\<close>)
    then show ?thesis by auto
  qed
qed

text \<open>Without a \<open>SET\<close> nothing crashes.\<close>

lemma run_no_set:
  assumes "rep s M" "short_vals M" "finite (dom M)" "card (dom M) + length cmds < 2 ^ 60"
    and "\<forall>cmd \<in> set cmds. \<forall>k v. classify cmd \<noteq> KSet k v"
  shows "\<exists>s' outs. run_cmds exec s cmds = Inr (s', outs)"
proof (cases "run_cmds exec s cmds")
  case (Inl f)
  have "\<forall>cmd \<in> set cmds. short_cmd (classify cmd)"
  proof
    fix cmd assume "cmd \<in> set cmds"
    with assms(5) show "short_cmd (classify cmd)" by (cases "classify cmd") auto
  qed
  with run_crash [OF Inl assms(1-4)] assms(5) show ?thesis by blast
next
  case (Inr r)
  then show ?thesis by (cases r) auto
qed

end

interpretation srv: kv_server "\<lambda>s cmd. do_request s cmd []" db_rep
proof
  fix s M cmd s' out
  assume a: "db_rep s M" "short_vals M" "roomy M" and r: "do_request s cmd [] = Inr (s', out)"
  from a(1) obtain bss where "db_ok s bss" "view (db_entries s) M"
    by (auto simp: db_rep_def)
  from do_request_exact [OF this a(2,3), of cmd] r
  show "db_rep s' (abs_step M (classify cmd)) \<and> reply_ok M (classify cmd) out"
    by (auto simp: db_rep_def split: if_splits)
next
  fix s M cmd f
  assume a: "db_rep s M" "short_vals M" "roomy M" and r: "do_request s cmd [] = Inl f"
  from a(1) obtain bss where "db_ok s bss" "view (db_entries s) M"
    by (auto simp: db_rep_def)
  from do_request_exact [OF this a(2,3), of cmd] r
  show "f = NullDeref \<and> (\<exists>k v. classify cmd = KSet k v \<and> M k = None)"
    by (auto simp: request_crashes_def split: if_splits kcmd.splits)
qed

abbreviation exec :: "db \<Rightarrow> bytes list \<Rightarrow> (db \<times> bytes) res" where
  "exec s cmd \<equiv> do_request s cmd []"

lemma db_rep_init: "db_rep db_init Map.empty"
  using db_ok_init view_init by (auto simp: db_rep_def)

end
