(* ===== verification/Conn.thy ===== *)
theory Conn
  imports KVSpec
begin

text \<open>
  One client connection: \<open>struct Conn\<close> of \<open>include/server_utils.h\<close> and the
  functions \<open>connection_io\<close>, \<open>state_req\<close>, \<open>try_fill_buffer\<close>,
  \<open>try_one_request\<close>, \<open>state_res\<close> and \<open>try_flush_buffer\<close> of
  \<open>src/server_utils.cpp\<close>, over the scripted system calls of \<open>Utils\<close>.  Each loop is
  a function whose termination proof names what it consumes; \<open>ConnSpec\<close> says what they do.
\<close>

section \<open>State\<close>

definition STATE_REQ :: u32 where "STATE_REQ = 0"
definition STATE_RES :: u32 where "STATE_RES = 1"
definition STATE_END :: u32 where "STATE_END = 2"

lemmas state_defs = STATE_REQ_def STATE_RES_def STATE_END_def

lemma state_distinct [simp]:
  "STATE_REQ \<noteq> STATE_RES" "STATE_REQ \<noteq> STATE_END" "STATE_RES \<noteq> STATE_END"
  "STATE_RES \<noteq> STATE_REQ" "STATE_END \<noteq> STATE_REQ" "STATE_END \<noteq> STATE_RES"
  by (simp_all add: state_defs)

text \<open>
  The sizes are \<open>size_t\<close> in the code; none exceeds \<open>4 + k_max_msg\<close> (see
  \<open>conn_ok\<close>), so they are natural numbers here, and the one subtraction that could
  wrap, in \<open>try_flush_buffer\<close>, is guarded.
\<close>

record conn =
  conn_fd :: int
  conn_state :: u32
  rbuf_size :: nat
  rbuf :: bytes
  wbuf_size :: nat
  wbuf_sent :: nat
  wbuf :: bytes

definition buf_cap :: nat where "buf_cap = 4 + k_max_msg"

section \<open>Sending\<close>

text \<open>\<open>do \<dots> while (rv < 0 && errno == EINTR)\<close> around \<open>write\<close> and \<open>read\<close>.\<close>

function write_retry :: "int \<Rightarrow> bytes \<Rightarrow> io \<Rightarrow> (wr_ret \<times> io) res" where
  "write_retry fd bs w =
     rbind (sys_write fd bs w) (\<lambda>(rv, w'). if rv = WrErr EINTR then write_retry fd bs w' else Inr (rv, w'))"
  by pat_completeness auto
termination
  by (relation "measure (\<lambda>(fd, bs, w). length (wr_script w))") (auto dest: sys_write_Inr(1))

function read_retry :: "nat \<Rightarrow> io \<Rightarrow> (rd_ret \<times> io) res" where
  "read_retry cap w =
     rbind (sys_read cap w) (\<lambda>(rv, w'). if rv = RdErr EINTR then read_retry cap w' else Inr (rv, w'))"
  by pat_completeness auto
termination
  by (relation "measure (\<lambda>(cap, w). length (rd_script w))") (auto dest: sys_read_Inr(1))

declare write_retry.simps [simp del] read_retry.simps [simp del]

definition try_flush_buffer :: "conn \<Rightarrow> io \<Rightarrow> (bool \<times> conn \<times> io) res" where
  "try_flush_buffer c w =
     (if wbuf_size c < wbuf_sent c then Inl OutOfBounds
      else rbind (slice (wbuf c) (wbuf_sent c) (wbuf_size c - wbuf_sent c)) (\<lambda>bs.
      rbind (write_retry (conn_fd c) bs w) (\<lambda>(rv, w1).
      case rv of
        WrErr e \<Rightarrow> if e = EAGAIN then Inr (False, c, w1)
                   else Inr (False, c\<lparr>conn_state := STATE_END\<rparr>, w1)
      | WrN n \<Rightarrow>
          let c1 = c\<lparr>wbuf_sent := wbuf_sent c + n\<rparr> in
          rbind (assert_that (wbuf_sent c1 \<le> wbuf_size c1)) (\<lambda>_.
          if wbuf_sent c1 = wbuf_size c1
          then Inr (False, c1\<lparr>conn_state := STATE_REQ, wbuf_sent := 0, wbuf_size := 0\<rparr>,
                    log_call (EpollMod (conn_fd c1) EPOLLIN) w1)
          else Inr (True, c1, w1)))))"

lemma write_retry_script:
  "write_retry fd bs w = Inr (rv, w') \<Longrightarrow> length (wr_script w') < length (wr_script w)"
proof (induction fd bs w rule: write_retry.induct)
  case (1 fd bs w)
  from "1.prems" obtain r w1 where r: "sys_write fd bs w = Inr (r, w1)"
    "(if r = WrErr EINTR then write_retry fd bs w1 else Inr (r, w1)) = Inr (rv, w')"
    by (subst (asm) write_retry.simps) (auto simp: rbind_eq_Inr)
  note sh = sys_write_Inr(1) [OF r(1)]
  show ?case
  proof (cases "r = WrErr EINTR")
    case True
    with r(2) have "write_retry fd bs w1 = Inr (rv, w')" by simp
    from "1.IH" [OF r(1) refl True this] sh show ?thesis by simp
  qed (use r(2) sh in auto)
qed

lemma read_retry_script:
  "read_retry cap w = Inr (rv, w') \<Longrightarrow> length (rd_script w') < length (rd_script w)"
proof (induction cap w rule: read_retry.induct)
  case (1 cap w)
  from "1.prems" obtain r w1 where r: "sys_read cap w = Inr (r, w1)"
    "(if r = RdErr EINTR then read_retry cap w1 else Inr (r, w1)) = Inr (rv, w')"
    by (subst (asm) read_retry.simps) (auto simp: rbind_eq_Inr)
  note sh = sys_read_Inr(1) [OF r(1)]
  show ?case
  proof (cases "r = RdErr EINTR")
    case True
    with r(2) have "read_retry cap w1 = Inr (rv, w')" by simp
    from "1.IH" [OF r(1) refl True this] sh show ?thesis by simp
  qed (use r(2) sh in auto)
qed

text \<open>The three outcomes of \<open>try_flush_buffer\<close>.\<close>

definition flush_outcome :: "conn \<Rightarrow> wr_ret \<Rightarrow> io \<Rightarrow> bool \<times> conn \<times> io" where
  "flush_outcome c rv w = (case rv of
       WrErr e \<Rightarrow> (False, if e = EAGAIN then c else c\<lparr>conn_state := STATE_END\<rparr>, w)
     | WrN n \<Rightarrow>
         if wbuf_sent c + n = wbuf_size c
         then (False, c\<lparr>wbuf_sent := 0, wbuf_size := 0, conn_state := STATE_REQ\<rparr>,
               log_call (EpollMod (conn_fd c) EPOLLIN) w)
         else (True, c\<lparr>wbuf_sent := wbuf_sent c + n\<rparr>, w))"

lemma try_flush_bufferE:
  assumes "try_flush_buffer c w = Inr r"
  obtains bs rv w1 where "wbuf_sent c \<le> wbuf_size c"
    "slice (wbuf c) (wbuf_sent c) (wbuf_size c - wbuf_sent c) = Inr bs"
    "write_retry (conn_fd c) bs w = Inr (rv, w1)"
    "\<And>n. rv = WrN n \<Longrightarrow> wbuf_sent c + n \<le> wbuf_size c" "r = flush_outcome c rv w1"
proof -
  from assms obtain bs rv w1 where r: "\<not> wbuf_size c < wbuf_sent c"
    "slice (wbuf c) (wbuf_sent c) (wbuf_size c - wbuf_sent c) = Inr bs"
    "write_retry (conn_fd c) bs w = Inr (rv, w1)"
    unfolding try_flush_buffer_def by (auto simp: rbind_eq_Inr simp del: Let_def split: if_splits)
  show ?thesis
  proof (rule that [of bs rv w1])
    show "r = flush_outcome c rv w1"
      using assms r by (cases rv) (auto simp: try_flush_buffer_def flush_outcome_def rbind_eq_Inr)
    show "\<And>n. rv = WrN n \<Longrightarrow> wbuf_sent c + n \<le> wbuf_size c"
      using assms r by (auto simp: try_flush_buffer_def rbind_eq_Inr Let_def)
  qed (use r in auto)
qed

lemma flush_outcome_io: "flush_outcome c rv w = (True, c', w') \<Longrightarrow> w' = w"
  by (auto simp: flush_outcome_def split: wr_ret.splits if_splits)

lemma try_flush_script:
  "try_flush_buffer c w = Inr (True, c', w') \<Longrightarrow> length (wr_script w') < length (wr_script w)"
  by (erule try_flush_bufferE) (metis flush_outcome_io write_retry_script)

function state_res :: "conn \<Rightarrow> io \<Rightarrow> (conn \<times> io) res" where
  "state_res c w =
     rbind (try_flush_buffer c w) (\<lambda>(again, c', w'). if again then state_res c' w' else Inr (c', w'))"
  by pat_completeness auto
termination
  by (relation "measure (\<lambda>(c, w). length (wr_script w))") (auto dest: try_flush_script)

declare state_res.simps [simp del]

lemma flush_outcome_frame:
  "flush_outcome c rv w = (again, c', w') \<Longrightarrow>
     rbuf c' = rbuf c \<and> rbuf_size c' = rbuf_size c \<and> conn_fd c' = conn_fd c
     \<and> rd_script w' = rd_script w"
  by (auto simp: flush_outcome_def log_call_def split: wr_ret.splits if_splits)

lemma write_retry_frame:
  "write_retry fd bs w = Inr (rv, w') \<Longrightarrow> rd_script w' = rd_script w"
proof (induction fd bs w rule: write_retry.induct)
  case (1 fd bs w)
  from "1.prems" obtain r w1 where r: "sys_write fd bs w = Inr (r, w1)"
    "(if r = WrErr EINTR then write_retry fd bs w1 else Inr (r, w1)) = Inr (rv, w')"
    by (subst (asm) write_retry.simps) (auto simp: rbind_eq_Inr)
  with "1.IH" [OF r(1) refl] sys_write_Inr(2) [OF r(1)] show ?case
    by (auto split: if_splits)
qed

text \<open>\<open>state_res\<close> touches neither the read buffer nor the input.\<close>

lemma state_res_frame:
  "state_res c w = Inr (c', w') \<Longrightarrow>
     rbuf c' = rbuf c \<and> rbuf_size c' = rbuf_size c \<and> conn_fd c' = conn_fd c
     \<and> rd_script w' = rd_script w"
proof (induction c w rule: state_res.induct)
  case (1 c w)
  from "1.prems" obtain again c1 w1 where t: "try_flush_buffer c w = Inr (again, c1, w1)"
    "(if again then state_res c1 w1 else Inr (c1, w1)) = Inr (c', w')"
    by (subst (asm) state_res.simps) (auto simp: rbind_eq_Inr)
  from t(1) have fr: "rbuf c1 = rbuf c \<and> rbuf_size c1 = rbuf_size c \<and> conn_fd c1 = conn_fd c
     \<and> rd_script w1 = rd_script w"
    by (rule try_flush_bufferE) (metis flush_outcome_frame write_retry_frame)
  with "1.IH" [OF t(1) refl refl] t(2) show ?case
    by (cases again) auto
qed

section \<open>Receiving\<close>

definition try_one_request :: "conn \<Rightarrow> db \<Rightarrow> io \<Rightarrow> (bool \<times> conn \<times> db \<times> io) res" where
  "try_one_request c s w =
     (if rbuf_size c < 4 then Inr (False, c, s, w)
      else rbind (rd32 (rbuf c) 0) (\<lambda>len.
      if k_max_msg < unat len then Inr (False, c\<lparr>conn_state := STATE_END\<rparr>, s, w)
      else if rbuf_size c - 4 < unat len then Inr (False, c, s, w)
      else rbind (parse_req (drop 4 (rbuf c)) (unat len) []) (\<lambda>(rv, cmd).
      if rv \<noteq> 0 then Inr (False, c\<lparr>conn_state := STATE_END\<rparr>, s, w)
      else rbind (do_request s cmd []) (\<lambda>(s1, out0).
      let out = (if k_max_msg < 4 + length out0
                 then out_err [] ERR_2BIG (ascii ''response is too big'') else out0);
          wlen = of_nat (length out) :: u32 in
      rbind (blit (wbuf c) 0 (le32 wlen)) (\<lambda>wb1.
      rbind (blit wb1 4 out) (\<lambda>wb2.
      let c1 = c\<lparr>wbuf := wb2, wbuf_size := unat (4 + wlen)\<rparr>;
          remain = rbuf_size c1 - (4 + unat len) in
      rbind (if remain \<noteq> 0
             then rbind (slice (rbuf c1) (4 + unat len) remain) (\<lambda>bs. blit (rbuf c1) 0 bs)
             else Inr (rbuf c1)) (\<lambda>rb.
      let c2 = c1\<lparr>rbuf := rb, rbuf_size := remain, conn_state := STATE_RES\<rparr> in
      rbind (state_res c2 (log_call (EpollMod (conn_fd c2) EPOLLOUT) w)) (\<lambda>(c3, w1).
        Inr (conn_state c3 = STATE_REQ, c3, s1, w1)))))))))"

lemma try_one_request_True:
  assumes "try_one_request c s w = Inr (True, c', s', w')"
  shows "rbuf_size c' < rbuf_size c"
proof -
  have lt: "rbuf_size c - (4 + n) < rbuf_size c" if "\<not> rbuf_size c < 4" for n
    using that by simp
  from assms show ?thesis
    unfolding try_one_request_def
    by (auto simp: rbind_eq_Inr Let_def lt dest!: state_res_frame split: if_splits)
qed

text \<open>\<open>while (try_one_request(conn, epfd)) {}\<close>: each round consumes a request.\<close>

function request_loop :: "conn \<Rightarrow> db \<Rightarrow> io \<Rightarrow> (conn \<times> db \<times> io) res" where
  "request_loop c s w =
     rbind (try_one_request c s w) (\<lambda>(again, c', s', w').
       if again then request_loop c' s' w' else Inr (c', s', w'))"
  by pat_completeness auto
termination
  by (relation "measure (\<lambda>(c, s, w). rbuf_size c)") (auto dest: try_one_request_True)

declare request_loop.simps [simp del]

definition try_fill_buffer :: "conn \<Rightarrow> db \<Rightarrow> io \<Rightarrow> (bool \<times> conn \<times> db \<times> io) res" where
  "try_fill_buffer c s w =
     rbind (assert_that (rbuf_size c < buf_cap)) (\<lambda>_.
     rbind (read_retry (buf_cap - rbuf_size c) w) (\<lambda>(rv, w1).
     case rv of
       RdErr e \<Rightarrow> if e = EAGAIN then Inr (False, c, s, w1)
                  else Inr (False, c\<lparr>conn_state := STATE_END\<rparr>, s, w1)
     | RdData bs \<Rightarrow>
         if bs = [] then Inr (False, c\<lparr>conn_state := STATE_END\<rparr>, s, w1)
         else
           rbind (blit (rbuf c) (rbuf_size c) bs) (\<lambda>rb.
           let c1 = c\<lparr>rbuf := rb, rbuf_size := rbuf_size c + length bs\<rparr> in
           rbind (assert_that (rbuf_size c1 < buf_cap)) (\<lambda>_.
           rbind (request_loop c1 s w1) (\<lambda>(c2, s2, w2).
             Inr (conn_state c2 = STATE_REQ, c2, s2, w2))))))"

lemma try_one_request_script:
  "try_one_request c s w = Inr (again, c', s', w') \<Longrightarrow> rd_script w' = rd_script w"
  unfolding try_one_request_def
  by (auto simp: rbind_eq_Inr Let_def log_call_def dest!: state_res_frame split: if_splits)

lemma request_loop_script:
  "request_loop c s w = Inr (c', s', w') \<Longrightarrow> rd_script w' = rd_script w"
proof (induction c s w rule: request_loop.induct)
  case (1 c s w)
  from "1.prems" obtain again c1 s1 w1 where t: "try_one_request c s w = Inr (again, c1, s1, w1)"
    "(if again then request_loop c1 s1 w1 else Inr (c1, s1, w1)) = Inr (c', s', w')"
    by (subst (asm) request_loop.simps) (auto simp: rbind_eq_Inr)
  with "1.IH" [OF t(1) refl refl refl] try_one_request_script [OF t(1)] show ?case
    by (cases again) auto
qed

lemma try_fill_buffer_script:
  assumes "try_fill_buffer c s w = Inr (again, c', s', w')"
  shows "length (rd_script w') < length (rd_script w)"
proof -
  from assms obtain rv w1 where r: "read_retry (buf_cap - rbuf_size c) w = Inr (rv, w1)"
    unfolding try_fill_buffer_def by (auto simp: rbind_eq_Inr)
  have "rd_script w' = rd_script w1"
  proof (cases rv)
    case (RdErr e)
    with assms r show ?thesis
      by (auto simp: try_fill_buffer_def rbind_eq_Inr split: if_splits)
  next
    case (RdData bs)
    with assms r show ?thesis
      by (auto simp: try_fill_buffer_def rbind_eq_Inr Let_def split: if_splits dest: request_loop_script)
  qed
  with read_retry_script [OF r] show ?thesis by simp
qed

function state_req :: "conn \<Rightarrow> db \<Rightarrow> io \<Rightarrow> (conn \<times> db \<times> io) res" where
  "state_req c s w =
     rbind (try_fill_buffer c s w) (\<lambda>(again, c', s', w').
       if again then state_req c' s' w' else Inr (c', s', w'))"
  by pat_completeness auto
termination
  by (relation "measure (\<lambda>(c, s, w). length (rd_script w))") (auto dest: try_fill_buffer_script)

declare state_req.simps [simp del]

definition connection_io :: "conn \<Rightarrow> db \<Rightarrow> io \<Rightarrow> (conn \<times> db \<times> io) res" where
  "connection_io c s w =
     (if conn_state c = STATE_REQ then state_req c s w
      else if conn_state c = STATE_RES then rbind (state_res c w) (\<lambda>(c', w'). Inr (c', s, w'))
      else Inl AssertFail)"

end
