(* ===== verification/Framing.thy ===== *)
theory Framing
  imports Prelude
begin

text \<open>
  The contract of a wire format that is read off a byte stream message by message: what the
  decoder takes off the front is exactly the encoding of one valid message.  It makes
  streams unambiguous, however they were cut into pieces on their way.
\<close>

locale framing =
  fixes encode :: "'a \<Rightarrow> bytes"
    and decode :: "bytes \<Rightarrow> ('a \<times> bytes) option"
    and valid :: "'a \<Rightarrow> bool"
  assumes decode_iff: "decode bs = Some (x, rest) \<longleftrightarrow> valid x \<and> bs = encode x @ rest"
begin

lemma decode_encode: "valid x \<Longrightarrow> decode (encode x @ rest) = Some (x, rest)"
  by (simp add: decode_iff)

lemma head_unique: "valid x \<Longrightarrow> valid y \<Longrightarrow> encode x @ r = encode y @ r' \<Longrightarrow> x = y \<and> r = r'"
  by (metis decode_encode option.inject prod.inject)

text \<open>Two readings of one stream: one of them read on where the other stopped.\<close>

lemma streams_compare:
  assumes "concat (map encode xs) @ r = concat (map encode ys) @ r'"
    and "\<forall>x \<in> set xs. valid x" and "\<forall>y \<in> set ys. valid y"
  shows "(\<exists>zs. xs = ys @ zs \<and> r' = concat (map encode zs) @ r) \<or> (\<exists>zs. ys = xs @ zs \<and> r = concat (map encode zs) @ r')"
  using assms
proof (induction xs arbitrary: ys)
  case (Cons x xs)
  show ?case
  proof (cases ys)
    case (Cons y ys')
    with Cons.prems have "x = y" "concat (map encode xs) @ r = concat (map encode ys') @ r'"
      using head_unique [of x y] by auto
    with Cons.IH [of ys'] Cons.prems(2,3) Cons show ?thesis by auto
  qed (use Cons.prems(1) in simp)
qed simp

text \<open>When neither left a message unread, they read the same.\<close>

lemma streams_unique:
  assumes "concat (map encode xs) @ r = concat (map encode ys) @ r'"
    and "\<forall>x \<in> set xs. valid x" and "\<forall>y \<in> set ys. valid y"
    and "decode r = None" and "decode r' = None"
  shows "xs = ys \<and> r = r'"
proof -
  have stuck: "zs = []" if "decode (concat (map encode zs) @ q) = None" "\<forall>z \<in> set zs. valid z" for zs q
    using that by (cases zs) (simp_all add: decode_encode)
  from streams_compare [OF assms(1-3)] show ?thesis
  proof (elim exE disjE conjE)
    fix zs assume z: "xs = ys @ zs" "r' = concat (map encode zs) @ r"
    with stuck [of zs r] assms(2,5) show ?thesis by simp
  next
    fix zs assume z: "ys = xs @ zs" "r = concat (map encode zs) @ r'"
    with stuck [of zs r'] assms(3,4) show ?thesis by simp
  qed
qed

end

end
