(* ===== verification/ConnSpec.thy ===== *)
theory ConnSpec
  imports Conn Framing
begin

text \<open>
  What a connection promises: the invariant of \<open>struct Conn\<close>, the framing of requests
  and responses, and the relation between the bytes that come in and the bytes that go out; and what can stop
  it (\<open>resize_crash\<close>, \<open>buffer_full\<close>).
\<close>

section \<open>The streams of a connection\<close>

definition frame :: "bytes \<Rightarrow> bytes" where
  "frame bs = le32 (of_nat (length bs)) @ bs"

text \<open>Unprocessed input in the buffer, and unsent output.\<close>

definition inbuf :: "conn \<Rightarrow> bytes" where
  "inbuf c = take (rbuf_size c) (rbuf c)"

definition pending :: "conn \<Rightarrow> bytes" where
  "pending c = take (wbuf_size c - wbuf_sent c) (drop (wbuf_sent c) (wbuf c))"

text \<open>All input not yet turned into requests; all output sent or about to be.\<close>

definition in_stream :: "conn \<Rightarrow> io \<Rightarrow> bytes" where
  "in_stream c w = inbuf c @ rd_bytes (rd_script w)"

definition out_stream :: "conn \<Rightarrow> io \<Rightarrow> bytes" where
  "out_stream c w = written (conn_fd c) (trace w) @ pending c"

text \<open>The event mask \<open>epoll\<close> holds for a descriptor.\<close>

definition mask_step :: "int \<Rightarrow> syscall \<Rightarrow> ep_event option \<Rightarrow> ep_event option" where
  "mask_step fd c r = (case c of
       EpollAdd f e \<Rightarrow> if f = fd then Some e else r
     | EpollMod f e \<Rightarrow> if f = fd then Some e else r
     | EpollDel f \<Rightarrow> if f = fd then None else r
     | Close f \<Rightarrow> if f = fd then None else r
     | SysWrite f bs \<Rightarrow> r
     | SetNonBlock f \<Rightarrow> r)"

definition interest :: "int \<Rightarrow> syscall list \<Rightarrow> ep_event option" where
  "interest fd cs = fold (mask_step fd) cs None"

lemma interest_append [simp]: "interest fd (cs @ ds) = fold (mask_step fd) ds (interest fd cs)"
  by (simp add: interest_def)

section \<open>The invariant\<close>

definition conn_ok :: "conn \<Rightarrow> bool" where
  "conn_ok c \<longleftrightarrow>
     length (rbuf c) = buf_cap \<and> length (wbuf c) = buf_cap
     \<and> rbuf_size c < buf_cap
     \<and> wbuf_sent c \<le> wbuf_size c \<and> wbuf_size c \<le> k_max_msg
     \<and> (conn_state c = STATE_REQ \<and> wbuf_size c = 0
        \<or> conn_state c = STATE_RES \<and> wbuf_sent c < wbuf_size c
        \<or> conn_state c = STATE_END)"

definition mask_ok :: "conn \<Rightarrow> io \<Rightarrow> bool" where
  "mask_ok c w \<longleftrightarrow>
     (conn_state c = STATE_REQ \<longrightarrow> interest (conn_fd c) (trace w) = Some EPOLLIN)
     \<and> (conn_state c = STATE_RES \<longrightarrow> interest (conn_fd c) (trace w) = Some EPOLLOUT)"

lemma conn_okD:
  assumes "conn_ok c"
  shows "length (rbuf c) = buf_cap" "length (wbuf c) = buf_cap" "rbuf_size c < buf_cap"
    "wbuf_sent c \<le> wbuf_size c" "wbuf_size c \<le> k_max_msg"
    "conn_state c = STATE_REQ \<Longrightarrow> wbuf_size c = 0 \<and> wbuf_sent c = 0"
    "conn_state c = STATE_RES \<Longrightarrow> wbuf_sent c < wbuf_size c"
  using assms by (auto simp: conn_ok_def)

lemma conn_ok_END: "conn_ok c \<Longrightarrow> conn_ok (c\<lparr>conn_state := STATE_END\<rparr>)"
  by (auto simp: conn_ok_def)

section \<open>Sending\<close>

lemma write_retry_Inr:
  "write_retry fd bs w = Inr (rv, w') \<Longrightarrow>
     rd_script w' = rd_script w \<and> interest g (trace w') = interest g (trace w)
     \<and> (case rv of
          WrErr e \<Rightarrow> e \<noteq> EINTR \<and> written fd (trace w') = written fd (trace w)
        | WrN n \<Rightarrow> n \<le> length bs \<and> written fd (trace w') = written fd (trace w) @ take n bs)"
proof (induction fd bs w rule: write_retry.induct)
  case (1 fd bs w)
  from "1.prems" obtain r w1 where r: "sys_write fd bs w = Inr (r, w1)"
    "(if r = WrErr EINTR then write_retry fd bs w1 else Inr (r, w1)) = Inr (rv, w')"
    by (subst (asm) write_retry.simps) (auto simp: rbind_eq_Inr)
  have st: "rd_script w1 = rd_script w \<and> interest g (trace w1) = interest g (trace w)"
    using r(1) by (auto simp: sys_write_def log_call_def mask_step_def split: list.splits wr_ret.splits if_splits)
  show ?case
  proof (cases "r = WrErr EINTR")
    case True
    with "1.IH" [OF r(1) refl True] r(2) st sys_write_Inr(4) [OF r(1) True] show ?thesis
      by (simp split: wr_ret.splits)
  next
    case False
    with r(2) have "rv = r" "w' = w1" by auto
    with False st sys_write_Inr(3,4) [OF r(1)] show ?thesis
      by (cases r) auto
  qed
qed

lemma write_retry_Inl: "write_retry fd bs w = Inl f \<Longrightarrow> f = EnvStop"
proof (induction fd bs w rule: write_retry.induct)
  case (1 fd bs w)
  from "1.prems" consider "sys_write fd bs w = Inl f"
    | r w1 where "sys_write fd bs w = Inr (r, w1)" "r = WrErr EINTR" "write_retry fd bs w1 = Inl f"
    by (subst (asm) write_retry.simps) (auto simp: rbind_eq_Inl split: if_splits)
  then show ?case
    using "1.IH" by cases (auto dest: sys_write_Inl)
qed

text \<open>A connection whose output is on its way: the wide invariant of \<open>state_res\<close>.\<close>

lemma slice_pending:
  assumes "conn_ok c"
  shows "slice (wbuf c) (wbuf_sent c) (wbuf_size c - wbuf_sent c) = Inr (pending c)"
  using conn_okD [OF assms] by (simp add: slice_def pending_def buf_cap_def)

lemma length_pending: "conn_ok c \<Longrightarrow> length (pending c) = wbuf_size c - wbuf_sent c"
  using conn_okD [of c] by (simp add: pending_def buf_cap_def)

lemma pending_advance:
  assumes "conn_ok c" "wbuf_sent c + n \<le> wbuf_size c"
  shows "take n (pending c) @ pending (c\<lparr>wbuf_sent := wbuf_sent c + n\<rparr>) = pending c"
proof -
  have "wbuf_size c - wbuf_sent c = n + (wbuf_size c - (wbuf_sent c + n))"
    using assms(2) by simp
  then have "pending c = take n (drop (wbuf_sent c) (wbuf c))
      @ take (wbuf_size c - (wbuf_sent c + n)) (drop n (drop (wbuf_sent c) (wbuf c)))"
    by (simp only: pending_def take_add)
  moreover have "take n (pending c) = take n (drop (wbuf_sent c) (wbuf c))"
    using assms(2) by (simp add: pending_def min_absorb1)
  ultimately show ?thesis
    by (simp add: pending_def add.commute)
qed

lemma flush_outcome_ok:
  assumes ok: "conn_ok c" "conn_state c = STATE_RES" "mask_ok c w"
    and wr: "write_retry (conn_fd c) (pending c) w = Inr (rv, w1)"
    and n: "\<And>n. rv = WrN n \<Longrightarrow> wbuf_sent c + n \<le> wbuf_size c"
    and r: "flush_outcome c rv w1 = (again, c', w')"
  shows "conn_ok c' \<and> mask_ok c' w' \<and> out_stream c' w' = out_stream c w \<and> (again \<longrightarrow> conn_state c' = STATE_RES)"
proof (cases rv)
  case (WrErr e)
  with r wr have "w' = w1" "\<not> again" "c' = c \<or> c' = c\<lparr>conn_state := STATE_END\<rparr>"
    by (auto simp: flush_outcome_def split: if_splits)
  moreover have "written (conn_fd c) (trace w1) = written (conn_fd c) (trace w)"
    "interest (conn_fd c) (trace w1) = interest (conn_fd c) (trace w)"
    using write_retry_Inr [OF wr] WrErr by auto
  moreover have "pending (c\<lparr>conn_state := STATE_END\<rparr>) = pending c"
    by (simp add: pending_def)
  ultimately show ?thesis
    using ok conn_ok_END [OF ok(1)] by (auto simp: out_stream_def mask_ok_def)
next
  case (WrN k)
  note le = n [OF WrN]
  have wrk: "written (conn_fd c) (trace w1) = written (conn_fd c) (trace w) @ take k (pending c)"
    "interest (conn_fd c) (trace w1) = interest (conn_fd c) (trace w)"
    using write_retry_Inr [OF wr, of "conn_fd c"] WrN by auto
  note adv = pending_advance [OF ok(1) le]
  show ?thesis
  proof (cases "wbuf_sent c + k = wbuf_size c")
    case True
    with r WrN have e: "\<not> again" "c' = c\<lparr>wbuf_sent := 0, wbuf_size := 0, conn_state := STATE_REQ\<rparr>"
      "w' = log_call (EpollMod (conn_fd c) EPOLLIN) w1"
      by (auto simp: flush_outcome_def)
    have "pending (c\<lparr>wbuf_sent := wbuf_sent c + k\<rparr>) = []" "pending c' = []"
      using True e(2) by (simp_all add: pending_def)
    with adv have "take k (pending c) @ pending c' = pending c" by simp
    with e wrk ok show ?thesis
      by (auto simp: out_stream_def log_call_def mask_ok_def mask_step_def conn_ok_def)
  next
    case False
    with r WrN have e: "again" "c' = c\<lparr>wbuf_sent := wbuf_sent c + k\<rparr>" "w' = w1"
      by (auto simp: flush_outcome_def)
    have "conn_ok c'"
      using ok(1,2) le False e(2) by (auto simp: conn_ok_def)
    moreover have "out_stream c' w' = out_stream c w"
      using adv e wrk by (simp add: out_stream_def)
    ultimately show ?thesis
      using e ok(2,3) wrk by (auto simp: mask_ok_def)
  qed
qed

lemma try_flush_ok:
  assumes "try_flush_buffer c w = Inr (again, c1, w1)"
    and ok: "conn_ok c" "conn_state c = STATE_RES" "mask_ok c w"
  shows "conn_ok c1 \<and> mask_ok c1 w1 \<and> out_stream c1 w1 = out_stream c w
      \<and> (again \<longrightarrow> conn_state c1 = STATE_RES)"
  using assms(1)
proof (rule try_flush_bufferE)
  fix bs rv w2
  assume a: "slice (wbuf c) (wbuf_sent c) (wbuf_size c - wbuf_sent c) = Inr bs"
    "write_retry (conn_fd c) bs w = Inr (rv, w2)"
    "\<And>n. rv = WrN n \<Longrightarrow> wbuf_sent c + n \<le> wbuf_size c" "(again, c1, w1) = flush_outcome c rv w2"
  have "bs = pending c"
    using a(1) slice_pending [OF ok(1)] by simp
  with a show ?thesis
    by (intro flush_outcome_ok [OF ok]) simp_all
qed

lemma state_res_ok:
  "state_res c w = Inr (c', w') \<Longrightarrow> conn_ok c \<Longrightarrow> conn_state c = STATE_RES \<Longrightarrow> mask_ok c w \<Longrightarrow>
     conn_ok c' \<and> mask_ok c' w' \<and> out_stream c' w' = out_stream c w"
proof (induction c w rule: state_res.induct)
  case (1 c w)
  from "1.prems"(1) obtain again c1 w1 where t: "try_flush_buffer c w = Inr (again, c1, w1)"
    "(if again then state_res c1 w1 else Inr (c1, w1)) = Inr (c', w')"
    by (subst (asm) state_res.simps) (auto simp: rbind_eq_Inr)
  from try_flush_ok [OF t(1) "1.prems"(2-4)] "1.IH" [OF t(1) refl refl] t(2) show ?case
    by (cases again) auto
qed

lemma try_flush_Inl:
  "try_flush_buffer c w = Inl f \<Longrightarrow> conn_ok c \<Longrightarrow> f = EnvStop"
proof -
  assume f: "try_flush_buffer c w = Inl f" and ok: "conn_ok c"
  note le = conn_okD(4) [OF ok]
  show "f = EnvStop"
  proof (cases "write_retry (conn_fd c) (pending c) w")
    case (Inl g)
    with f le show ?thesis
      by (auto simp: try_flush_buffer_def slice_pending [OF ok] dest: write_retry_Inl)
  next
    case (Inr r)
    then obtain rv w1 where rw: "write_retry (conn_fd c) (pending c) w = Inr (rv, w1)" by (cases r) auto
    have "wbuf_sent c + n \<le> wbuf_size c" if "rv = WrN n" for n
      using write_retry_Inr [OF rw, of 0] that le length_pending [OF ok] by auto
    with f rw le show ?thesis
      by (cases rv) (auto simp: try_flush_buffer_def slice_pending [OF ok] Let_def split: if_splits)
  qed
qed

lemma state_res_Inl:
  "state_res c w = Inl f \<Longrightarrow> conn_ok c \<Longrightarrow> conn_state c = STATE_RES \<Longrightarrow> mask_ok c w \<Longrightarrow> f = EnvStop"
proof (induction c w rule: state_res.induct)
  case (1 c w)
  from "1.prems"(1) consider "try_flush_buffer c w = Inl f"
    | c1 w1 where "try_flush_buffer c w = Inr (True, c1, w1)" "state_res c1 w1 = Inl f"
    by (subst (asm) state_res.simps) (auto simp: rbind_eq_Inl split: if_splits)
  then show ?case
  proof cases
    case 1
    then show ?thesis by (rule try_flush_Inl [OF _ "1.prems"(2)])
  next
    case (2 c1 w1)
    have "conn_ok c1 \<and> mask_ok c1 w1 \<and> conn_state c1 = STATE_RES"
      using try_flush_ok [OF 2(1) "1.prems"(2-4)] by simp
    with "1.IH" [OF 2(1) refl refl] 2(2) show ?thesis by simp
  qed
qed

section \<open>What handling a connection may touch\<close>

definition own_call :: "int \<Rightarrow> syscall \<Rightarrow> bool" where
  "own_call fd c \<longleftrightarrow> (case c of SysWrite f bs \<Rightarrow> f = fd | EpollMod f e \<Rightarrow> f = fd | _ \<Rightarrow> False)"

definition own_calls :: "int \<Rightarrow> io \<Rightarrow> io \<Rightarrow> bool" where
  "own_calls fd w w' \<longleftrightarrow> (\<exists>cs. trace w' = trace w @ cs \<and> list_all (own_call fd) cs)"

lemma own_calls_refl: "trace w' = trace w \<Longrightarrow> own_calls fd w w'"
  by (simp add: own_calls_def)

lemma own_calls_trans: "own_calls fd w w1 \<Longrightarrow> own_calls fd w1 w2 \<Longrightarrow> own_calls fd w w2"
  by (fastforce simp: own_calls_def)

lemma own_calls_log: "own_call fd c \<Longrightarrow> own_calls fd w (log_call c w)"
  by (simp add: own_calls_def log_call_def)

lemma own_calls_interest:
  assumes "own_calls fd w w'" "g \<noteq> fd"
  shows "interest g (trace w') = interest g (trace w)"
proof -
  have "list_all (own_call fd) cs \<Longrightarrow> fold (mask_step g) cs r = r" for cs r
    using assms(2) by (induction cs) (auto simp: own_call_def mask_step_def split: syscall.splits)
  then show ?thesis
    using assms(1) by (auto simp: own_calls_def interest_def)
qed

lemma own_calls_write_retry: "write_retry fd bs w = Inr (rv, w') \<Longrightarrow> own_calls fd w w'"
proof (induction fd bs w rule: write_retry.induct)
  case (1 fd bs w)
  from "1.prems" obtain r w1 where r: "sys_write fd bs w = Inr (r, w1)"
    "(if r = WrErr EINTR then write_retry fd bs w1 else Inr (r, w1)) = Inr (rv, w')"
    by (subst (asm) write_retry.simps) (auto simp: rbind_eq_Inr)
  have "own_calls fd w w1"
    using r(1) by (auto simp: sys_write_def own_calls_def log_call_def own_call_def
        split: list.splits wr_ret.splits if_splits)
  with r(2) "1.IH" [OF r(1) refl] show ?case
    by (auto intro: own_calls_trans split: if_splits)
qed

lemma own_calls_state_res: "state_res c w = Inr (c', w') \<Longrightarrow> own_calls (conn_fd c) w w'"
proof (induction c w rule: state_res.induct)
  case (1 c w)
  from "1.prems" obtain again c1 w1 where t: "try_flush_buffer c w = Inr (again, c1, w1)"
    "(if again then state_res c1 w1 else Inr (c1, w1)) = Inr (c', w')"
    by (subst (asm) state_res.simps) (auto simp: rbind_eq_Inr)
  from t(1) have 1: "own_calls (conn_fd c) w w1 \<and> conn_fd c1 = conn_fd c"
  proof (rule try_flush_bufferE)
    fix bs rv w2
    assume a: "write_retry (conn_fd c) bs w = Inr (rv, w2)" "(again, c1, w1) = flush_outcome c rv w2"
    have "own_calls (conn_fd c) w2 w1"
      using a(2) by (auto simp: flush_outcome_def own_call_def intro!: own_calls_refl own_calls_log
          split: wr_ret.splits if_splits)
    then show ?thesis
      using own_calls_trans [OF own_calls_write_retry [OF a(1)]] flush_outcome_frame [OF a(2) [symmetric]]
      by blast
  qed
  show ?case
  proof (cases again)
    case True
    with "1.IH" [OF t(1) refl refl] t(2) 1 show ?thesis
      by (auto intro: own_calls_trans)
  qed (use t(2) 1 in auto)
qed

section \<open>Framing\<close>

text \<open>What the front of the input buffer holds.\<close>

datatype inframe = Incomplete | BadFrame | Request "bytes list" bytes

definition next_frame :: "bytes \<Rightarrow> inframe" where
  "next_frame bs =
     (if length bs < 4 then Incomplete
      else let len = unat (dec32 (take 4 bs)) in
        if k_max_msg < len then BadFrame
        else if length bs - 4 < len then Incomplete
        else case parse_req (take len (drop 4 bs)) len [] of
            Inl f \<Rightarrow> BadFrame
          | Inr (rv, cmd) \<Rightarrow> if rv = 0 then Request cmd (drop (4 + len) bs) else BadFrame)"

lemma next_frame_Request:
  "next_frame bs = Request cmd rest \<longleftrightarrow>
     bs = frame (enc_req cmd) @ rest \<and> length (enc_req cmd) \<le> k_max_msg \<and> length cmd \<le> k_max_msg"
proof
  assume a: "next_frame bs = Request cmd rest"
  define len where "len = unat (dec32 (take 4 bs))"
  from a have b: "4 \<le> length bs" "len \<le> k_max_msg" "len \<le> length bs - 4" "rest = drop (4 + len) bs"
    "parse_req (take len (drop 4 bs)) len [] = Inr (0, cmd)"
    by (auto simp: next_frame_def len_def Let_def split: if_splits sum.splits)
  from parse_req_sound [OF _ b(5)] b(3) have e: "take len (drop 4 bs) = enc_req cmd" "length cmd \<le> k_max_msg"
    by simp_all
  then have l: "length (enc_req cmd) = len"
    using b(1,3) by (metis length_drop length_take min.absorb2)
  have "take 4 bs = le32 (of_nat len)"
    using b(1) by (simp add: len_def le32_dec32)
  moreover have "bs = take 4 bs @ take len (drop 4 bs) @ drop len (drop 4 bs)"
    by (metis append_take_drop_id)
  ultimately show "bs = frame (enc_req cmd) @ rest \<and> length (enc_req cmd) \<le> k_max_msg \<and> length cmd \<le> k_max_msg"
    using e l b(2,4) by (simp add: frame_def add.commute)
next
  assume a: "bs = frame (enc_req cmd) @ rest \<and> length (enc_req cmd) \<le> k_max_msg \<and> length cmd \<le> k_max_msg"
  then have n: "unat (of_nat (length (enc_req cmd)) :: u32) = length (enc_req cmd)"
    by (intro unat_of_nat_u32) (simp add: k_max_msg_def)
  have "\<forall>s \<in> set cmd. length s < 2 ^ 32"
    using a enc_arg_length_bound by (fastforce simp: k_max_msg_def)
  then have "parse_req (enc_req cmd @ []) (length (enc_req cmd)) [] = Inr (0, cmd)"
    using a by (intro parse_req_complete) simp_all
  with a n show "next_frame bs = Request cmd rest"
    by (simp add: next_frame_def frame_def dec32_take_le32 dec32_le32 Let_def)
qed

text \<open>The contract of the request format.\<close>

definition request_frame :: "bytes list \<Rightarrow> bytes" where
  "request_frame cmd = frame (enc_req cmd)"

definition next_request :: "bytes \<Rightarrow> (bytes list \<times> bytes) option" where
  "next_request bs = (case next_frame bs of Request cmd rest \<Rightarrow> Some (cmd, rest) | _ \<Rightarrow> None)"

definition valid_request :: "bytes list \<Rightarrow> bool" where
  "valid_request cmd \<longleftrightarrow> length (enc_req cmd) \<le> k_max_msg \<and> length cmd \<le> k_max_msg"

interpretation req: framing request_frame next_request valid_request
proof
  fix bs cmd rest
  show "next_request bs = Some (cmd, rest) \<longleftrightarrow> valid_request cmd \<and> bs = request_frame cmd @ rest"
    using next_frame_Request [of bs cmd rest]
    by (auto simp: next_request_def request_frame_def valid_request_def split: inframe.splits)
qed

text \<open>The response that goes out for \<open>out\<close>, and the connection that carries it.\<close>

definition fit :: "bytes \<Rightarrow> bytes" where
  "fit out = (if k_max_msg < 4 + length out
              then out_err [] ERR_2BIG (ascii ''response is too big'') else out)"

definition answer :: "conn \<Rightarrow> bytes \<Rightarrow> bytes \<Rightarrow> conn" where
  "answer c rest out = c\<lparr>wbuf := frame out @ drop (4 + length out) (wbuf c), wbuf_size := 4 + length out,
     rbuf := rest @ drop (length rest) (rbuf c), rbuf_size := length rest, conn_state := STATE_RES\<rparr>"

lemma length_fit: "4 + length (fit out) \<le> k_max_msg"
  by (simp add: fit_def ascii_def k_max_msg_def)

lemma length_inbuf: "conn_ok c \<Longrightarrow> length (inbuf c) = rbuf_size c"
  using conn_okD(1,3) [of c] by (simp add: inbuf_def)

text \<open>\<open>try_one_request\<close>, exactly, on each of its branches.\<close>

lemma try_one_request_eq:
  assumes ok: "conn_ok c"
  shows "try_one_request c s w = (case next_frame (inbuf c) of
       Incomplete \<Rightarrow> Inr (False, c, s, w)
     | BadFrame \<Rightarrow> Inr (False, c\<lparr>conn_state := STATE_END\<rparr>, s, w)
     | Request cmd rest \<Rightarrow>
         rbind (do_request s cmd []) (\<lambda>(s1, out).
         rbind (state_res (answer c rest (fit out)) (log_call (EpollMod (conn_fd c) EPOLLOUT) w))
           (\<lambda>(c3, w1). Inr (conn_state c3 = STATE_REQ, c3, s1, w1))))"
proof (cases "rbuf_size c < 4")
  case True
  then show ?thesis
    by (simp add: try_one_request_def next_frame_def length_inbuf [OF ok])
next
  case False
  note cap = conn_okD(1-3) [OF ok]
  define len where "len = unat (dec32 (take 4 (rbuf c)))"
  have t4: "take 4 (inbuf c) = take 4 (rbuf c)"
    using False by (simp add: inbuf_def min_absorb1)
  have rd: "rd32 (rbuf c) 0 = Inr (dec32 (take 4 (rbuf c)))"
    using False cap by (simp add: rd32_in)
  consider "k_max_msg < len" | "len \<le> k_max_msg" "rbuf_size c - 4 < len"
    | "len \<le> k_max_msg" "len \<le> rbuf_size c - 4" by linarith
  then show ?thesis
  proof cases
    case 3
    have pay: "take len (drop 4 (inbuf c)) = take len (drop 4 (rbuf c))"
      using 3 by (simp add: inbuf_def drop_take min_absorb1)
    have "len \<le> length (drop 4 (rbuf c))"
      using 3 cap by simp
    then have pr: "parse_req (take len (drop 4 (inbuf c))) len [] = parse_req (drop 4 (rbuf c)) len []"
      "\<exists>r cmd. parse_req (drop 4 (rbuf c)) len [] = Inr (r, cmd)"
      using parse_req_take parse_req_total [of len "drop 4 (rbuf c)" "[]"] unfolding pay by auto
    then obtain rv cmd where p: "parse_req (drop 4 (rbuf c)) len [] = Inr (rv, cmd)" by blast
    show ?thesis
    proof (cases "rv = 0")
      case True
      let ?rest = "drop (4 + len) (inbuf c)"
      have nf: "next_frame (inbuf c) = Request cmd ?rest"
        using False 3 p True pr(1) by (simp add: next_frame_def length_inbuf [OF ok] t4 len_def Let_def)
      have lr: "length ?rest = rbuf_size c - (4 + len)"
        by (simp add: length_inbuf [OF ok])
      have buf: "(if rbuf_size c - (4 + len) \<noteq> 0
             then rbind (slice (rbuf c) (4 + len) (rbuf_size c - (4 + len))) (\<lambda>bs. blit (rbuf c) 0 bs)
             else Inr (rbuf c)) = Inr (?rest @ drop (length ?rest) (rbuf c))"
        using 3 cap False by (simp add: lr slice_def blit_def inbuf_def drop_take) linarith
      have wb: "blit (wbuf c) 0 (le32 (of_nat (length out))) = Inr (le32 (of_nat (length out)) @ drop 4 (wbuf c))"
        "blit (le32 (of_nat (length out)) @ drop 4 (wbuf c)) 4 out = Inr (frame out @ drop (4 + length out) (wbuf c))"
        "unat (4 + of_nat (length out) :: u32) = 4 + length out"
        if "4 + length out \<le> k_max_msg" for out
        using that cap unat_of_nat_u32 [of "4 + length out"]
        by (simp_all add: blit_def frame_def buf_cap_def k_max_msg_def add.commute)
      show ?thesis
      proof (cases "do_request s cmd []")
        case (Inl f)
        then show ?thesis
          using False 3 p True rd nf by (simp add: try_one_request_def len_def)
      next
        case (Inr r)
        then obtain s1 out0 where r: "do_request s cmd [] = Inr (s1, out0)" by (cases r) auto
        have "try_one_request c s w = (let out = fit out0; wlen = of_nat (length out) :: u32 in
            rbind (blit (wbuf c) 0 (le32 wlen)) (\<lambda>wb1. rbind (blit wb1 4 out) (\<lambda>wb2.
            rbind (if rbuf_size c - (4 + len) \<noteq> 0
               then rbind (slice (rbuf c) (4 + len) (rbuf_size c - (4 + len))) (\<lambda>bs. blit (rbuf c) 0 bs)
               else Inr (rbuf c)) (\<lambda>rb.
            rbind (state_res (c\<lparr>wbuf := wb2, wbuf_size := unat (4 + wlen), rbuf := rb,
                rbuf_size := rbuf_size c - (4 + len), conn_state := STATE_RES\<rparr>)
              (log_call (EpollMod (conn_fd c) EPOLLOUT) w)) (\<lambda>(c3, w1).
              Inr (conn_state c3 = STATE_REQ, c3, s1, w1))))))"
          using False 3 p True rd r by (simp add: try_one_request_def len_def fit_def Let_def)
        then show ?thesis
          using length_fit [of out0] wb [of "fit out0"] buf lr r nf
          by (simp add: Let_def answer_def)
      qed
    next
      case nz: False
      then have "next_frame (inbuf c) = BadFrame"
        using False 3 p pr(1) by (simp add: next_frame_def length_inbuf [OF ok] t4 len_def Let_def)
      then show ?thesis
        using False 3 p rd nz by (simp add: try_one_request_def len_def)
    qed
  qed (use False rd in \<open>simp_all add: try_one_request_def next_frame_def length_inbuf [OF ok] t4 len_def Let_def\<close>)
qed

section \<open>What a run of the connection has served\<close>

text \<open>
  \<open>ran c s w cmds outs c' s' w'\<close>: between the two moments exactly the requests
  \<open>cmds\<close> were taken off the input stream, executed one after the other on the key space,
  and their replies \<open>outs\<close> put on the output stream, one frame each.
  \<open>served\<close> adds that the replies and the final map are those of the abstract machine.
\<close>

definition ran :: "conn \<Rightarrow> db \<Rightarrow> io \<Rightarrow> bytes list list \<Rightarrow> bytes list \<Rightarrow> conn \<Rightarrow> db \<Rightarrow> io \<Rightarrow> bool" where
  "ran c s w cmds outs c' s' w' \<longleftrightarrow>
     in_stream c w = concat (map request_frame cmds) @ in_stream c' w'
     \<and> out_stream c' w' = out_stream c w @ concat (map (\<lambda>out. frame (fit out)) outs)
     \<and> (\<forall>cmd \<in> set cmds. valid_request cmd)
     \<and> run_cmds exec s cmds = Inr (s', outs)"

definition served :: "conn \<Rightarrow> db \<Rightarrow> io \<Rightarrow> (bytes \<rightharpoonup> bytes) \<Rightarrow> conn \<Rightarrow> db \<Rightarrow> io \<Rightarrow> (bytes \<rightharpoonup> bytes) \<Rightarrow> bool" where
  "served c s w M c' s' w' M' \<longleftrightarrow> conn_fd c' = conn_fd c \<and> own_calls (conn_fd c) w w' \<and>
     (\<exists>cmds outs. ran c s w cmds outs c' s' w'
        \<and> replies_ok M (map classify cmds) outs \<and> M' = foldl abs_step M (map classify cmds))"

definition room :: "(bytes \<rightharpoonup> bytes) \<Rightarrow> conn \<Rightarrow> io \<Rightarrow> bool" where
  "room M c w \<longleftrightarrow> finite (dom M) \<and> card (dom M) + length (in_stream c w) + 1 < 2 ^ 60"

definition link_ok :: "conn \<Rightarrow> db \<Rightarrow> io \<Rightarrow> (bytes \<rightharpoonup> bytes) \<Rightarrow> bool" where
  "link_ok c s w M \<longleftrightarrow> conn_ok c \<and> mask_ok c w \<and> db_rep s M \<and> short_vals M \<and> room M c w"

lemma replies_ok_append:
  "replies_ok M cs outs \<Longrightarrow> replies_ok (foldl abs_step M cs) cs' outs' \<Longrightarrow> replies_ok M (cs @ cs') (outs @ outs')"
  by (induction M cs outs rule: replies_ok.induct) auto

lemma ran_none:
  "in_stream c' w' = in_stream c w \<Longrightarrow> out_stream c' w' = out_stream c w \<Longrightarrow> ran c s w [] [] c' s w'"
  by (simp add: ran_def)

lemma ran_append:
  "ran c s w xs os c1 s1 w1 \<Longrightarrow> ran c1 s1 w1 ys ps c2 s2 w2 \<Longrightarrow> ran c s w (xs @ ys) (os @ ps) c2 s2 w2"
  unfolding ran_def by (auto intro: run_cmds_append)

lemma served_refl:
  "in_stream c' w' = in_stream c w \<Longrightarrow> out_stream c' w' = out_stream c w \<Longrightarrow> conn_fd c' = conn_fd c \<Longrightarrow>
     own_calls (conn_fd c) w w' \<Longrightarrow> served c s w M c' s w' M"
  unfolding served_def using ran_none [of c' w' c w s] by (auto intro!: exI [of _ "[]"])

lemma served_trans:
  assumes "served c s w M c1 s1 w1 M1" and "served c1 s1 w1 M1 c2 s2 w2 M2"
  shows "served c s w M c2 s2 w2 M2"
proof -
  from assms(1) obtain xs os where 1: "ran c s w xs os c1 s1 w1"
    "replies_ok M (map classify xs) os" "M1 = foldl abs_step M (map classify xs)"
    unfolding served_def by blast
  from assms(2) obtain ys ps where 2: "ran c1 s1 w1 ys ps c2 s2 w2"
    "replies_ok M1 (map classify ys) ps" "M2 = foldl abs_step M1 (map classify ys)"
    unfolding served_def by blast
  have "own_calls (conn_fd c) w w2"
    using assms own_calls_trans by (auto simp: served_def)
  moreover have "replies_ok M (map classify (xs @ ys)) (os @ ps)"
    using replies_ok_append [OF 1(2)] 1(3) 2(2) by simp
  moreover have "conn_fd c2 = conn_fd c"
    using assms by (simp add: served_def)
  ultimately show ?thesis
    unfolding served_def using 1(3) 2(3) ran_append [OF 1(1) 2(1)]
    by (intro conjI exI [of _ "xs @ ys"] exI [of _ "os @ ps"]) simp_all
qed

lemma card_foldl:
  "finite (dom M) \<Longrightarrow> finite (dom (foldl abs_step M cs)) \<and> card (dom (foldl abs_step M cs)) \<le> card (dom M) + length cs"
proof (induction cs arbitrary: M)
  case (Cons c cs)
  from card_step [OF Cons.prems, of c]
  have "finite (dom (abs_step M c))" "card (dom (abs_step M c)) \<le> card (dom M) + 1" by simp_all
  with Cons.IH [OF this(1)] show ?case by simp
qed simp

lemma length_frame [simp]: "length (frame bs) = 4 + length bs"
  by (simp add: frame_def)

lemma served_room:
  assumes "served c s w M c' s' w' M'" and "room M c w"
  shows "room M' c' w'"
proof -
  from assms(1) obtain cmds where 1: "in_stream c w = concat (map request_frame cmds) @ in_stream c' w'"
    "M' = foldl abs_step M (map classify cmds)"
    unfolding served_def ran_def by blast
  have "length cmds \<le> length (concat (map request_frame cmds))"
    by (induction cmds) (auto simp: request_frame_def)
  then show ?thesis
    using card_foldl [of M "map classify cmds"] assms(2) arg_cong [OF 1(1), of length] 1(2)
    unfolding room_def by auto
qed

lemma room_roomy: "room M c w \<Longrightarrow> roomy M"
  by (simp add: room_def roomy_def)

section \<open>What can stop a connection\<close>

text \<open>
  \<open>resize_stops s cmd\<close>: \<open>cmd\<close> sets a key no entry carries, and the resize it triggers
  meets an empty bucket (\<open>set_crashes\<close>).  \<open>resize_crash c s w\<close>: such a command lies on the
  input of the connection, behind requests that are executed before it.
\<close>

definition resize_stops :: "db \<Rightarrow> bytes list \<Rightarrow> bool" where
  "resize_stops s cmd \<longleftrightarrow>
     (\<exists>bss k v. db_ok s bss \<and> classify cmd = KSet k v
        \<and> (\<forall>a e. db_entries s a = Some e \<longrightarrow> e_key e \<noteq> k) \<and> set_crashes s bss k)"

definition resize_crash :: "conn \<Rightarrow> db \<Rightarrow> io \<Rightarrow> bool" where
  "resize_crash c s w \<longleftrightarrow>
     (\<exists>cmds cmd rest s1 outs. in_stream c w = concat (map request_frame cmds) @ request_frame cmd @ rest
        \<and> run_cmds exec s cmds = Inr (s1, outs) \<and> resize_stops s1 cmd)"

text \<open>
  \<open>fills\<close>: rounds of \<open>state_req\<close> that each go on to the next.  \<open>buffer_full\<close>: after some
  of them a \<open>read\<close> fills the read buffer to its last byte.
\<close>

inductive fills :: "conn \<Rightarrow> db \<Rightarrow> io \<Rightarrow> conn \<Rightarrow> db \<Rightarrow> io \<Rightarrow> bool" where
  none: "fills c s w c s w"
| more: "try_fill_buffer c s w = Inr (True, c1, s1, w1) \<Longrightarrow> fills c1 s1 w1 c2 s2 w2 \<Longrightarrow> fills c s w c2 s2 w2"

definition buffer_full :: "conn \<Rightarrow> db \<Rightarrow> io \<Rightarrow> bool" where
  "buffer_full c s w \<longleftrightarrow> conn_state c = STATE_REQ \<and>
     (\<exists>c1 s1 w1 bs w2. fills c s w c1 s1 w1
        \<and> read_retry (buf_cap - rbuf_size c1) w1 = Inr (RdData bs, w2) \<and> rbuf_size c1 + length bs = buf_cap)"

lemma resize_stops_request:
  assumes rep: "db_rep s M" "short_vals M" "roomy M" and d: "do_request s cmd [] = Inl f"
  shows "f = NullDeref \<and> resize_stops s cmd"
proof -
  from rep(1) obtain bss where b: "db_ok s bss" "view (db_entries s) M" by (auto simp: db_rep_def)
  from do_request_exact [OF b rep(2,3), of cmd] d
  have f: "f = NullDeref" and c: "request_crashes s bss M (classify cmd)" by (auto split: if_splits)
  from c obtain k v where k: "classify cmd = KSet k v" "M k = None" "set_crashes s bss k"
    by (auto simp: request_crashes_def split: kcmd.splits)
  moreover have "e_key e \<noteq> k" if "db_entries s a = Some e" for a e
    by (rule view_absent [OF b(2) k(2) that])
  ultimately show ?thesis
    using f b(1) unfolding resize_stops_def by blast
qed

lemma resize_crash_trans:
  assumes "served c s w M c1 s1 w1 M1" and "resize_crash c1 s1 w1"
  shows "resize_crash c s w"
proof -
  from assms(1) obtain xs os where x: "in_stream c w = concat (map request_frame xs) @ in_stream c1 w1"
    "run_cmds exec s xs = Inr (s1, os)"
    unfolding served_def ran_def by blast
  from assms(2) obtain ys cmd rest s2 ps where y:
    "in_stream c1 w1 = concat (map request_frame ys) @ request_frame cmd @ rest"
    "run_cmds exec s1 ys = Inr (s2, ps)" "resize_stops s2 cmd"
    unfolding resize_crash_def by blast
  show ?thesis
    unfolding resize_crash_def using x(1) y(1,3) run_cmds_append [OF x(2) y(2)]
    by (intro exI [of _ "xs @ ys"] exI [of _ cmd] exI [of _ rest] exI [of _ s2] exI [of _ "os @ ps"]) simp
qed

section \<open>One request\<close>

lemma short_request:
  assumes "length (enc_req cmd) \<le> k_max_msg"
  shows "short_cmd (classify cmd)"
proof -
  have "length (cmd ! 2) < k_max_msg" if "length cmd = 3"
    using enc_arg_length_bound [of "cmd ! 2" cmd] that assms by simp
  then show ?thesis
    by (simp add: classify_def)
qed

lemma answer_simps [simp]:
  "conn_fd (answer c rest out) = conn_fd c" "conn_state (answer c rest out) = STATE_RES"
  "inbuf (answer c rest out) = rest"
  by (simp_all add: answer_def inbuf_def)

lemma answer_ok:
  assumes ok: "conn_ok c" "conn_state c = STATE_REQ" and "length rest \<le> rbuf_size c" "4 + length out \<le> k_max_msg"
  shows "conn_ok (answer c rest out)" "pending (answer c rest out) = frame out"
  using conn_okD [OF ok(1)] assms(2-4) by (auto simp: conn_ok_def answer_def pending_def buf_cap_def)

lemma pending_REQ: "conn_ok c \<Longrightarrow> conn_state c = STATE_REQ \<Longrightarrow> pending c = []"
  by (simp add: pending_def conn_ok_def)

lemma pending_END [simp]: "pending (c\<lparr>conn_state := st\<rparr>) = pending c" "inbuf (c\<lparr>conn_state := st\<rparr>) = inbuf c"
  by (simp_all add: pending_def inbuf_def)

lemma link_END:
  "link_ok c s w M \<Longrightarrow> link_ok (c\<lparr>conn_state := STATE_END\<rparr>) s w M \<and> served c s w M (c\<lparr>conn_state := STATE_END\<rparr>) s w M"
  by (auto simp: link_ok_def conn_ok_END mask_ok_def room_def in_stream_def out_stream_def
      intro!: served_refl own_calls_refl)

lemma try_one_request_ok:
  assumes ok: "link_ok c s w M" "conn_state c = STATE_REQ"
    and run: "try_one_request c s w = Inr (again, c', s', w')"
  shows "\<exists>M'. link_ok c' s' w' M' \<and> served c s w M c' s' w' M' \<and> (again \<longrightarrow> conn_state c' = STATE_REQ)"
proof (cases "next_frame (inbuf c)")
  case Incomplete
  with run ok show ?thesis
    using served_refl [of c w c w s M] by (auto simp: try_one_request_eq link_ok_def own_calls_refl)
next
  case BadFrame
  with run ok link_END [OF ok(1)] show ?thesis
    by (auto simp: try_one_request_eq link_ok_def)
next
  case (Request cmd rest)
  then have nf: "inbuf c = frame (enc_req cmd) @ rest" "length (enc_req cmd) \<le> k_max_msg" "length cmd \<le> k_max_msg"
    by (simp_all add: next_frame_Request)
  have c: "conn_ok c" "mask_ok c w" "db_rep s M" "short_vals M" "room M c w"
    using ok(1) by (simp_all add: link_ok_def)
  let ?w = "log_call (EpollMod (conn_fd c) EPOLLOUT) w"
  from run Request obtain out where d: "do_request s cmd [] = Inr (s', out)"
    and st: "state_res (answer c rest (fit out)) ?w = Inr (c', w')" "again \<longleftrightarrow> conn_state c' = STATE_REQ"
    by (auto simp: try_one_request_eq [OF c(1)] rbind_eq_Inr)
  from srv.exec_ok [OF c(3,4) room_roomy [OF c(5)] d]
  have ab: "db_rep s' (abs_step M (classify cmd))" "reply_ok M (classify cmd) out" by simp_all
  have len: "length rest \<le> rbuf_size c"
    using arg_cong [OF nf(1), of length] length_inbuf [OF c(1)] by simp
  note aok = answer_ok [OF c(1) ok(2) len length_fit]
  have "mask_ok (answer c rest (fit out)) ?w"
    by (simp add: mask_ok_def log_call_def mask_step_def)
  from state_res_ok [OF st(1) aok(1) _ this]
  have so: "conn_ok c'" "mask_ok c' w'" "out_stream c' w' = out_stream (answer c rest (fit out)) ?w"
    by simp_all
  have fr: "inbuf c' = rest" "conn_fd c' = conn_fd c" "rd_script w' = rd_script w"
    using state_res_frame [OF st(1)] by (simp_all add: inbuf_def log_call_def answer_def)
  have "out_stream c' w' = out_stream c w @ frame (fit out)"
    using so(3) aok(2) pending_REQ [OF c(1) ok(2)] by (simp add: out_stream_def log_call_def)
  moreover have "own_calls (conn_fd c) w w'"
    using own_calls_trans [OF own_calls_log own_calls_state_res [OF st(1), simplified]]
    by (simp add: own_call_def)
  ultimately have sv: "served c s w M c' s' w' (abs_step M (classify cmd))"
    unfolding served_def ran_def using fr nf ab(2) d
    by (auto simp: in_stream_def request_frame_def valid_request_def intro!: exI [of _ "[cmd]"] exI [of _ "[out]"])
  moreover have "link_ok c' s' w' (abs_step M (classify cmd))"
    using so(1,2) ab(1) short_vals_step [OF c(4) short_request [OF nf(2)]] served_room [OF sv c(5)]
    by (simp add: link_ok_def)
  ultimately show ?thesis
    using st(2) by blast
qed

lemma try_one_request_Inl:
  assumes ok: "link_ok c s w M" "conn_state c = STATE_REQ"
    and run: "try_one_request c s w = Inl f"
  shows "f = EnvStop \<or> f = NullDeref \<and> resize_crash c s w"
proof -
  have c: "conn_ok c" "mask_ok c w" "db_rep s M" "short_vals M" "room M c w"
    using ok(1) by (simp_all add: link_ok_def)
  show ?thesis
  proof (cases "next_frame (inbuf c)")
    case (Request cmd rest)
    let ?w = "log_call (EpollMod (conn_fd c) EPOLLOUT) w"
    from run Request consider "do_request s cmd [] = Inl f"
      | out where "state_res (answer c rest (fit out)) ?w = Inl f"
      by (auto simp: try_one_request_eq [OF c(1)] rbind_eq_Inl)
    then show ?thesis
    proof cases
      case 1
      from resize_stops_request [OF c(3,4) room_roomy [OF c(5)] 1]
      have "f = NullDeref" "resize_stops s cmd" by simp_all
      moreover from Request have "in_stream c w = request_frame cmd @ rest @ rd_bytes (rd_script w)"
        by (simp add: next_frame_Request in_stream_def request_frame_def)
      ultimately show ?thesis
        unfolding resize_crash_def by (intro disjI2 conjI exI [of _ "[] :: bytes list list"] exI [of _ cmd]) auto
    next
      case (2 out)
      have "length rest \<le> rbuf_size c"
        using Request length_inbuf [OF c(1)] by (auto simp: next_frame_Request)
      then have "conn_ok (answer c rest (fit out))"
        by (rule answer_ok [OF c(1) ok(2) _ length_fit])
      then show ?thesis
        using state_res_Inl [OF 2] by (simp add: mask_ok_def log_call_def mask_step_def)
    qed
  qed (use run in \<open>simp_all add: try_one_request_eq [OF c(1)]\<close>)
qed

section \<open>The loops\<close>

lemma request_loop_ok:
  "request_loop c s w = Inr (c', s', w') \<Longrightarrow> link_ok c s w M \<Longrightarrow> conn_state c = STATE_REQ \<Longrightarrow>
     \<exists>M'. link_ok c' s' w' M' \<and> served c s w M c' s' w' M'"
proof (induction c s w arbitrary: M rule: request_loop.induct)
  case (1 c s w)
  from "1.prems"(1) obtain again c1 s1 w1 where t: "try_one_request c s w = Inr (again, c1, s1, w1)"
    "(if again then request_loop c1 s1 w1 else Inr (c1, s1, w1)) = Inr (c', s', w')"
    by (subst (asm) request_loop.simps) (auto simp: rbind_eq_Inr)
  from try_one_request_ok [OF "1.prems"(2,3) t(1)] obtain M1 where
    m: "link_ok c1 s1 w1 M1" "served c s w M c1 s1 w1 M1" "again \<longrightarrow> conn_state c1 = STATE_REQ" by blast
  show ?case
  proof (cases again)
    case True
    with t(2) m(3) "1.IH" [OF t(1) refl refl refl True _ m(1)] obtain M' where
      "link_ok c' s' w' M'" "served c1 s1 w1 M1 c' s' w' M'" by auto
    with served_trans [OF m(2)] show ?thesis by blast
  qed (use t(2) m in auto)
qed

lemma request_loop_Inl:
  "request_loop c s w = Inl f \<Longrightarrow> link_ok c s w M \<Longrightarrow> conn_state c = STATE_REQ \<Longrightarrow>
     f = EnvStop \<or> f = NullDeref \<and> resize_crash c s w"
proof (induction c s w arbitrary: M rule: request_loop.induct)
  case (1 c s w)
  from "1.prems"(1) consider "try_one_request c s w = Inl f"
    | c1 s1 w1 where "try_one_request c s w = Inr (True, c1, s1, w1)" "request_loop c1 s1 w1 = Inl f"
    by (subst (asm) request_loop.simps) (auto simp: rbind_eq_Inl split: if_splits)
  then show ?case
  proof cases
    case 1
    then show ?thesis by (rule try_one_request_Inl [OF "1.prems"(2,3)])
  next
    case (2 c1 s1 w1)
    from try_one_request_ok [OF "1.prems"(2,3) 2(1)] obtain M1 where
      m: "link_ok c1 s1 w1 M1" "conn_state c1 = STATE_REQ" "served c s w M c1 s1 w1 M1" by blast
    with "1.IH" [OF 2(1) refl refl refl] 2(2) have "f = EnvStop \<or> f = NullDeref \<and> resize_crash c1 s1 w1" by simp
    with resize_crash_trans [OF m(3)] show ?thesis by blast
  qed
qed

lemma read_retry_Inr:
  "read_retry cap w = Inr (rv, w') \<Longrightarrow>
     trace w' = trace w \<and> (case rv of
         RdErr e \<Rightarrow> rd_bytes (rd_script w') = rd_bytes (rd_script w)
       | RdData bs \<Rightarrow> length bs \<le> cap \<and> rd_bytes (rd_script w) = bs @ rd_bytes (rd_script w'))"
proof (induction cap w rule: read_retry.induct)
  case (1 cap w)
  from "1.prems" obtain r w1 where r: "sys_read cap w = Inr (r, w1)"
    "(if r = RdErr EINTR then read_retry cap w1 else Inr (r, w1)) = Inr (rv, w')"
    by (subst (asm) read_retry.simps) (auto simp: rbind_eq_Inr)
  have st: "trace w1 = trace w \<and> (case r of
         RdErr e \<Rightarrow> rd_bytes (rd_script w1) = rd_bytes (rd_script w)
       | RdData bs \<Rightarrow> length bs \<le> cap \<and> rd_bytes (rd_script w) = bs @ rd_bytes (rd_script w1))"
    using r(1) by (auto simp: sys_read_def split: list.splits rd_ret.splits if_splits)
  show ?case
  proof (cases "r = RdErr EINTR")
    case True
    with "1.IH" [OF r(1) refl True] r(2) st show ?thesis by (auto split: rd_ret.splits)
  qed (use r(2) st in auto)
qed

lemma read_retry_Inl: "read_retry cap w = Inl f \<Longrightarrow> f = EnvStop"
proof (induction cap w rule: read_retry.induct)
  case (1 cap w)
  from "1.prems" consider "sys_read cap w = Inl f"
    | r w1 where "sys_read cap w = Inr (r, w1)" "r = RdErr EINTR" "read_retry cap w1 = Inl f"
    by (subst (asm) read_retry.simps) (auto simp: rbind_eq_Inl split: if_splits)
  then show ?case
    using "1.IH" by cases (auto dest: sys_read_Inl)
qed

text \<open>The connection after a successful \<open>read\<close>.\<close>

definition filled :: "conn \<Rightarrow> bytes \<Rightarrow> conn" where
  "filled c bs = c\<lparr>rbuf := take (rbuf_size c) (rbuf c) @ bs @ drop (rbuf_size c + length bs) (rbuf c),
                   rbuf_size := rbuf_size c + length bs\<rparr>"

lemma try_fill_buffer_eq:
  assumes ok: "conn_ok c" and rd: "read_retry (buf_cap - rbuf_size c) w = Inr (rv, w1)"
  shows "try_fill_buffer c s w = (case rv of
       RdErr e \<Rightarrow> Inr (False, if e = EAGAIN then c else c\<lparr>conn_state := STATE_END\<rparr>, s, w1)
     | RdData bs \<Rightarrow>
         if bs = [] then Inr (False, c\<lparr>conn_state := STATE_END\<rparr>, s, w1)
         else if rbuf_size c + length bs = buf_cap then Inl AssertFail
         else rbind (request_loop (filled c bs) s w1) (\<lambda>(c2, s2, w2). Inr (conn_state c2 = STATE_REQ, c2, s2, w2)))"
proof -
  note cap = conn_okD(1,3) [OF ok]
  have "rbuf_size c + length bs \<le> buf_cap" if "rv = RdData bs" for bs
    using read_retry_Inr [OF rd] that cap by auto
  then show ?thesis
    using cap rd by (auto simp: try_fill_buffer_def filled_def blit_def split: rd_ret.splits)
qed

lemma filled_ok:
  assumes ok: "link_ok c s w M" "conn_state c = STATE_REQ"
    and rd: "read_retry (buf_cap - rbuf_size c) w = Inr (RdData bs, w1)"
    and ne: "rbuf_size c + length bs < buf_cap"
  shows "link_ok (filled c bs) s w1 M" "conn_state (filled c bs) = STATE_REQ"
    "served c s w M (filled c bs) s w1 M"
proof -
  have c: "conn_ok c" "mask_ok c w" "room M c w"
    using ok(1) by (simp_all add: link_ok_def)
  note cap = conn_okD(1,3) [OF c(1)]
  have r: "trace w1 = trace w" "rd_bytes (rd_script w) = bs @ rd_bytes (rd_script w1)"
    using read_retry_Inr [OF rd] by simp_all
  have i: "in_stream (filled c bs) w1 = in_stream c w"
    using cap ne r(2) by (simp add: in_stream_def inbuf_def filled_def min_absorb1)
  have p: "pending (filled c bs) = pending c" "conn_fd (filled c bs) = conn_fd c"
    by (simp_all add: pending_def filled_def)
  have "conn_ok (filled c bs)"
    using c(1) cap ne by (auto simp: conn_ok_def filled_def)
  then show "link_ok (filled c bs) s w1 M"
    using ok(1) c i r(1) by (simp add: link_ok_def room_def mask_ok_def filled_def)
  show "conn_state (filled c bs) = STATE_REQ"
    using ok(2) by (simp add: filled_def)
  show "served c s w M (filled c bs) s w1 M"
    by (rule served_refl) (use i p r(1) in \<open>simp_all add: out_stream_def own_calls_refl\<close>)
qed

lemma quiet_ok:
  assumes ok: "link_ok c s w M" and r: "trace w1 = trace w" "rd_bytes (rd_script w1) = rd_bytes (rd_script w)"
  shows "link_ok c s w1 M \<and> served c s w M c s w1 M"
proof
  show "link_ok c s w1 M"
    using ok r by (simp add: link_ok_def mask_ok_def room_def in_stream_def)
  show "served c s w M c s w1 M"
    by (rule served_refl) (use r in \<open>simp_all add: in_stream_def out_stream_def own_calls_refl\<close>)
qed

lemma try_fill_buffer_ok:
  assumes ok: "link_ok c s w M" "conn_state c = STATE_REQ"
    and run: "try_fill_buffer c s w = Inr (again, c', s', w')"
  shows "\<exists>M'. link_ok c' s' w' M' \<and> served c s w M c' s' w' M' \<and> (again \<longrightarrow> conn_state c' = STATE_REQ)"
proof -
  have c: "conn_ok c" using ok(1) by (simp add: link_ok_def)
  from run obtain rv w1 where rd: "read_retry (buf_cap - rbuf_size c) w = Inr (rv, w1)"
    by (auto simp: try_fill_buffer_def rbind_eq_Inr)
  have closed: ?thesis if "rd_bytes (rd_script w1) = rd_bytes (rd_script w)"
    "\<not> again" "s' = s" "w' = w1" "c' = c \<or> c' = c\<lparr>conn_state := STATE_END\<rparr>"
  proof -
    have "trace w1 = trace w"
      using read_retry_Inr [OF rd] by simp
    from quiet_ok [OF ok(1) this that(1)] have q: "link_ok c s w1 M" "served c s w M c s w1 M" by simp_all
    from link_END [OF q(1)] have "link_ok (c\<lparr>conn_state := STATE_END\<rparr>) s w1 M"
      "served c s w M (c\<lparr>conn_state := STATE_END\<rparr>) s w1 M"
      using served_trans [OF q(2)] by blast+
    with q that show ?thesis by blast
  qed
  show ?thesis
  proof (cases rv)
    case (RdErr e)
    with read_retry_Inr [OF rd] run show ?thesis
      by (intro closed) (auto simp: try_fill_buffer_eq [OF c rd] split: if_splits)
  next
    case (RdData bs)
    show ?thesis
    proof (cases "bs = []")
      case True
      with RdData read_retry_Inr [OF rd] run show ?thesis
        by (intro closed) (auto simp: try_fill_buffer_eq [OF c rd])
    next
      case False
      with run RdData have r: "request_loop (filled c bs) s w1 = Inr (c', s', w')"
        "again \<longleftrightarrow> conn_state c' = STATE_REQ" "rbuf_size c + length bs \<noteq> buf_cap"
        by (auto simp: try_fill_buffer_eq [OF c rd] rbind_eq_Inr split: if_splits)
      have "rbuf_size c + length bs < buf_cap"
        using read_retry_Inr [OF rd] RdData r(3) conn_okD(3) [OF c] by auto
      from filled_ok [OF ok rd [unfolded RdData] this]
      have f: "link_ok (filled c bs) s w1 M" "conn_state (filled c bs) = STATE_REQ"
        "served c s w M (filled c bs) s w1 M" .
      from request_loop_ok [OF r(1) f(1,2)] served_trans [OF f(3)] r(2) show ?thesis by blast
    qed
  qed
qed

lemma served_shrinks: "served c s w M c' s' w' M' \<Longrightarrow> length (in_stream c' w') \<le> length (in_stream c w)"
  by (auto simp: served_def ran_def)

lemma try_fill_buffer_Inl:
  assumes ok: "link_ok c s w M" "conn_state c = STATE_REQ"
    and run: "try_fill_buffer c s w = Inl f"
  shows "f = EnvStop \<or> f = NullDeref \<and> resize_crash c s w \<or> f = AssertFail \<and> buffer_full c s w"
proof (cases "read_retry (buf_cap - rbuf_size c) w")
  case (Inl g)
  with run ok(1) show ?thesis
    by (auto simp: try_fill_buffer_def link_ok_def conn_ok_def dest: read_retry_Inl)
next
  case (Inr r)
  have c: "conn_ok c" using ok(1) by (simp add: link_ok_def)
  from Inr obtain rv w1 where rd: "read_retry (buf_cap - rbuf_size c) w = Inr (rv, w1)" by (cases r) auto
  show ?thesis
  proof (cases rv)
    case (RdErr e)
    with run show ?thesis by (simp add: try_fill_buffer_eq [OF c rd])
  next
    case (RdData bs)
    show ?thesis
    proof (cases "rbuf_size c + length bs = buf_cap")
      case True
      then have "buffer_full c s w"
        using ok(2) rd RdData fills.none unfolding buffer_full_def by blast
      moreover have "bs \<noteq> []"
        using True conn_okD(3) [OF c] by auto
      ultimately show ?thesis
        using run RdData True by (simp add: try_fill_buffer_eq [OF c rd])
    next
      case False
      with run RdData have l: "request_loop (filled c bs) s w1 = Inl f"
        by (auto simp: try_fill_buffer_eq [OF c rd] rbind_eq_Inl split: if_splits)
      have "rbuf_size c + length bs < buf_cap"
        using read_retry_Inr [OF rd] RdData conn_okD(3) [OF c] False by auto
      note fl = filled_ok [OF ok rd [unfolded RdData] this]
      from request_loop_Inl [OF l fl(1,2)] resize_crash_trans [OF fl(3)] show ?thesis by blast
    qed
  qed
qed

text \<open>What holds after \<open>fills\<close>; a full buffer is the only and a sufficient cause of the assert.\<close>

lemma fills_ok:
  "fills c s w c1 s1 w1 \<Longrightarrow> link_ok c s w M \<Longrightarrow> conn_state c = STATE_REQ \<Longrightarrow>
     \<exists>M1. link_ok c1 s1 w1 M1 \<and> served c s w M c1 s1 w1 M1 \<and> conn_state c1 = STATE_REQ"
proof (induction arbitrary: M rule: fills.induct)
  case (none c s w)
  then show ?case using served_refl [of c w c w s M] by (auto simp: own_calls_refl)
next
  case (more c s w c1 s1 w1 c2 s2 w2)
  from try_fill_buffer_ok [OF more.prems more.hyps(1)] obtain M1 where
    m: "link_ok c1 s1 w1 M1" "served c s w M c1 s1 w1 M1" "conn_state c1 = STATE_REQ" by blast
  from more.IH [OF m(1,3)] served_trans [OF m(2)] show ?case by blast
qed

lemma fill_aborts:
  assumes ok: "link_ok c s w M" and rd: "read_retry (buf_cap - rbuf_size c) w = Inr (RdData bs, w1)"
    and full: "rbuf_size c + length bs = buf_cap"
  shows "try_fill_buffer c s w = Inl AssertFail"
proof -
  have c: "conn_ok c" using ok by (simp add: link_ok_def)
  then have "bs \<noteq> []" using full conn_okD(3) [OF c] by auto
  with full show ?thesis by (simp add: try_fill_buffer_eq [OF c rd])
qed

lemma fills_abort:
  "fills c s w c1 s1 w1 \<Longrightarrow> try_fill_buffer c1 s1 w1 = Inl f \<Longrightarrow> state_req c s w = Inl f"
proof (induction rule: fills.induct)
  case (none c s w)
  then show ?case by (subst state_req.simps) simp
next
  case (more c s w c1 s1 w1 c2 s2 w2)
  then show ?case by (subst state_req.simps) simp
qed

lemma buffer_full_aborts:
  assumes ok: "link_ok c s w M" and full: "buffer_full c s w"
  shows "connection_io c s w = Inl AssertFail" and "buf_cap \<le> length (in_stream c w)"
proof -
  from full obtain c1 s1 w1 bs w2 where f: "conn_state c = STATE_REQ" "fills c s w c1 s1 w1"
    "read_retry (buf_cap - rbuf_size c1) w1 = Inr (RdData bs, w2)" "rbuf_size c1 + length bs = buf_cap"
    unfolding buffer_full_def by blast
  from fills_ok [OF f(2) ok f(1)] obtain M1 where m: "link_ok c1 s1 w1 M1" "served c s w M c1 s1 w1 M1" by blast
  from fills_abort [OF f(2) fill_aborts [OF m(1) f(3,4)]] f(1)
  show "connection_io c s w = Inl AssertFail" by (simp add: connection_io_def)
  have "conn_ok c1" using m(1) by (simp add: link_ok_def)
  then have "buf_cap \<le> length (in_stream c1 w1)"
    using read_retry_Inr [OF f(3)] f(4) by (simp add: in_stream_def length_inbuf)
  with served_shrinks [OF m(2)] show "buf_cap \<le> length (in_stream c w)" by simp
qed

lemma state_req_ok:
  "state_req c s w = Inr (c', s', w') \<Longrightarrow> link_ok c s w M \<Longrightarrow> conn_state c = STATE_REQ \<Longrightarrow>
     \<exists>M'. link_ok c' s' w' M' \<and> served c s w M c' s' w' M'"
proof (induction c s w arbitrary: M rule: state_req.induct)
  case (1 c s w)
  from "1.prems"(1) obtain again c1 s1 w1 where t: "try_fill_buffer c s w = Inr (again, c1, s1, w1)"
    "(if again then state_req c1 s1 w1 else Inr (c1, s1, w1)) = Inr (c', s', w')"
    by (subst (asm) state_req.simps) (auto simp: rbind_eq_Inr)
  from try_fill_buffer_ok [OF "1.prems"(2,3) t(1)] obtain M1 where
    m: "link_ok c1 s1 w1 M1" "served c s w M c1 s1 w1 M1" "again \<longrightarrow> conn_state c1 = STATE_REQ" by blast
  show ?case
  proof (cases again)
    case True
    with t(2) m(3) "1.IH" [OF t(1) refl refl refl True _ m(1)] obtain M' where
      "link_ok c' s' w' M'" "served c1 s1 w1 M1 c' s' w' M'" by auto
    with served_trans [OF m(2)] show ?thesis by blast
  qed (use t(2) m in auto)
qed

lemma state_req_Inl:
  "state_req c s w = Inl f \<Longrightarrow> link_ok c s w M \<Longrightarrow> conn_state c = STATE_REQ \<Longrightarrow>
     f = EnvStop \<or> f = NullDeref \<and> resize_crash c s w \<or> f = AssertFail \<and> buffer_full c s w"
proof (induction c s w arbitrary: M rule: state_req.induct)
  case (1 c s w)
  from "1.prems"(1) consider "try_fill_buffer c s w = Inl f"
    | c1 s1 w1 where "try_fill_buffer c s w = Inr (True, c1, s1, w1)" "state_req c1 s1 w1 = Inl f"
    by (subst (asm) state_req.simps) (auto simp: rbind_eq_Inl split: if_splits)
  then show ?case
  proof cases
    case 1
    then show ?thesis by (rule try_fill_buffer_Inl [OF "1.prems"(2,3)])
  next
    case (2 c1 s1 w1)
    from try_fill_buffer_ok [OF "1.prems"(2,3) 2(1)] obtain M1 where
      m: "link_ok c1 s1 w1 M1" "conn_state c1 = STATE_REQ" "served c s w M c1 s1 w1 M1" by blast
    from "1.IH" [OF 2(1) refl refl refl _ 2(2) m(1,2)]
    have "f = EnvStop \<or> f = NullDeref \<and> resize_crash c1 s1 w1 \<or> f = AssertFail \<and> buffer_full c1 s1 w1" by simp
    moreover have "buffer_full c s w" if "buffer_full c1 s1 w1"
      using that "1.prems"(3) fills.more [OF 2(1)] unfolding buffer_full_def by blast
    ultimately show ?thesis
      using resize_crash_trans [OF m(3)] by blast
  qed
qed

lemma connection_io_ok:
  assumes ok: "link_ok c s w M" and run: "connection_io c s w = Inr (c', s', w')"
  shows "\<exists>M'. link_ok c' s' w' M' \<and> served c s w M c' s' w' M'"
proof (cases "conn_state c = STATE_REQ")
  case True
  with run state_req_ok ok show ?thesis by (auto simp: connection_io_def)
next
  case False
  with run have st: "conn_state c = STATE_RES" "state_res c w = Inr (c', w')" "s' = s"
    by (auto simp: connection_io_def rbind_eq_Inr split: if_splits)
  have c: "conn_ok c" "mask_ok c w" using ok by (simp_all add: link_ok_def)
  from state_res_ok [OF st(2) c(1) st(1) c(2)] state_res_frame [OF st(2)]
  have "conn_ok c'" "mask_ok c' w'" "out_stream c' w' = out_stream c w" "in_stream c' w' = in_stream c w"
    "conn_fd c' = conn_fd c"
    by (simp_all add: in_stream_def inbuf_def)
  then have "link_ok c' s' w' M \<and> served c s w M c' s' w' M"
    using ok st(3) own_calls_state_res [OF st(2)] by (auto simp: link_ok_def room_def intro: served_refl)
  then show ?thesis by blast
qed

lemma connection_io_Inl:
  assumes ok: "link_ok c s w M" "conn_state c \<noteq> STATE_END" and run: "connection_io c s w = Inl f"
  shows "f = EnvStop \<or> f = NullDeref \<and> resize_crash c s w \<or> f = AssertFail \<and> buffer_full c s w"
proof (cases "conn_state c = STATE_REQ")
  case True
  with run state_req_Inl ok(1) show ?thesis by (simp add: connection_io_def)
next
  case False
  then have "conn_state c = STATE_RES"
    using ok by (auto simp: link_ok_def conn_ok_def)
  with run ok(1) show ?thesis
    using state_res_Inl by (auto simp: connection_io_def rbind_eq_Inl link_ok_def)
qed

end
