(* ===== verification/Server.thy ===== *)
theory Server
  imports ConnSpec
begin

text \<open>
  The event loop: \<open>fd_set_nb\<close>, \<open>conn_put\<close> and \<open>accept_new_conn\<close> of
  \<open>src/server_utils.cpp\<close> and \<open>main\<close> of \<open>src/server.cpp\<close>, one round of
  \<open>epoll_wait\<close> at a time, with the answers of the kernel as an input.
\<close>

section \<open>State\<close>

text \<open>
  \<open>fd2conn\<close> is the vector of connection pointers, NULL being \<open>None\<close>; a
  connection is reachable from its slot only, so the slot holds it by value.
  \<open>sv_trace\<close> is the record of system calls made so far.
\<close>

record server =
  listen_fd :: int
  fd2conn :: "conn option list"
  sv_db :: db
  sv_trace :: "syscall list"

definition add_call :: "syscall \<Rightarrow> server \<Rightarrow> server" where
  "add_call c s = s\<lparr>sv_trace := sv_trace s @ [c]\<rparr>"

text \<open>The \<open>errno\<close> after each of the two \<open>fcntl\<close> calls: set or not.\<close>

record fcntl_env =
  getfl_err :: bool
  setfl_err :: bool

definition fd_set_nb :: "fcntl_env \<Rightarrow> int \<Rightarrow> server \<Rightarrow> server res" where
  "fd_set_nb e fd s =
     (if getfl_err e then die ''fcntl error''
      else if setfl_err e then die ''fcntl error''
      else Inr (add_call (SetNonBlock fd) s))"

definition conn_put :: "conn option list \<Rightarrow> conn \<Rightarrow> conn option list res" where
  "conn_put tab c =
     (let tab1 = (if int (length tab) \<le> conn_fd c
                  then tab @ replicate (nat (conn_fd c + 1) - length tab) None else tab)
      in if 0 \<le> conn_fd c \<and> nat (conn_fd c) < length tab1
         then Inr (tab1[nat (conn_fd c) := Some c]) else Inl OutOfBounds)"

text \<open>
  The answers \<open>accept_new_conn\<close> gets: the descriptor (negative for an error), the
  two \<open>fcntl\<close> calls, the memory \<open>malloc\<close> returns, if any, with whatever it
  holds, and the result of \<open>epoll_ctl\<close>.  A kernel that hands out a descriptor which is
  still open is \<open>EnvStop\<close>.
\<close>

record accept_env =
  ac_fd :: int
  ac_fcntl :: fcntl_env
  ac_mem :: "(bytes \<times> bytes) option"
  ac_ctl :: int

definition fd_open :: "int \<Rightarrow> server \<Rightarrow> bool" where
  "fd_open fd s \<longleftrightarrow> fd = listen_fd s \<or> interest fd (sv_trace s) \<noteq> None"

definition accept_new_conn :: "accept_env \<Rightarrow> server \<Rightarrow> (int \<times> server) res" where
  "accept_new_conn e s =
     (let connfd = ac_fd e in
      if connfd < 0 then Inr (-1, s)
      else if fd_open connfd s then Inl EnvStop
      else rbind (fd_set_nb (ac_fcntl e) connfd s) (\<lambda>s1.
        case ac_mem e of
          None \<Rightarrow> Inr (-1, add_call (Close connfd) s1)
        | Some (rb, wb) \<Rightarrow>
            if length rb \<noteq> buf_cap \<or> length wb \<noteq> buf_cap then Inl EnvStop
            else
              let c = \<lparr>conn_fd = connfd, conn_state = STATE_REQ, rbuf_size = 0, rbuf = rb,
                       wbuf_size = 0, wbuf_sent = 0, wbuf = wb\<rparr> in
              rbind (conn_put (fd2conn s1) c) (\<lambda>tab.
                if ac_ctl e \<noteq> 0 then die ''epoll_ctl failed''
                else Inr (0, add_call (EpollAdd connfd EPOLLIN) (s1\<lparr>fd2conn := tab\<rparr>)))))"

section \<open>The event loop\<close>

text \<open>
  One entry of \<open>events_buf\<close>, with the answers the kernel will give while it is handled.
\<close>

record event =
  active_fd :: int
  ev_accept :: accept_env
  ev_reads :: "rd_ret list"
  ev_writes :: "wr_ret list"

definition conn_at :: "server \<Rightarrow> int \<Rightarrow> conn option res" where
  "conn_at s fd =
     (if 0 \<le> fd \<and> nat fd < length (fd2conn s) then Inr (fd2conn s ! nat fd) else Inl OutOfBounds)"

text \<open>\<open>fd2conn[fd] = NULL\<close>\<close>

definition conn_clear :: "conn option list \<Rightarrow> int \<Rightarrow> conn option list res" where
  "conn_clear tab fd = (if 0 \<le> fd \<and> nat fd < length tab then Inr (tab[nat fd := None]) else Inl OutOfBounds)"

definition conn_io_at :: "event \<Rightarrow> server \<Rightarrow> io" where
  "conn_io_at e s = \<lparr>rd_script = ev_reads e, wr_script = ev_writes e, trace = sv_trace s\<rparr>"

definition handle_event :: "event \<Rightarrow> server \<Rightarrow> server res" where
  "handle_event e s =
     (if active_fd e = listen_fd s
      then rbind (accept_new_conn (ev_accept e) s) (\<lambda>(rv, s1). Inr s1)
      else
        rbind (conn_at s (active_fd e)) (\<lambda>slot.
        case slot of
          None \<Rightarrow> Inl NullDeref
        | Some c \<Rightarrow>
            rbind (connection_io c (sv_db s) (conn_io_at e s)) (\<lambda>(c1, db1, w1).
            let s1 = s\<lparr>fd2conn := (fd2conn s)[nat (active_fd e) := Some c1],
                       sv_db := db1, sv_trace := trace w1\<rparr> in
            if conn_state c1 = STATE_END
            then rbind (conn_clear (fd2conn s1) (conn_fd c1)) (\<lambda>tab.
              Inr (add_call (EpollDel (conn_fd c1)) (add_call (Close (conn_fd c1)) (s1\<lparr>fd2conn := tab\<rparr>))))
            else Inr s1)))"

fun handle_events :: "event list \<Rightarrow> server \<Rightarrow> server res" where
  "handle_events [] s = Inr s"
| "handle_events (e # es) s = rbind (handle_event e s) (handle_events es)"

text \<open>One round of \<open>while (true)\<close>: the result of \<open>epoll_wait\<close> is \<open>None\<close> for an error.\<close>

definition server_round :: "event list option \<Rightarrow> server \<Rightarrow> server res" where
  "server_round wait s = (case wait of None \<Rightarrow> die ''epoll_wait failed'' | Some evs \<Rightarrow> handle_events evs s)"

text \<open>
  The set-up before the loop.  Only the descriptor of \<open>socket\<close>, and the failures that
  abort, matter; \<open>setsockopt\<close> and the first \<open>epoll_ctl\<close> are unchecked.
\<close>

record setup_env =
  su_socket :: int
  su_bind :: int
  su_listen :: int
  su_fcntl :: fcntl_env
  su_epoll :: int

definition server_setup :: "setup_env \<Rightarrow> server res" where
  "server_setup e =
     (let s0 = \<lparr>listen_fd = su_socket e, fd2conn = [], sv_db = db_init, sv_trace = []\<rparr> in
      if su_socket e < 0 then die ''fail to create server socket''
      else if su_bind e \<noteq> 0 then die ''bind()''
      else if su_listen e \<noteq> 0 then die ''listen() failed''
      else rbind (fd_set_nb (su_fcntl e) (su_socket e) s0) (\<lambda>s1.
        if su_epoll e = -1 then die ''fail to create epoll fd!''
        else Inr (add_call (EpollAdd (su_socket e) EPOLLIN) s1)))"

end
