(* ===== verification/ServerSpec.thy ===== *)
theory ServerSpec
  imports Server
begin

text \<open>
  The invariant of the event loop: the vector \<open>fd2conn\<close> and the set of descriptors
  registered with \<open>epoll\<close> describe the same open connections, each of which satisfies
  the invariant of \<open>ConnSpec\<close>, and the key space represents a finite map; and what can stop
  an event or a batch (\<open>event_fault\<close>, \<open>batch_fault\<close>).
\<close>

section \<open>The invariant\<close>

definition slot_of :: "server \<Rightarrow> int \<Rightarrow> conn option" where
  "slot_of s fd =
     (if 0 \<le> fd \<and> nat fd < length (fd2conn s) then fd2conn s ! nat fd else None)"

definition watched :: "int \<Rightarrow> server \<Rightarrow> bool" where
  "watched fd s \<longleftrightarrow> interest fd (sv_trace s) \<noteq> None"

definition idle_io :: "server \<Rightarrow> io" where
  "idle_io s = \<lparr>rd_script = [], wr_script = [], trace = sv_trace s\<rparr>"

definition live_conn :: "server \<Rightarrow> int \<Rightarrow> conn \<Rightarrow> bool" where
  "live_conn s fd c \<longleftrightarrow>
     conn_fd c = fd \<and> conn_ok c \<and> conn_state c \<noteq> STATE_END \<and> mask_ok c (idle_io s)"

definition server_ok :: "server \<Rightarrow> (bytes \<rightharpoonup> bytes) \<Rightarrow> bool" where
  "server_ok s M \<longleftrightarrow>
     db_rep (sv_db s) M \<and> short_vals M \<and> finite (dom M)
     \<and> interest (listen_fd s) (sv_trace s) = Some EPOLLIN \<and> slot_of s (listen_fd s) = None
     \<and> (\<forall>fd. fd \<noteq> listen_fd s \<longrightarrow> (watched fd s \<longleftrightarrow> slot_of s fd \<noteq> None))
     \<and> (\<forall>fd c. slot_of s fd = Some c \<longrightarrow> live_conn s fd c)"

lemma server_okD:
  assumes "server_ok s M"
  shows "db_rep (sv_db s) M" "short_vals M" "finite (dom M)"
    "interest (listen_fd s) (sv_trace s) = Some EPOLLIN" "slot_of s (listen_fd s) = None"
    "fd \<noteq> listen_fd s \<Longrightarrow> watched fd s \<longleftrightarrow> slot_of s fd \<noteq> None"
    "slot_of s fd = Some c \<Longrightarrow> live_conn s fd c"
  using assms by (auto simp: server_ok_def)

lemma live_conn_cong:
  "interest fd (sv_trace s') = interest fd (sv_trace s) \<Longrightarrow> live_conn s' fd c = live_conn s fd c"
  by (auto simp: live_conn_def mask_ok_def idle_io_def)

text \<open>Replacing one slot, where the calls made concern that descriptor only.\<close>

lemma server_ok_slot:
  assumes ok: "server_ok s M" and fd: "fd \<noteq> listen_fd s"
    and other: "\<And>g. g \<noteq> fd \<Longrightarrow> slot_of s' g = slot_of s g \<and> interest g (sv_trace s') = interest g (sv_trace s)"
    and here: "watched fd s' \<longleftrightarrow> slot_of s' fd \<noteq> None" "\<And>c. slot_of s' fd = Some c \<Longrightarrow> live_conn s' fd c"
    and st: "listen_fd s' = listen_fd s" "db_rep (sv_db s') M'" "short_vals M'" "finite (dom M')"
  shows "server_ok s' M'"
proof -
  have "watched g s' \<longleftrightarrow> slot_of s' g \<noteq> None" if "g \<noteq> listen_fd s'" for g
    using that here(1) other [of g] server_okD(6) [OF ok, of g] st(1) by (cases "g = fd") (auto simp: watched_def)
  moreover have "live_conn s' g c" if "slot_of s' g = Some c" for g c
    using that here(2) other [of g] server_okD(7) [OF ok, of g] live_conn_cong [of g s' s]
    by (cases "g = fd") auto
  ultimately show ?thesis
    using server_okD(4,5) [OF ok] other [of "listen_fd s"] fd st unfolding server_ok_def by auto
qed

section \<open>Accepting\<close>

lemma conn_put_slots:
  assumes "0 \<le> conn_fd c"
  shows "\<exists>tab. conn_put (fd2conn s) c = Inr tab
    \<and> (\<forall>g. slot_of (s\<lparr>fd2conn := tab\<rparr>) g = (if g = conn_fd c then Some c else slot_of s g))"
proof -
  define tab1 where "tab1 = (if int (length (fd2conn s)) \<le> conn_fd c
    then fd2conn s @ replicate (nat (conn_fd c + 1) - length (fd2conn s)) None else fd2conn s)"
  have len: "nat (conn_fd c) < length tab1"
    using assms by (auto simp: tab1_def)
  then have "conn_put (fd2conn s) c = Inr (tab1[nat (conn_fd c) := Some c])"
    using assms by (simp add: conn_put_def tab1_def Let_def)
  moreover have "slot_of (s\<lparr>fd2conn := tab1[nat (conn_fd c) := Some c]\<rparr>) g
      = (if g = conn_fd c then Some c else slot_of s g)" for g
    using len assms by (auto simp: slot_of_def tab1_def nth_append nth_list_update)
  ultimately show ?thesis by blast
qed

lemma slot_of_cong: "fd2conn s' = fd2conn s \<Longrightarrow> slot_of s' g = slot_of s g"
  by (simp add: slot_of_def)

lemma accept_ok:
  assumes ok: "server_ok s M" and run: "accept_new_conn e s = Inr (rv, s')"
  shows "server_ok s' M" "listen_fd s' = listen_fd s"
    "watched g s \<Longrightarrow> watched g s'"
proof -
  let ?fd = "ac_fd e"
  consider "s' = s"
    | "0 \<le> ?fd" "\<not> fd_open ?fd s" "s' = add_call (Close ?fd) (add_call (SetNonBlock ?fd) s)"
    | rb wb tab where "0 \<le> ?fd" "\<not> fd_open ?fd s" "length rb = buf_cap" "length wb = buf_cap"
        "conn_put (fd2conn s) \<lparr>conn_fd = ?fd, conn_state = STATE_REQ, rbuf_size = 0, rbuf = rb,
                       wbuf_size = 0, wbuf_sent = 0, wbuf = wb\<rparr> = Inr tab"
        "s' = add_call (EpollAdd ?fd EPOLLIN) ((add_call (SetNonBlock ?fd) s)\<lparr>fd2conn := tab\<rparr>)"
    using run by (auto simp: accept_new_conn_def fd_set_nb_def Let_def rbind_eq_Inr add_call_def
        split: if_splits option.splits)
  then have "server_ok s' M \<and> listen_fd s' = listen_fd s \<and> (watched g s \<longrightarrow> watched g s')"
  proof cases
    case 2
    then have fd: "?fd \<noteq> listen_fd s" "interest ?fd (sv_trace s) = None"
      by (auto simp: fd_open_def)
    have int: "interest g (sv_trace s') = interest g (sv_trace s)" for g
      using fd(2) by (auto simp: 2(3) add_call_def mask_step_def)
    have sl: "slot_of s' g = slot_of s g" for g
      by (rule slot_of_cong) (simp add: 2(3) add_call_def)
    have st: "listen_fd s' = listen_fd s" "sv_db s' = sv_db s"
      by (simp_all add: 2(3) add_call_def)
    have "server_ok s' M"
      using ok int sl st live_conn_cong [of _ s' s] by (simp add: server_ok_def watched_def)
    then show ?thesis using int st by (simp add: watched_def)
  next
    case (3 rb wb tab)
    let ?c = "\<lparr>conn_fd = ?fd, conn_state = STATE_REQ, rbuf_size = 0, rbuf = rb,
               wbuf_size = 0, wbuf_sent = 0, wbuf = wb\<rparr>"
    have fd: "?fd \<noteq> listen_fd s"
      using 3(2) by (auto simp: fd_open_def)
    have sl: "slot_of s' g = (if g = ?fd then Some ?c else slot_of s g)" for g
    proof -
      have "slot_of s' g = slot_of (s\<lparr>fd2conn := tab\<rparr>) g"
        by (rule slot_of_cong) (simp add: 3(6) add_call_def)
      then show ?thesis
        using conn_put_slots [of ?c s] 3(1,5) by auto
    qed
    have int: "interest g (sv_trace s') = (if g = ?fd then Some EPOLLIN else interest g (sv_trace s))" for g
      by (simp add: 3(6) add_call_def mask_step_def)
    have "conn_ok ?c"
      using 3(3,4) by (simp add: conn_ok_def buf_cap_def)
    then have "live_conn s' ?fd ?c"
      using int by (simp add: live_conn_def mask_ok_def idle_io_def)
    then have "server_ok s' M"
      by (intro server_ok_slot [OF ok fd]) (use int sl server_okD(1-3) [OF ok] 3(6) in
          \<open>auto simp: watched_def add_call_def\<close>)
    then show ?thesis using int 3(6) by (auto simp: watched_def add_call_def)
  qed (use ok in simp)
  then show "server_ok s' M" "listen_fd s' = listen_fd s" "watched g s \<Longrightarrow> watched g s'"
    by blast+
qed

text \<open>
  \<open>accept_dies\<close>: the calls of \<open>accept_new_conn\<close> whose failure ends the process, \<open>fcntl\<close>
  and, once a connection is allocated, \<open>epoll_ctl\<close>.
\<close>

definition accept_dies :: "accept_env \<Rightarrow> bool" where
  "accept_dies e \<longleftrightarrow> 0 \<le> ac_fd e \<and>
     (getfl_err (ac_fcntl e) \<or> setfl_err (ac_fcntl e) \<or> ac_mem e \<noteq> None \<and> ac_ctl e \<noteq> 0)"

lemma accept_Inl:
  "accept_new_conn e s = Inl f \<Longrightarrow> f = EnvStop \<or> f = Died \<and> accept_dies e"
proof -
  assume f: "accept_new_conn e s = Inl f"
  then have nn: "0 \<le> ac_fd e" by (auto simp: accept_new_conn_def Let_def split: if_splits)
  have put: "\<exists>tab. conn_put (fd2conn s) c = Inr tab" if "conn_fd c = ac_fd e" for c
    using conn_put_slots [of c s] that nn by auto
  show ?thesis
  proof (cases "ac_mem e")
    case (Some m)
    obtain rb wb where m: "m = (rb, wb)" by (cases m)
    let ?c = "\<lparr>conn_fd = ac_fd e, conn_state = STATE_REQ, rbuf_size = 0, rbuf = rb,
               wbuf_size = 0, wbuf_sent = 0, wbuf = wb\<rparr>"
    from put [of ?c] obtain tab where "conn_put (fd2conn s) ?c = Inr tab" by auto
    with f nn Some m show ?thesis
      by (auto simp: accept_new_conn_def accept_dies_def fd_set_nb_def add_call_def Let_def split: if_splits)
  qed (use f nn in \<open>auto simp: accept_new_conn_def accept_dies_def fd_set_nb_def Let_def split: if_splits\<close>)
qed

lemma accept_slot:
  assumes "accept_new_conn e s = Inr (0, s')"
  shows "\<exists>c. slot_of s' (ac_fd e) = Some c \<and> conn_fd c = ac_fd e \<and> conn_state c = STATE_REQ
     \<and> inbuf c = [] \<and> pending c = [] \<and> conn_ok c
     \<and> interest (ac_fd e) (sv_trace s') = Some EPOLLIN
     \<and> (\<forall>g. g \<noteq> ac_fd e \<longrightarrow> slot_of s' g = slot_of s g \<and> interest g (sv_trace s') = interest g (sv_trace s))"
proof -
  let ?fd = "ac_fd e"
  obtain rb wb tab where r: "0 \<le> ?fd" "length rb = buf_cap" "length wb = buf_cap"
    "conn_put (fd2conn s) \<lparr>conn_fd = ?fd, conn_state = STATE_REQ, rbuf_size = 0, rbuf = rb,
                   wbuf_size = 0, wbuf_sent = 0, wbuf = wb\<rparr> = Inr tab"
    "s' = add_call (EpollAdd ?fd EPOLLIN) ((add_call (SetNonBlock ?fd) s)\<lparr>fd2conn := tab\<rparr>)"
    using assms by (auto simp: accept_new_conn_def fd_set_nb_def Let_def rbind_eq_Inr add_call_def
        split: if_splits option.splits)
  let ?c = "\<lparr>conn_fd = ?fd, conn_state = STATE_REQ, rbuf_size = 0, rbuf = rb,
             wbuf_size = 0, wbuf_sent = 0, wbuf = wb\<rparr>"
  have "slot_of s' g = slot_of (s\<lparr>fd2conn := tab\<rparr>) g" for g
    by (rule slot_of_cong) (simp add: r(5) add_call_def)
  then have sl: "slot_of s' g = (if g = ?fd then Some ?c else slot_of s g)" for g
    using conn_put_slots [of ?c s] r(1,4) by auto
  have int: "interest g (sv_trace s') = (if g = ?fd then Some EPOLLIN else interest g (sv_trace s))" for g
    by (simp add: r(5) add_call_def mask_step_def)
  have "conn_ok ?c" using r(2,3) by (simp add: conn_ok_def buf_cap_def)
  then show ?thesis
    using sl int by (intro exI [of _ ?c]) (simp add: inbuf_def pending_def)
qed

section \<open>One event\<close>

definition event_weight :: "event \<Rightarrow> nat" where
  "event_weight e = buf_cap + length (rd_bytes (ev_reads e))"

definition fits :: "event \<Rightarrow> (bytes \<rightharpoonup> bytes) \<Rightarrow> bool" where
  "fits e M \<longleftrightarrow> card (dom M) + event_weight e + 1 < 2 ^ 60"

lemma conn_at_watched:
  assumes ok: "server_ok s M" and w: "watched fd s" "fd \<noteq> listen_fd s"
  shows "\<exists>c. conn_at s fd = Inr (Some c) \<and> slot_of s fd = Some c \<and> live_conn s fd c
    \<and> 0 \<le> fd \<and> nat fd < length (fd2conn s)"
  using server_okD(6) [OF ok w(2)] w(1) server_okD(7) [OF ok, of fd]
  by (auto simp: conn_at_def slot_of_def split: if_splits)

lemma live_link:
  assumes ok: "server_ok s M" and c: "live_conn s (active_fd e) c" and fit: "fits e M"
  shows "link_ok c (sv_db s) (conn_io_at e s) M"
proof -
  have "length (in_stream c (conn_io_at e s)) < event_weight e"
    using c length_inbuf [of c] conn_okD(3) [of c]
    by (simp add: live_conn_def in_stream_def conn_io_at_def event_weight_def)
  then have "room M c (conn_io_at e s)"
    using fit server_okD(3) [OF ok] by (simp add: room_def fits_def)
  then show ?thesis
    using c server_okD(1,2) [OF ok] by (auto simp: link_ok_def live_conn_def mask_ok_def idle_io_def conn_io_at_def)
qed

lemma served_card:
  assumes "served c s w M c' s' w' M'" "finite (dom M)"
  shows "finite (dom M') \<and> card (dom M') \<le> card (dom M) + length (in_stream c w)"
proof -
  from assms(1) obtain cmds where 1: "in_stream c w = concat (map request_frame cmds) @ in_stream c' w'"
    "M' = foldl abs_step M (map classify cmds)"
    unfolding served_def ran_def by blast
  have "length cmds \<le> length (concat (map request_frame cmds))"
    by (induction cmds) (auto simp: request_frame_def)
  then show ?thesis
    using card_foldl [OF assms(2), of "map classify cmds"] arg_cong [OF 1(1), of length] 1(2) by auto
qed

text \<open>
  What an event does: an accept keeps the map; a connection event serves requests of that
  connection, as \<open>served\<close> says.
\<close>

definition event_serves :: "event \<Rightarrow> server \<Rightarrow> server \<Rightarrow> (bytes \<rightharpoonup> bytes) \<Rightarrow> (bytes \<rightharpoonup> bytes) \<Rightarrow> bool" where
  "event_serves e s s' M M' \<longleftrightarrow>
     (if active_fd e = listen_fd s then M' = M
      else \<exists>c c' w'. slot_of s (active_fd e) = Some c
        \<and> connection_io c (sv_db s) (conn_io_at e s) = Inr (c', sv_db s', w')
        \<and> served c (sv_db s) (conn_io_at e s) M c' (sv_db s') w' M')"

text \<open>An event on a connection: a run of \<open>connection_io\<close>, then the slot.\<close>

definition after_io :: "int \<Rightarrow> server \<Rightarrow> conn \<Rightarrow> db \<Rightarrow> io \<Rightarrow> server" where
  "after_io fd s c1 db1 w1 =
     (if conn_state c1 = STATE_END
      then s\<lparr>fd2conn := (fd2conn s)[nat fd := None], sv_db := db1, sv_trace := trace w1 @ [Close fd, EpollDel fd]\<rparr>
      else s\<lparr>fd2conn := (fd2conn s)[nat fd := Some c1], sv_db := db1, sv_trace := trace w1\<rparr>)"

lemma handle_conn_event:
  assumes ok: "server_ok s M" and fit: "fits e M" and fd: "active_fd e \<noteq> listen_fd s"
    and c: "conn_at s (active_fd e) = Inr (Some c)" "live_conn s (active_fd e) c"
  shows "handle_event e s = rbind (connection_io c (sv_db s) (conn_io_at e s))
    (\<lambda>(c1, db1, w1). Inr (after_io (active_fd e) s c1 db1 w1))"
proof (cases "connection_io c (sv_db s) (conn_io_at e s)")
  case (Inr r)
  obtain c1 db1 w1 where r: "r = (c1, db1, w1)" by (cases r)
  from connection_io_ok [OF live_link [OF ok c(2) fit] Inr [unfolded r]] c(2)
  have "conn_fd c1 = active_fd e" by (auto simp: served_def live_conn_def)
  moreover have "0 \<le> active_fd e" "nat (active_fd e) < length (fd2conn s)"
    using c(1) by (auto simp: conn_at_def split: if_splits)
  ultimately show ?thesis
    using fd c(1) by (simp add: handle_event_def Inr r after_io_def conn_clear_def add_call_def Let_def)
qed (use fd c(1) in \<open>simp add: handle_event_def\<close>)

lemma handle_event_ok:
  assumes ok: "server_ok s M" and reg: "watched (active_fd e) s" and fit: "fits e M"
    and run: "handle_event e s = Inr s'"
  shows "\<exists>M'. server_ok s' M' \<and> event_serves e s s' M M' \<and> card (dom M') \<le> card (dom M) + event_weight e
    \<and> listen_fd s' = listen_fd s \<and> (\<forall>g. g \<noteq> active_fd e \<longrightarrow> watched g s \<longrightarrow> watched g s')
    \<and> (active_fd e \<noteq> listen_fd s \<longrightarrow> (\<forall>g. g \<noteq> active_fd e \<longrightarrow> slot_of s' g = slot_of s g
         \<and> interest g (sv_trace s') = interest g (sv_trace s)))"
proof (cases "active_fd e = listen_fd s")
  case True
  with run obtain rv where "accept_new_conn (ev_accept e) s = Inr (rv, s')"
    by (auto simp: handle_event_def rbind_eq_Inr)
  from accept_ok [OF ok this] True show ?thesis by (auto simp: event_serves_def)
next
  case False
  let ?fd = "active_fd e"
  from conn_at_watched [OF ok reg False] obtain c where
    c: "conn_at s ?fd = Inr (Some c)" "slot_of s ?fd = Some c" "live_conn s ?fd c" "0 \<le> ?fd" "nat ?fd < length (fd2conn s)"
    by blast
  have link: "link_ok c (sv_db s) (conn_io_at e s) M"
    by (rule live_link [OF ok c(3) fit])
  note ev = handle_conn_event [OF ok fit False c(1,3)]
  from run ev obtain c1 db1 w1 where
    io: "connection_io c (sv_db s) (conn_io_at e s) = Inr (c1, db1, w1)"
    by (auto simp: rbind_eq_Inr)
  from connection_io_ok [OF link io] obtain M' where
    m: "link_ok c1 db1 w1 M'" "served c (sv_db s) (conn_io_at e s) M c1 db1 w1 M'" by blast
  have fd1: "conn_fd c1 = ?fd" "conn_fd c = ?fd"
    using m(2) c(3) by (simp_all add: served_def live_conn_def)
  have own: "interest g (trace w1) = interest g (sv_trace s)" if "g \<noteq> ?fd" for g
    using own_calls_interest [of "conn_fd c" "conn_io_at e s" w1 g] m(2) that fd1
    by (simp add: served_def conn_io_at_def)
  define s1 where "s1 = s\<lparr>fd2conn := (fd2conn s)[nat ?fd := Some c1], sv_db := db1, sv_trace := trace w1\<rparr>"
  define s2 where "s2 = s\<lparr>fd2conn := (fd2conn s)[nat ?fd := None], sv_db := db1,
    sv_trace := trace w1 @ [Close ?fd, EpollDel ?fd]\<rparr>"
  have s': "s' = (if conn_state c1 = STATE_END then s2 else s1)"
    using run ev io by (simp add: after_io_def s1_def s2_def split: if_splits)
  have sl: "slot_of s' g = (if g = ?fd then if conn_state c1 = STATE_END then None else Some c1 else slot_of s g)" for g
    using c(4,5) by (auto simp: s' s1_def s2_def slot_of_def nth_list_update)
  have int: "interest g (sv_trace s') = interest g (sv_trace s)" if "g \<noteq> ?fd" for g
    using own [OF that] that
    by (auto simp: s' s1_def s2_def mask_step_def)
  have here: "watched ?fd s' \<longleftrightarrow> slot_of s' ?fd \<noteq> None"
  proof (cases "conn_state c1 = STATE_END")
    case True
    then have "interest ?fd (sv_trace s') = None"
      by (simp add: s' s2_def mask_step_def)
    with True sl show ?thesis by (simp add: watched_def)
  next
    case False
    then have "conn_state c1 = STATE_REQ \<or> conn_state c1 = STATE_RES"
      using m(1) by (auto simp: link_ok_def conn_ok_def)
    with m(1) fd1(1) False sl show ?thesis
      by (auto simp: watched_def link_ok_def mask_ok_def s' s1_def)
  qed
  have live: "live_conn s' ?fd d" if "slot_of s' ?fd = Some d" for d
    using that sl m(1) fd1(1) by (auto simp: live_conn_def link_ok_def mask_ok_def idle_io_def s' s1_def split: if_splits)
  note card = served_card [OF m(2) server_okD(3) [OF ok]]
  have st: "listen_fd s' = listen_fd s" "sv_db s' = db1"
    by (simp_all add: s' s1_def s2_def)
  have "server_ok s' M'"
    by (rule server_ok_slot [OF ok False])
      (use sl int here live st card m(1) in \<open>auto simp: link_ok_def\<close>)
  moreover have "length (in_stream c (conn_io_at e s)) \<le> event_weight e"
    using c(3) length_inbuf [of c] conn_okD(3) [of c]
    by (simp add: live_conn_def in_stream_def conn_io_at_def event_weight_def)
  moreover have "event_serves e s s' M M'"
    using False c(2) m(2) io st(2) by (auto simp: event_serves_def)
  ultimately show ?thesis
    using card int st sl by (auto simp: watched_def)
qed

text \<open>
  What can stop the handling of one event: the kernel's script ends, a call of
  \<open>accept_new_conn\<close> fails that the code answers with \<open>die()\<close>, or, on the connection
  that sits in the event's slot, the resize of the hash map or a full read buffer.
\<close>

definition event_fault :: "event \<Rightarrow> server \<Rightarrow> fault \<Rightarrow> bool" where
  "event_fault e s f \<longleftrightarrow>
     f = EnvStop
     \<or> f = Died \<and> active_fd e = listen_fd s \<and> accept_dies (ev_accept e)
     \<or> (\<exists>c. active_fd e \<noteq> listen_fd s \<and> slot_of s (active_fd e) = Some c
          \<and> (f = NullDeref \<and> resize_crash c (sv_db s) (conn_io_at e s)
             \<or> f = AssertFail \<and> buffer_full c (sv_db s) (conn_io_at e s)))"

lemma handle_event_Inl:
  assumes ok: "server_ok s M" and reg: "watched (active_fd e) s" and fit: "fits e M"
    and run: "handle_event e s = Inl f"
  shows "event_fault e s f"
proof (cases "active_fd e = listen_fd s")
  case True
  with run have "accept_new_conn (ev_accept e) s = Inl f"
    by (auto simp: handle_event_def rbind_eq_Inl)
  from accept_Inl [OF this] True show ?thesis by (simp add: event_fault_def)
next
  case False
  from conn_at_watched [OF ok reg False] obtain c where
    c: "conn_at s (active_fd e) = Inr (Some c)" "live_conn s (active_fd e) c" "slot_of s (active_fd e) = Some c" by blast
  have "connection_io c (sv_db s) (conn_io_at e s) = Inl f"
    using run handle_conn_event [OF ok fit False c(1,2)] by (auto simp: rbind_eq_Inl)
  from connection_io_Inl [OF live_link [OF ok c(2) fit] _ this] c False show ?thesis
    by (auto simp: live_conn_def event_fault_def)
qed

section \<open>A batch of events, and the loop\<close>

text \<open>
  What \<open>epoll_wait\<close> guarantees: each descriptor it reports is registered, and is
  reported once.
\<close>

definition batch_ok :: "event list \<Rightarrow> server \<Rightarrow> bool" where
  "batch_ok es s \<longleftrightarrow> distinct (map active_fd es) \<and> (\<forall>e \<in> set es. watched (active_fd e) s)"

definition weight :: "event list \<Rightarrow> nat" where
  "weight es = (\<Sum>e \<leftarrow> es. event_weight e)"

text \<open>A batch that does not get through stops at one of its events, the ones before it handled.\<close>

definition batch_fault :: "event list \<Rightarrow> server \<Rightarrow> fault \<Rightarrow> bool" where
  "batch_fault es s f \<longleftrightarrow>
     (\<exists>es1 e es2 s1. es = es1 @ e # es2 \<and> handle_events es1 s = Inr s1 \<and> event_fault e s1 f)"

lemma batch_fault_here: "event_fault e s f \<Longrightarrow> batch_fault (e # es) s f"
  unfolding batch_fault_def by (metis append_Nil handle_events.simps(1))

lemma batch_fault_later:
  assumes "handle_event e s = Inr s1" and "batch_fault es s1 f"
  shows "batch_fault (e # es) s f"
proof -
  from assms(2) obtain es1 ev es2 s2 where "es = es1 @ ev # es2" "handle_events es1 s1 = Inr s2" "event_fault ev s2 f"
    unfolding batch_fault_def by blast
  with assms(1) have "e # es = (e # es1) @ ev # es2" "handle_events (e # es1) s = Inr s2" "event_fault ev s2 f"
    by simp_all
  then show ?thesis unfolding batch_fault_def by blast
qed

lemma handle_events_ok:
  assumes "server_ok s M" and "batch_ok es s" and "card (dom M) + weight es + 1 < 2 ^ 60"
  shows "case handle_events es s of
      Inl f \<Rightarrow> batch_fault es s f
    | Inr s' \<Rightarrow> \<exists>M'. server_ok s' M' \<and> card (dom M') \<le> card (dom M) + weight es"
  using assms
proof (induction es arbitrary: s M)
  case Nil
  then show ?case by (auto simp: weight_def)
next
  case (Cons e es)
  have reg: "watched (active_fd e) s" and fit: "fits e M"
    using Cons.prems(2,3) by (simp_all add: batch_ok_def fits_def weight_def)
  show ?case
  proof (cases "handle_event e s")
    case (Inl f)
    with batch_fault_here [OF handle_event_Inl [OF Cons.prems(1) reg fit Inl]] show ?thesis by simp
  next
    case (Inr s1)
    from handle_event_ok [OF Cons.prems(1) reg fit Inr] obtain M1 where
      m: "server_ok s1 M1" "card (dom M1) \<le> card (dom M) + event_weight e"
      "\<And>g. g \<noteq> active_fd e \<Longrightarrow> watched g s \<Longrightarrow> watched g s1" by blast
    have "batch_ok es s1"
      using Cons.prems(2) m(3) unfolding batch_ok_def by (auto simp: image_iff)
    then have "case handle_events es s1 of
        Inl f \<Rightarrow> batch_fault es s1 f
      | Inr s' \<Rightarrow> \<exists>M'. server_ok s' M' \<and> card (dom M') \<le> card (dom M1) + weight es"
      using m(2) Cons.prems(3) by (intro Cons.IH [OF m(1)]) (simp_all add: weight_def)
    with m(2) Inr batch_fault_later [OF Inr] show ?thesis
      by (auto simp: weight_def split: sum.splits intro: le_trans)
  qed
qed

text \<open>
  The states of a running server, with the weight of the events it has handled.
\<close>

inductive server_reach :: "nat \<Rightarrow> server \<Rightarrow> bool" where
  start: "server_setup e = Inr s \<Longrightarrow> server_reach 0 s"
| round: "server_reach n s \<Longrightarrow> batch_ok es s \<Longrightarrow> server_round (Some es) s = Inr s' \<Longrightarrow>
     server_reach (n + weight es) s'"

lemma server_setup_ok: "server_setup e = Inr s \<Longrightarrow> server_ok s Map.empty"
  using db_rep_init
  by (auto simp: server_setup_def Let_def fd_set_nb_def add_call_def server_ok_def slot_of_def
      watched_def interest_def mask_step_def split: if_splits)

text \<open>
  Invariants of the running server: what the set-up establishes and every event keeps, within
  the budget of bytes, holds in every state the loop reaches.  An event must not
  unregister another descriptor, so that the rest of its batch stays valid.
\<close>

locale loop_invariant =
  fixes I :: "nat \<Rightarrow> server \<Rightarrow> bool"
  assumes I_start: "server_setup e = Inr s \<Longrightarrow> I 0 s"
    and I_event: "I n s \<Longrightarrow> watched (active_fd ev) s \<Longrightarrow> n + event_weight ev < 2 ^ 59 \<Longrightarrow> handle_event ev s = Inr s' \<Longrightarrow>
      I (n + event_weight ev) s' \<and> (\<forall>g. g \<noteq> active_fd ev \<longrightarrow> watched g s \<longrightarrow> watched g s')"
begin

lemma events:
  "I n s \<Longrightarrow> batch_ok es s \<Longrightarrow> n + weight es < 2 ^ 59 \<Longrightarrow> handle_events es s = Inr s' \<Longrightarrow> I (n + weight es) s'"
proof (induction es arbitrary: n s)
  case (Cons e es)
  from Cons.prems(4) obtain s1 where r: "handle_event e s = Inr s1" "handle_events es s1 = Inr s'"
    by (auto simp: rbind_eq_Inr)
  have reg: "watched (active_fd e) s" and w: "n + event_weight e < 2 ^ 59"
    using Cons.prems(2,3) by (simp_all add: batch_ok_def weight_def)
  from I_event [OF Cons.prems(1) reg w r(1)]
  have s1: "I (n + event_weight e) s1" "\<And>g. g \<noteq> active_fd e \<Longrightarrow> watched g s \<Longrightarrow> watched g s1" by auto
  have "batch_ok es s1"
    using Cons.prems(2) s1(2) unfolding batch_ok_def by (auto simp: image_iff)
  with Cons.IH [OF s1(1) _ _ r(2)] Cons.prems(3) show ?case by (simp add: weight_def add.assoc)
qed (simp add: weight_def)

lemma reach: "server_reach n s \<Longrightarrow> n < 2 ^ 59 \<Longrightarrow> I n s"
proof (induction rule: server_reach.induct)
  case (round n s es s')
  then show ?case using events [of n s es s'] by (simp add: server_round_def)
qed (rule I_start)

end

definition bounded_ok :: "nat \<Rightarrow> server \<Rightarrow> bool" where
  "bounded_ok n s \<longleftrightarrow> (\<exists>M. server_ok s M \<and> card (dom M) \<le> n)"

interpretation ok: loop_invariant bounded_ok
proof
  show "bounded_ok 0 s" if "server_setup e = Inr s" for e s
    using server_setup_ok [OF that] by (auto simp: bounded_ok_def intro: exI [of _ Map.empty])
next
  fix n s ev s'
  assume a: "bounded_ok n s" "watched (active_fd ev) s" "n + event_weight ev < 2 ^ 59" "handle_event ev s = Inr s'"
  then obtain M where m: "server_ok s M" "card (dom M) \<le> n" by (auto simp: bounded_ok_def)
  then have "fits ev M" using a(3) by (simp add: fits_def)
  from handle_event_ok [OF m(1) a(2) this a(4)] m(2)
  show "bounded_ok (n + event_weight ev) s' \<and> (\<forall>g. g \<noteq> active_fd ev \<longrightarrow> watched g s \<longrightarrow> watched g s')"
    by (fastforce simp: bounded_ok_def)
qed

lemma server_reach_inv: "server_reach n s \<Longrightarrow> n < 2 ^ 59 \<Longrightarrow> \<exists>M. server_ok s M \<and> card (dom M) \<le> n"
  using ok.reach by (simp add: bounded_ok_def)

end
