(* ===== verification/KVProps.thy ===== *)
theory KVProps
  imports KVSpec
begin

text \<open>
  The properties of the key space: the server's command handlers refine the finite-map
  machine of \<open>KVSpec\<close>, when they crash, and what the hash map under them guarantees.
\<close>

section \<open>One command\<close>

lemma short_vals_upd: "short_vals M \<Longrightarrow> length v < k_max_msg \<Longrightarrow> short_vals (M(k \<mapsto> v))"
  by (simp add: short_vals_def)

lemma cmd_is_words:
  "cmd_is (ascii ''set'') (ascii ''set'')" "cmd_is (ascii ''SET'') (ascii ''set'')"
  "cmd_is (ascii ''get'') (ascii ''get'')" "cmd_is (ascii ''GET'') (ascii ''get'')"
  "cmd_is (ascii ''del'') (ascii ''del'')" "cmd_is (ascii ''keys'') (ascii ''keys'')"
  "\<not> cmd_is (ascii ''set'') (ascii ''get'')" "\<not> cmd_is (ascii ''set'') (ascii ''keys'')"
  "\<not> cmd_is (ascii ''del'') (ascii ''get'')" "\<not> cmd_is (ascii ''get'') (ascii ''keys'')"
  by (simp_all add: cmd_is_def c_str_def to_lower_def ascii_def)

lemma classify_words:
  "classify [ascii ''set'', k, v] = KSet k v" "classify [ascii ''get'', k] = KGet k"
  "classify [ascii ''del'', k] = KDel k" "classify [ascii ''keys''] = KKeys"
  by (simp_all add: classify_def cmd_is_words)

lemma push_over_full:
  "over_full (push_bucket bss a w) \<longleftrightarrow> 8 < (length (concat bss) + 1) div length (table_of bss)"
proof -
  have "length (concat (push_bucket bss a w)) = length (concat bss) + 1"
    using arg_cong [OF push_bucket_facts(1), of size bss a w] by (simp only: size_mset) simp
  then show ?thesis
    by (simp only: over_full_def push_bucket_facts(2))
qed

lemma roomy_empty: "roomy Map.empty"
  by (simp add: roomy_def)

text \<open>
  C2.  Refinement: a command handled on a key space that represents the finite map
  \<open>M\<close>, and that does not crash, leaves a key space that represents the map the abstract
  machine steps to, and appends exactly a reply that machine allows.  It holds of every
  command, well-formed or not; the hypotheses are the two limits of the code, values
  below the \<open>assert\<close> of \<open>do_get\<close> and fewer than \<open>2 ^ 60\<close> keys.
\<close>

theorem request_refines:
  assumes "db_rep s M" and "short_vals M" and "roomy M"
    and "do_request s cmd [] = Inr (s', out)"
  shows "db_rep s' (abs_step M (classify cmd)) \<and> reply_ok M (classify cmd) out"
  by (rule srv.exec_ok [OF assms])

text \<open>
  C8.  The only fault of a command is a NULL dereference, it happens only to a \<open>SET\<close>
  of a key the map does not hold, and exactly when the insertion makes the table over
  full (more than eight nodes per bucket) while an empty bucket, other than the first,
  comes before a non-empty one.
\<close>

theorem request_faults:
  assumes "db_ok s bss" and "view (db_entries s) M" and "short_vals M" and "roomy M"
  shows "do_request s cmd [] = Inl f \<longleftrightarrow>
     f = NullDeref \<and> (\<exists>k v. classify cmd = KSet k v \<and> M k = None \<and> set_crashes s bss k)"
  using do_request_exact [OF assms, of cmd]
  by (auto simp: request_crashes_def split: if_splits kcmd.splits)

section \<open>Runs from an empty server\<close>

text \<open>
  Whole runs: any sequence of commands that the empty server works through without a
  crash gets the replies of the abstract machine started on the empty map, in order, and
  leaves the map that machine ends with.
\<close>

lemma run_refines:
  assumes "run_cmds (\<lambda>s cmd. do_request s cmd []) db_init cmds = Inr (s', outs)"
    and "length cmds < 2 ^ 60" and "\<forall>cmd \<in> set cmds. short_cmd (classify cmd)"
  shows "db_rep s' (foldl abs_step Map.empty (map classify cmds))
     \<and> replies_ok Map.empty (map classify cmds) outs"
  by (rule srv.run_ok [OF assms(1) db_rep_init]) (use assms(2,3) in simp_all)

fun untouched :: "bytes \<Rightarrow> kcmd \<Rightarrow> bool" where
  "untouched k (KSet k' v) \<longleftrightarrow> k' \<noteq> k"
| "untouched k (KDel k') \<longleftrightarrow> k' \<noteq> k"
| "untouched k _ \<longleftrightarrow> True"

lemma untouched_foldl: "\<forall>c \<in> set cs. untouched k c \<Longrightarrow> foldl abs_step M cs k = M k"
proof (induction cs arbitrary: M)
  case (Cons c cs)
  then show ?case by (cases c) auto
qed simp

lemma replies_ok_last:
  "replies_ok M (cs @ [c]) outs \<Longrightarrow> reply_ok (foldl abs_step M cs) c (last outs)"
proof (induction cs arbitrary: M outs)
  case Nil
  then show ?case by (cases outs rule: remdups_adj.cases) auto
next
  case (Cons d cs)
  then obtain out os where "outs = out # os" "replies_ok (abs_step M d) (cs @ [c]) os"
    by (cases outs) auto
  moreover from this(2) have "os \<noteq> []" by (cases cs) auto
  ultimately show ?case using Cons.IH by simp
qed

text \<open>
  C19.  What is stored is what is read back: a \<open>SET\<close> and a \<open>GET\<close> of the same key,
  with any commands between them that do not set or delete that key, answer with the value.
\<close>

theorem get_returns_last_set:
  assumes "run_cmds (\<lambda>s cmd. do_request s cmd []) s ([ascii ''set'', k, v] # mid @ [[ascii ''get'', k]]) = Inr (s', outs)"
    and "db_rep s M" and "short_vals M" and "finite (dom M)" and "card (dom M) + length mid + 2 < 2 ^ 60"
    and "length v < k_max_msg" and "\<forall>cmd \<in> set mid. short_cmd (classify cmd) \<and> untouched k (classify cmd)"
  shows "last outs = out_str [] v"
proof -
  let ?cs = "KSet k v # map classify mid"
  have "replies_ok M (?cs @ [KGet k]) outs"
    using srv.run_ok [OF assms(1-4)] assms(5-7) by (simp add: classify_words)
  then have "reply_ok (foldl abs_step M ?cs) (KGet k) (last outs)"
    by (rule replies_ok_last)
  moreover have "foldl abs_step M ?cs k = Some v"
    using untouched_foldl [of "map classify mid" k "M(k \<mapsto> v)"] assms(7) by simp
  ultimately show ?thesis
    by (simp add: enc_lookup_def)
qed

section \<open>How many keys are safe\<close>

fun sets_key :: "kcmd \<Rightarrow> bool" where
  "sets_key (KSet k v) \<longleftrightarrow> True"
| "sets_key _ \<longleftrightarrow> False"

definition wide :: "addr list list \<Rightarrow> bool" where
  "wide bss \<longleftrightarrow> bss = [] \<or> 4 \<le> length bss"

lemma wide_push: "wide bss \<Longrightarrow> wide (push_bucket bss a w)"
  by (auto simp: wide_def push_bucket_facts(2) table_of_def)

lemma wide_not_over_full:
  assumes "wide bss" "length (concat bss) + 1 \<le> 35"
  shows "\<not> over_full (push_bucket bss a w)"
proof -
  have "4 \<le> length (table_of bss)"
    using assms(1) by (auto simp: wide_def table_of_def)
  then have "(length (concat bss) + 1) div length (table_of bss) \<le> 35 div 4"
    by (rule order_trans [OF div_le_mono2 div_le_mono [OF assms(2)], rotated]) simp
  then show ?thesis by (simp add: push_over_full)
qed

lemma few_keys_step:
  assumes ok: "db_ok s bss" and vw: "view (db_entries s) M" and sv: "short_vals M" and w: "wide bss"
    and few: "card (dom M) + (if sets_key (classify cmd) then 1 else 0) \<le> 35"
  shows "\<exists>s' bss' out. do_request s cmd [] = Inr (s', out) \<and> db_ok s' bss'
     \<and> view (db_entries s') (abs_step M (classify cmd)) \<and> wide bss'
     \<and> card (dom (abs_step M (classify cmd))) \<le> card (dom M) + (if sets_key (classify cmd) then 1 else 0)"
proof (cases "classify cmd")
  case KKeys
  then show ?thesis
    using do_keys_ok [OF ok, of cmd "[]"] ok vw w by (auto simp: do_request_classify)
next
  case (KGet k)
  then show ?thesis
    using do_get_ok [OF ok vw sv, of "cmd ! 0" k "[]"] db_ok_bump [OF ok] vw w
    by (auto simp: do_request_classify)
next
  case (KSet k v)
  note card = card_step [OF card_view(1) [OF ok vw], of "classify cmd"]
  show ?thesis
  proof (cases "M k")
    case None
    have len: "length (concat bss) + 1 \<le> 35"
      using few KSet card_view(2) [OF ok vw] by simp
    note nf = wide_not_over_full [OF w len, of "Suc (db_next s)" "str_hash k"]
    have "length (concat bss) + 1 < 2 ^ 60" using len by simp
    from do_set_new [OF ok vw None this, of "cmd ! 0" v "[]"] nf obtain s' where
      "do_set s [cmd ! 0, k, v] [] = Inr (s', out_nil [])"
      "db_ok s' (push_bucket bss (Suc (db_next s)) (str_hash k))" "view (db_entries s') (M(k \<mapsto> v))"
      by (auto simp: set_crashes_def Let_def)
    then show ?thesis
      using KSet wide_push [OF w] card by (auto simp: do_request_classify simp del: dom_fun_upd)
  next
    case (Some u)
    from do_set_update [OF ok vw Some, of "cmd ! 0" v "[]"] KSet w card show ?thesis
      by (auto simp: do_request_classify simp del: dom_fun_upd)
  qed
next
  case (KDel k)
  show ?thesis
  proof (cases "M k")
    case None
    then show ?thesis
      using do_del_absent [OF ok vw None, of "cmd ! 0" "[]"] KDel db_ok_bump [OF ok] vw w
      by (auto simp: do_request_classify fun_upd_idem)
  next
    case (Some v)
    from do_del_present [OF ok vw Some, of "cmd ! 0" "[]"] obtain s' bss' where
      "do_del s [cmd ! 0, k] [] = Inr (s', out_int [] 1)" "db_ok s' bss'"
      "view (db_entries s') (M(k := None))" "length bss' = length bss" by blast
    moreover have "wide bss'" using w calculation(4) by (auto simp: wide_def)
    moreover have "card (dom (M(k := None))) \<le> card (dom M)"
      by (rule card_mono [OF card_view(1) [OF ok vw]]) auto
    ultimately show ?thesis
      using KDel by (auto simp: do_request_classify simp del: dom_fun_upd)
  qed
next
  case KUnknown
  then show ?thesis
    using ok vw w by (auto simp: do_request_classify)
qed

lemma few_keys_state:
  "db_ok s bss \<Longrightarrow> view (db_entries s) M \<Longrightarrow> short_vals M \<Longrightarrow> wide bss \<Longrightarrow>
     \<forall>cmd \<in> set cmds. short_cmd (classify cmd) \<Longrightarrow>
     card (dom M) + length (filter sets_key (map classify cmds)) \<le> 35 \<Longrightarrow>
     \<exists>s' outs bss' M'. run_cmds exec s cmds = Inr (s', outs) \<and> db_ok s' bss' \<and> view (db_entries s') M'
       \<and> short_vals M' \<and> card (dom M') \<le> 35"
proof (induction cmds arbitrary: s bss M)
  case Nil
  then show ?case by auto
next
  case (Cons c cs)
  have "card (dom M) + (if sets_key (classify c) then 1 else 0) \<le> 35"
    using Cons.prems(6) by (auto split: if_splits)
  from few_keys_step [OF Cons.prems(1-4) this] obtain s1 bss1 out where
    r: "do_request s c [] = Inr (s1, out)" "db_ok s1 bss1" "view (db_entries s1) (abs_step M (classify c))"
    "wide bss1" "card (dom (abs_step M (classify c))) \<le> card (dom M) + (if sets_key (classify c) then 1 else 0)"
    by blast
  have "\<exists>s' outs bss' M'. run_cmds exec s1 cs = Inr (s', outs) \<and> db_ok s' bss' \<and> view (db_entries s') M'
       \<and> short_vals M' \<and> card (dom M') \<le> 35"
    by (rule Cons.IH [OF r(2,3) _ r(4)])
      (use Cons.prems(3,5,6) r(5) short_vals_step in \<open>auto split: if_splits\<close>)
  with r(1) show ?case by auto
qed

lemma few_keys_run:
  "db_ok s bss \<Longrightarrow> view (db_entries s) M \<Longrightarrow> short_vals M \<Longrightarrow> wide bss \<Longrightarrow>
     \<forall>cmd \<in> set cmds. short_cmd (classify cmd) \<Longrightarrow>
     card (dom M) + length (filter sets_key (map classify cmds)) \<le> 35 \<Longrightarrow>
     \<exists>s' outs. run_cmds exec s cmds = Inr (s', outs)"
  using few_keys_state by blast

text \<open>
  C11.  Safety up to 35 keys: from the empty server, no sequence of commands with at most 35
  \<open>SET\<close>s can crash it, whatever the keys.
\<close>

theorem few_sets_never_crash:
  assumes "\<forall>cmd \<in> set cmds. short_cmd (classify cmd)"
    and "length (filter sets_key (map classify cmds)) \<le> 35"
  shows "\<exists>s' outs. run_cmds (\<lambda>s cmd. do_request s cmd []) db_init cmds = Inr (s', outs)"
  by (rule few_keys_run [OF db_ok_init view_init short_vals_empty _ assms(1)])
    (use assms(2) in \<open>simp_all add: wide_def\<close>)

theorem few_sets_never_crash_witness:
  "\<exists>s outs. run_cmds (\<lambda>s cmd. do_request s cmd []) db_init
     [[ascii ''set'', [107], [118]], [ascii ''get'', [107]], [ascii ''del'', [107]]] = Inr (s, outs)"
  by (rule few_sets_never_crash) (simp_all add: classify_words k_max_msg_def)

theorem get_returns_last_set_witness:
  "\<exists>s outs. run_cmds (\<lambda>s cmd. do_request s cmd []) db_init
     [[ascii ''set'', [107], [118]], [ascii ''keys''], [ascii ''get'', [107]]] = Inr (s, outs)
     \<and> last outs = out_str [] [118]"
proof -
  let ?mid = "[[ascii ''keys'']]"
  have "\<exists>s outs. run_cmds exec db_init ([ascii ''set'', [107], [118]] # ?mid @ [[ascii ''get'', [107]]]) = Inr (s, outs)"
    by (rule few_keys_run [OF db_ok_init view_init short_vals_empty])
      (simp_all add: wide_def classify_words k_max_msg_def)
  then obtain s outs where
    r: "run_cmds exec db_init ([ascii ''set'', [107], [118]] # ?mid @ [[ascii ''get'', [107]]]) = Inr (s, outs)" by blast
  have "last outs = out_str [] [118]"
    by (rule get_returns_last_set [OF r db_rep_init]) (simp_all add: classify_words k_max_msg_def)
  with r show ?thesis by auto
qed

section \<open>Crafted keys\<close>

text \<open>A table of four buckets with nodes in bucket \<open>b\<close> only.\<close>

definition one_bucket :: "nat \<Rightarrow> addr list list \<Rightarrow> bool" where
  "one_bucket b bss \<longleftrightarrow> (\<exists>as. table_of bss = (replicate 4 [])[b := as])"

lemma one_bucket_push:
  assumes "one_bucket b bss" "b < 4" "unat w mod 4 = b"
  shows "\<exists>as. push_bucket bss a w = (replicate 4 [])[b := a # as]"
proof -
  from assms(1) obtain as where as: "table_of bss = (replicate 4 [])[b := as]"
    by (auto simp: one_bucket_def)
  then have "length (table_of bss) = 4" "table_of bss ! b = as" using assms(2) by simp_all
  then have "push_bucket bss a w = (replicate 4 [])[b := a # as]"
    using assms(3) by (simp add: push_bucket_def Let_def) (simp add: as)
  then show ?thesis ..
qed

lemma one_bucket_table: "bss = (replicate 4 [])[b := as] \<Longrightarrow> one_bucket b bss"
  by (auto simp: one_bucket_def table_of_def)

lemma one_bucket_gap:
  assumes "1 < b" "b < 4"
  shows "\<not> gap_free 0 ((replicate 4 [])[b := a # as])"
proof -
  have "((replicate 4 [])[b := a # as]) ! 1 = []" "((replicate 4 [])[b := a # as]) ! b \<noteq> []"
    using assms by simp_all
  then show ?thesis
    using assms unfolding gap_free_def by (metis length_list_update length_replicate zero_less_one)
qed

lemma crafted_run:
  "db_ok s bss \<Longrightarrow> view (db_entries s) M \<Longrightarrow> one_bucket b bss \<Longrightarrow> 1 < b \<Longrightarrow> b < 4 \<Longrightarrow>
     distinct ks \<Longrightarrow> set ks \<inter> dom M = {} \<Longrightarrow> \<forall>k \<in> set ks. unat (str_hash k) mod 4 = b \<Longrightarrow>
     ks \<noteq> [] \<Longrightarrow> card (dom M) + length ks = 36 \<Longrightarrow>
     run_cmds exec s (map (\<lambda>k. [ascii ''set'', k, v]) ks) = Inl NullDeref"
proof (induction ks arbitrary: s bss M)
  case (Cons k ks)
  note b = Cons.prems(4,5)
  have new: "M k = None" using Cons.prems(7) by auto
  have len: "length (concat bss) = card (dom M)" and fin: "finite (dom M)"
    using card_view [OF Cons.prems(1,2)] by simp_all
  have t4: "length (table_of bss) = 4" using Cons.prems(3) by (auto simp: one_bucket_def)
  have room: "length (concat bss) + 1 < 2 ^ 60" using len Cons.prems(10) by simp
  let ?p = "push_bucket bss (Suc (db_next s)) (str_hash k)"
  have "unat (str_hash k) mod 4 = b" using Cons.prems(8) by simp
  from one_bucket_push [OF Cons.prems(3) b(2) this, of "Suc (db_next s)"] obtain as where
    as: "?p = (replicate 4 [])[b := Suc (db_next s) # as]" ..
  have "8 < m div 4 \<longleftrightarrow> 36 \<le> m" for m :: nat by presburger
  then have full: "over_full ?p \<longleftrightarrow> ks = []"
    using Cons.prems(10) by (cases ks) (auto simp: push_over_full t4 len simp del: length_concat)
  note step = do_set_new [OF Cons.prems(1,2) new room, of "ascii ''set''" v "[]"]
  show ?case
  proof (cases "ks = []")
    case True
    then have "set_crashes s bss k"
      using full one_bucket_gap [OF b] by (simp add: set_crashes_def Let_def as)
    with step True show ?thesis
      by (simp add: do_request_classify classify_words)
  next
    case False
    then have "\<not> over_full ?p" using full by simp
    with step obtain s1 where r: "do_set s [ascii ''set'', k, v] [] = Inr (s1, out_nil [])"
      "db_ok s1 ?p" "view (db_entries s1) (M(k \<mapsto> v))"
      by (auto simp: set_crashes_def Let_def)
    have "dom (M(k \<mapsto> v)) = insert k (dom M)" by simp
    then have d: "set ks \<inter> dom (M(k \<mapsto> v)) = {}" "card (dom (M(k \<mapsto> v))) = Suc (card (dom M))"
      using Cons.prems(6,7) new fin by (auto simp: card_insert_if domIff simp del: dom_fun_upd)
    have "run_cmds exec s1 (map (\<lambda>k. [ascii ''set'', k, v]) ks) = Inl NullDeref"
      by (rule Cons.IH [OF r(2,3) one_bucket_table [OF as] b _ d(1)])
        (use Cons.prems(6,8,10) False d(2) in \<open>simp_all del: dom_fun_upd fun_upd_apply\<close>)
    with r(1) show ?thesis
      by (simp add: do_request_classify classify_words)
  qed
qed simp

lemma crafted_keys_run:
  assumes "distinct ks" and "length ks = 36" and "1 < b" and "b < 4"
    and "\<forall>k \<in> set ks. unat (str_hash k) mod 4 = b"
  shows "run_cmds exec db_init (map (\<lambda>k. [ascii ''set'', k, v]) ks) = Inl NullDeref"
proof -
  have "one_bucket b []" 
    using assms(4) list_update_id [of "replicate 4 []" b]
    by (metis nth_replicate one_bucket_def table_of_def)
  then show ?thesis
    by (rule crafted_run [OF db_ok_init view_init _ assms(3,4,1)]) (use assms(2,5) in auto)
qed

text \<open>
  C9.  Crafted keys crash the server: any 36 distinct keys whose hashes leave the same
  remainder, 2 or 3, modulo 4, stored in an empty server one after the other, end in a
  NULL dereference at the 36th \<open>SET\<close>, when the first resize starts.
\<close>

theorem crafted_keys_crash:
  assumes "distinct ks" and "length ks = 36" and "1 < b" and "b < 4"
    and "\<forall>k \<in> set ks. unat (str_hash k) mod 4 = b"
  shows "run_cmds (\<lambda>s cmd. do_request s cmd []) db_init (map (\<lambda>k. [ascii ''set'', k, v]) ks) = Inl NullDeref"
  by (rule crafted_keys_run [OF assms])

text \<open>One-byte keys \<open>1, 5, 9, \<dots>, 141\<close> do.\<close>

definition crafted :: "bytes list" where
  "crafted = map (\<lambda>i. [of_nat (4 * i + 1)]) [0..<36]"

lemma crafted_facts:
  "distinct crafted" "length crafted = 36" "\<forall>k \<in> set crafted. unat (str_hash k) mod 4 = 2"
proof -
  show "distinct crafted" by (simp add: crafted_def upt_rec)
  show "\<forall>k \<in> set crafted. unat (str_hash k) mod 4 = 2" by (simp add: crafted_def upt_rec str_hash_def)
qed (simp add: crafted_def)

theorem crafted_keys_crash_witness:
  "run_cmds (\<lambda>s cmd. do_request s cmd []) db_init (map (\<lambda>k. [ascii ''set'', k, []]) crafted) = Inl NullDeref"
  by (rule crafted_keys_crash [OF crafted_facts(1,2) _ _ crafted_facts(3)]) simp_all

text \<open>The state before the last of them is one where \<open>set_crashes\<close> holds.\<close>

theorem request_faults_witness:
  "\<exists>s bss. db_ok s bss \<and> do_request s [ascii ''set'', last crafted, []] [] = Inl NullDeref
     \<and> set_crashes s bss (last crafted)"
proof -
  let ?set = "\<lambda>k. [ascii ''set'', k, []]"
  have split: "crafted = butlast crafted @ [last crafted]"
    using crafted_facts(2) by (metis append_butlast_last_id list.size(3) zero_neq_numeral)
  have "length (filter sets_key (map classify (map ?set (butlast crafted)))) \<le> length (butlast crafted)"
    using length_filter_le by (metis length_map)
  then have "\<exists>s outs bss M. run_cmds exec db_init (map ?set (butlast crafted)) = Inr (s, outs) \<and> db_ok s bss
      \<and> view (db_entries s) M \<and> short_vals M \<and> card (dom M) \<le> 35"
    using crafted_facts(2)
    by (intro few_keys_state [OF db_ok_init view_init short_vals_empty])
      (auto simp: wide_def classify_words k_max_msg_def)
  then obtain s outs bss M where s: "run_cmds exec db_init (map ?set (butlast crafted)) = Inr (s, outs)" "db_ok s bss"
    "view (db_entries s) M" "short_vals M" "card (dom M) \<le> 35" by blast
  have "run_cmds exec db_init (map ?set crafted) = Inl NullDeref"
    by (rule crafted_keys_run [OF crafted_facts(1,2) _ _ crafted_facts(3)]) simp_all
  moreover have "map ?set crafted = map ?set (butlast crafted) @ [?set (last crafted)]"
    by (subst split) simp
  ultimately have "run_cmds exec db_init (map ?set (butlast crafted) @ [?set (last crafted)]) = Inl NullDeref" by simp
  then have "\<exists>f. do_request s (?set (last crafted)) [] = Inl f"
    using run_cmds_append [OF s(1), of "[?set (last crafted)]"]
    by (cases "do_request s (?set (last crafted)) []") auto
  moreover have "roomy M" using card_view(1) [OF s(2,3)] s(5) by (simp add: roomy_def)
  ultimately show ?thesis
    using request_faults [OF s(2-4), of "?set (last crafted)"] s(2) by (auto simp: classify_words)
qed

section \<open>Memory\<close>

lemma rep_allocation:
  assumes ok: "db_ok s bss" and vw: "view (db_entries s) M"
  shows "hm_idle (db_nodes s) (db_map s) bss \<and> dom (db_nodes s) = set (concat bss)"
    and "dom (db_entries s) = dom (db_nodes s)"
    and "bij_betw (\<lambda>a. e_key (the (db_entries s a))) (dom (db_entries s)) (dom M)"
    and "db_entries s a = Some e \<Longrightarrow> M (e_key e) = Some (e_val e)
           \<and> (\<exists>nd. db_nodes s a = Some nd \<and> hn_hcode nd = str_hash (e_key e))"
proof -
  show "hm_idle (db_nodes s) (db_map s) bss \<and> dom (db_nodes s) = set (concat bss)"
    "dom (db_entries s) = dom (db_nodes s)"
    using ok unfolding db_ok_def by simp_all
  have key: "keyed ekey str_hash (db_entries s) (db_nodes s) (dom (db_entries s))"
    using ok unfolding db_ok_def by simp
  show "M (e_key e) = Some (e_val e) \<and> (\<exists>nd. db_nodes s a = Some nd \<and> hn_hcode nd = str_hash (e_key e))"
    if e: "db_entries s a = Some e"
    using key e view_val [OF vw e] by (fastforce simp: keyed_def ekey_def)
  have "inj_on (\<lambda>a. e_key (the (db_entries s a))) (dom (db_entries s))"
    by (rule inj_onI) (use entry_unique [OF ok] in fastforce)
  moreover have "(\<lambda>a. e_key (the (db_entries s a))) ` dom (db_entries s) = dom M"
  proof
    show "(\<lambda>a. e_key (the (db_entries s a))) ` dom (db_entries s) \<subseteq> dom M"
      using view_val [OF vw] by auto
    show "dom M \<subseteq> (\<lambda>a. e_key (the (db_entries s a))) ` dom (db_entries s)"
    proof
      fix k assume "k \<in> dom M"
      then obtain v where "M k = Some v" by blast
      from view_entry [OF ok vw this] obtain a e where "db_entries s a = Some e" "e_key e = k" by blast
      then show "k \<in> (\<lambda>a. e_key (the (db_entries s a))) ` dom (db_entries s)"
        by (auto intro: rev_image_eqI)
    qed
  qed
  ultimately show "bij_betw (\<lambda>a. e_key (the (db_entries s a))) (dom (db_entries s)) (dom M)"
    by (simp add: bij_betw_def)
qed

text \<open>
  C18.  Nothing leaks and nothing dangles, whatever a client does: after any sequence of
  commands the empty server has worked through, the allocated nodes are exactly those
  linked in the hash table, each is the node of an allocated entry, and the entries
  correspond one to one to the keys the sequence leaves stored: their keys and values are
  those of the map the abstract machine ends with, and each node carries the hash of its
  key.  A key that was deleted, or overwritten, occupies nothing.
\<close>

theorem allocation_exact:
  fixes s and cmds
  defines "M \<equiv> foldl abs_step Map.empty (map classify cmds)"
  assumes "run_cmds (\<lambda>s cmd. do_request s cmd []) db_init cmds = Inr (s, outs)"
    and "length cmds < 2 ^ 60" and "\<forall>cmd \<in> set cmds. short_cmd (classify cmd)"
  shows "(\<exists>bss. hm_idle (db_nodes s) (db_map s) bss \<and> dom (db_nodes s) = set (concat bss))
     \<and> dom (db_entries s) = dom (db_nodes s)
     \<and> bij_betw (\<lambda>a. e_key (the (db_entries s a))) (dom (db_entries s)) (dom M)
     \<and> (\<forall>a e. db_entries s a = Some e \<longrightarrow> M (e_key e) = Some (e_val e)
          \<and> (\<exists>nd. db_nodes s a = Some nd \<and> hn_hcode nd = str_hash (e_key e)))"
proof -
  from run_refines [OF assms(2-4)] obtain bss where "db_ok s bss" "view (db_entries s) M"
    by (auto simp: db_rep_def M_def)
  from rep_allocation [OF this] show ?thesis by blast
qed

lemma stored: "\<exists>s1. do_request db_init [ascii ''set'', [107], [118]] [] = Inr (s1, out_nil []) \<and> db_rep s1 [[107] \<mapsto> [118]]"
proof -
  have k: "classify [ascii ''set'', [107], [118]] = KSet [107] [118]" by (simp add: classify_words)
  have "\<not> request_crashes db_init [] Map.empty (KSet [107] [118])"
    by (simp add: request_crashes_def set_crashes_def push_over_full table_of_def Let_def)
  then obtain s1 out where r: "do_request db_init [ascii ''set'', [107], [118]] [] = Inr (s1, out)"
    using do_request_exact [OF db_ok_init view_init short_vals_empty roomy_empty,
        of "[ascii ''set'', [107], [118]]"] k by auto
  from srv.exec_ok [OF db_rep_init short_vals_empty roomy_empty r] k r show ?thesis by simp
qed

theorem request_refines_witness:
  "\<exists>s. do_request db_init [ascii ''set'', [107], [118]] [] = Inr (s, out_nil []) \<and> db_rep s [[107] \<mapsto> [118]]"
proof -
  obtain s where r: "do_request db_init [ascii ''set'', [107], [118]] [] = Inr (s, out_nil [])" using stored by blast
  from request_refines [OF db_rep_init short_vals_empty roomy_empty r] r show ?thesis
    by (simp add: classify_words)
qed

text \<open>Two keys, one of them deleted again: one node and one entry are left.\<close>

theorem allocation_exact_witness:
  "\<exists>s outs. run_cmds (\<lambda>s cmd. do_request s cmd []) db_init
       [[ascii ''set'', [107], [118]], [ascii ''set'', [108], []], [ascii ''del'', [107]]] = Inr (s, outs)
     \<and> card (dom (db_nodes s)) = 1 \<and> (\<forall>a e. db_entries s a = Some e \<longrightarrow> e_key e = [108])"
proof -
  let ?cmds = "[[ascii ''set'', [107], [118]], [ascii ''set'', [108], []], [ascii ''del'', [107]]]"
  have M: "foldl abs_step Map.empty (map classify ?cmds) = [[108] \<mapsto> []]"
    by (simp add: classify_words)
  obtain s outs where r: "run_cmds exec db_init ?cmds = Inr (s, outs)"
    using few_keys_run [OF db_ok_init view_init short_vals_empty, of ?cmds]
    by (auto simp: wide_def classify_words k_max_msg_def simp del: run_cmds.simps)
  have a: "dom (db_entries s) = dom (db_nodes s)"
    "bij_betw (\<lambda>a. e_key (the (db_entries s a))) (dom (db_entries s)) {[108]}"
    "\<forall>a e. db_entries s a = Some e \<longrightarrow> [[108] \<mapsto> []] (e_key e) = Some (e_val e)"
    using allocation_exact [OF r, unfolded M] by (auto simp: classify_words k_max_msg_def)
  have "card (dom (db_nodes s)) = 1"
    using bij_betw_same_card [OF a(2)] a(1) by simp
  moreover have "e_key e = [108]" if "db_entries s a = Some e" for a e
    using a(3) that by (auto split: if_splits)
  ultimately show ?thesis using r by blast
qed

section \<open>The map under it\<close>

text \<open>
  C15.  \<open>hm_insert\<close>, exactly, on a map between operations with buckets \<open>bss\<close> and a
  node it does not hold: it puts the node in front of the bucket its hash code selects;
  when that makes the table over full it doubles the table and moves every node at once,
  and it dereferences NULL if an empty bucket is in the way.  Hash codes and nodes of
  others are untouched.
\<close>

theorem hm_insert_exact:
  assumes "hm_idle h m bss" and "h a = Some nd" and "a \<notin> set (concat bss)"
    and "length (concat bss) + 1 < 2 ^ 60"
  shows "let bss1 = push_bucket bss a (hn_hcode nd) in
     if over_full bss1 \<and> \<not> gap_free 0 bss1
     then hm_insert h m a = Inl NullDeref
     else \<exists>h' m' bss'. hm_insert h m a = Inr (h', m') \<and> hm_idle h' m' bss'
       \<and> mset (concat bss') = mset (a # concat bss)
       \<and> (if over_full bss1 then length bss' = 2 * length bss1 else bss' = bss1)
       \<and> same_codes h h' \<and> (\<forall>b. b \<notin> set (a # concat bss) \<longrightarrow> h' b = h b)"
  using hm_insert_correct [OF assms] by (simp only: Let_def)

theorem hm_insert_exact_witness:
  "\<exists>h' m' bss'. hm_insert [7 \<mapsto> \<lparr>hn_next = None, hn_hcode = 6\<rparr>] hmap_zero 7 = Inr (h', m')
     \<and> hm_idle h' m' bss' \<and> bss' = [[], [], [7], []]"
proof -
  let ?h = "[7 \<mapsto> \<lparr>hn_next = None, hn_hcode = 6\<rparr>] :: hheap"
  have p: "push_bucket [] 7 6 = [[], [], [7], []]"
    by (simp add: push_bucket_def table_of_def Let_def) (simp add: numeral_eq_Suc)
  have nf: "\<not> over_full [[], [], [7 :: addr], []]"
    by (simp add: over_full_def)
  have "?h 7 = Some \<lparr>hn_next = None, hn_hcode = 6\<rparr>" by simp
  from hm_insert_exact [of ?h hmap_zero "[]" 7, OF hm_idle_zero this] nf show ?thesis
    unfolding Let_def hnode.select_convs p by fastforce
qed

text \<open>
  C16.  \<open>hm_lookup\<close> and \<open>hm_pop\<close>, exactly, with the callback \<open>entry_eq\<close> and a key object
  on the stack: on a map between operations with buckets \<open>bss\<close> the lookup returns a node of
  the table that carries the key and changes nothing, and \<open>hm_pop\<close> takes such a node out,
  leaves every other node in the table, and touches only nodes of the table; when no node
  carries the key both return NULL and change nothing.
\<close>

theorem hm_find_exact:
  assumes "hm_idle h m bss" and "keyed ekey str_hash e h (insert key (set (concat bss)))"
  shows "if \<exists>c \<in> set (concat bss). ekey e c = ekey e key
     then (\<exists>c \<in> set (concat bss). ekey e c = ekey e key \<and> hm_lookup h m key (entry_eq e) = Inr (h, m, Some c))
        \<and> (\<exists>h' m' bss' c. hm_pop h m key (entry_eq e) = Inr (h', m', Some c) \<and> ekey e c = ekey e key
             \<and> hm_idle h' m' bss' \<and> mset (concat bss) = mset (c # concat bss') \<and> same_codes h h'
             \<and> (\<forall>a. a \<notin> set (concat bss') \<longrightarrow> h' a = h a))
     else hm_lookup h m key (entry_eq e) = Inr (h, m, None) \<and> hm_pop h m key (entry_eq e) = Inr (h, m, None)"
proof (cases "\<exists>c \<in> set (concat bss). ekey e c = ekey e key")
  case True
  then show ?thesis
    unfolding if_P [OF True] using ei.lookup_found [OF assms True] ei.pop_found [OF assms True] by blast
next
  case False
  then have "\<forall>c \<in> set (concat bss). ekey e c \<noteq> ekey e key" by blast
  from ei.lookup_missing [OF assms this] ei.pop_missing [OF assms this] show ?thesis
    unfolding if_not_P [OF False] by simp
qed

theorem hm_find_exact_witness:
  "\<exists>h m. hm_lookup h m 8 (entry_eq [7 \<mapsto> \<lparr>e_key = [107], e_val = [118]\<rparr>, 8 \<mapsto> \<lparr>e_key = [107], e_val = []\<rparr>])
     = Inr (h, m, Some 7)"
proof -
  let ?n = "\<lparr>hn_next = None, hn_hcode = str_hash [107]\<rparr>"
  let ?h = "[7 \<mapsto> ?n, 8 \<mapsto> ?n] :: hheap"
    and ?e = "[7 \<mapsto> \<lparr>e_key = [107], e_val = [118]\<rparr>, 8 \<mapsto> \<lparr>e_key = [107], e_val = []\<rparr>] :: addr \<rightharpoonup> entry"
  have nf: "\<not> over_full (push_bucket [] 7 (str_hash [107]))"
    by (simp add: push_over_full table_of_def)
  have "?h 7 = Some ?n" by simp
  from hm_insert_correct [of ?h hmap_zero "[]" 7, OF hm_idle_zero this] nf obtain h m bss where
    r: "hm_idle h m bss" "mset (concat bss) = {#7#}" "same_codes ?h h"
    by (auto simp: Let_def)
  have set: "set (concat bss) = {7}"
    using arg_cong [OF r(2), of set_mset] by simp
  have "keyed ekey str_hash ?e ?h {8, 7}" by (simp add: keyed_def ekey_def)
  from keyed_same_codes [OF this r(3)] have k: "keyed ekey str_hash ?e h (insert 8 (set (concat bss)))"
    by (simp only: set)
  have "\<exists>c \<in> set (concat bss). ekey ?e c = ekey ?e 8" unfolding set by (simp add: ekey_def)
  then have "\<exists>c \<in> set (concat bss). ekey ?e c = ekey ?e 8 \<and> hm_lookup h m 8 (entry_eq ?e) = Inr (h, m, Some c)"
    using hm_find_exact [OF r(1) k] by presburger
  then show ?thesis unfolding set by blast
qed

text \<open>
  C17.  One call of \<open>hm_help_resizing\<close>, exactly, on a map with an old table whose buckets
  below \<open>resizing_pos\<close> are already empty.  When no empty bucket after that position comes
  before a non-empty one, the call moves every node that is left, however many: the bound
  \<open>k_resizing_work\<close> never stops it, because \<open>n_work\<close> is not counted; the second table is
  then gone and the first holds the nodes of both.  Otherwise, and only then, the call
  dereferences NULL.  In both cases it terminates.
\<close>

theorem help_resizing_exact:
  assumes "htab_rep h (hm_tb1 m) bss1" and "htab_rep h (hm_tb2 m) bss2"
    and "set (concat bss1) \<inter> set (concat bss2) = {}"
    and "length (concat bss1) + length (concat bss2) < 2 ^ 64"
    and "unat (hm_pos m) < length bss2" and "\<forall>i < unat (hm_pos m). bss2 ! i = []"
  shows "if gap_free (unat (hm_pos m)) bss2
     then \<exists>h' m' bss'. hm_help_resizing h m = Inr (h', m') \<and> hm_tb2 m' = htab_zero
       \<and> htab_rep h' (hm_tb1 m') bss' \<and> mset (concat bss') = mset (concat bss1) + mset (concat bss2)
       \<and> length bss' = length bss1
     else hm_help_resizing h m = Inl NullDeref"
proof -
  note loop = resize_loop_correct [OF assms(1-6) refl]
  have "ht_tab (hm_tb2 m) \<noteq> None"
    using assms(2) by (auto elim: htab_repE)
  then obtain ps where ps: "ht_tab (hm_tb2 m) = Some ps" by blast
  show ?thesis
  proof (cases "gap_free (unat (hm_pos m)) bss2")
    case True
    with loop obtain h' m' where "hm_resize_loop h m 0 = Inr (h', m')" "moved h m bss1 bss2 h' m'" by auto
    with True ps show ?thesis
      by (auto simp: hm_help_resizing_def moved_def simp del: set_concat mset_concat)
  next
    case False
    with loop ps show ?thesis by (simp add: hm_help_resizing_def)
  qed
qed

text \<open>An old table with one node moves; with the node in the third bucket of four it crashes.\<close>

theorem help_resizing_exact_witness:
  "let h = [7 \<mapsto> \<lparr>hn_next = None, hn_hcode = 2\<rparr>];
       new = \<lparr>ht_tab = Some (replicate 8 None), ht_mask = 7, ht_size = 0\<rparr>;
       m1 = \<lparr>hm_tb1 = new, hm_tb2 = \<lparr>ht_tab = Some [Some 7], ht_mask = 0, ht_size = 1\<rparr>, hm_pos = 0\<rparr>;
       m2 = \<lparr>hm_tb1 = new,
             hm_tb2 = \<lparr>ht_tab = Some [None, None, Some 7, None], ht_mask = 3, ht_size = 1\<rparr>, hm_pos = 0\<rparr> in
   (\<exists>h' m' bss'. hm_help_resizing h m1 = Inr (h', m') \<and> mset (concat bss') = {#7#}
     \<and> htab_rep h' (hm_tb1 m') bss')
   \<and> hm_help_resizing h m2 = Inl NullDeref"
proof -
  let ?h = "[7 \<mapsto> \<lparr>hn_next = None, hn_hcode = 2\<rparr>] :: hheap"
  let ?new = "\<lparr>ht_tab = Some (replicate 8 None), ht_mask = 7, ht_size = 0\<rparr>"
  let ?old1 = "\<lparr>ht_tab = Some [Some 7], ht_mask = 0, ht_size = 1\<rparr>"
    and ?old2 = "\<lparr>ht_tab = Some [None, None, Some 7, None], ht_mask = 3, ht_size = 1\<rparr>"
  have new: "htab_rep ?h ?new (replicate 8 [])"
    by (auto simp: htab_rep_def bucket_ix_def mask_eq_exp_minus_1 intro!: exI [of _ 3])
  have old1: "htab_rep ?h ?old1 [[7]]"
    by (auto simp: htab_rep_def bucket_ix_def intro!: exI [of _ 0])
  have old2: "htab_rep ?h ?old2 [[], [], [7], []]"
  proof -
    have four: "(\<forall>i < 4. P i) \<longleftrightarrow> P 0 \<and> P 1 \<and> P 2 \<and> P 3" for P :: "nat \<Rightarrow> bool"
      by (simp add: numeral_eq_Suc All_less_Suc2)
    show ?thesis
      unfolding htab_rep_def
      by (intro conjI exI [of _ "[None, None, Some 7, None]"] exI [of _ 2])
        (simp_all add: four bucket_ix_def mask_eq_exp_minus_1, auto simp: less_Suc_eq)
  qed
  have gap: "\<not> gap_free 0 [[], [], [7 :: addr], []]"
    using gap_free_skip [of 0 2 "[[], [], [7 :: addr], []]"] by simp
  let ?m1 = "\<lparr>hm_tb1 = ?new, hm_tb2 = ?old1, hm_pos = 0\<rparr>" and ?m2 = "\<lparr>hm_tb1 = ?new, hm_tb2 = ?old2, hm_pos = 0\<rparr>"
  have "\<exists>h' m' bss'. hm_help_resizing ?h ?m1 = Inr (h', m') \<and> mset (concat bss') = {#7#}
     \<and> htab_rep h' (hm_tb1 m') bss'"
    using help_resizing_exact [of ?h ?m1 "replicate 8 []" "[[7]]"] new old1 by (auto simp: gap_free_def)
  moreover have "hm_help_resizing ?h ?m2 = Inl NullDeref"
    using help_resizing_exact [of ?h ?m2 "replicate 8 []" "[[], [], [7], []]"] new old2 gap by simp
  ultimately show ?thesis by (simp add: Let_def)
qed

end
