(* ===== verification/ConnCases.thy ===== *)
theory ConnCases
  imports ConnSpec KVProps
begin

text \<open>
  Runs of a connection worked out for given answers of the kernel: a reply that is sent in
  any number of pieces, a request that arrives in any pieces, a request that fills the
  buffer, and two requests that arrive together.
\<close>

section \<open>Flushing in pieces\<close>

lemma try_flush_WrN:
  assumes "conn_ok c" and "wr_script w = WrN n # ws" and "n \<le> length (pending c)"
  shows "try_flush_buffer c w = Inr (flush_outcome c (WrN n)
           (log_call (SysWrite (conn_fd c) (take n (pending c))) (w\<lparr>wr_script := ws\<rparr>)))"
proof -
  have "write_retry (conn_fd c) (pending c) w
      = Inr (WrN n, log_call (SysWrite (conn_fd c) (take n (pending c))) (w\<lparr>wr_script := ws\<rparr>))"
    using assms(2,3) by (simp add: write_retry.simps [of "conn_fd c"] sys_write_def)
  moreover have "wbuf_sent c \<le> wbuf_size c" "wbuf_sent c + n \<le> wbuf_size c"
    using conn_okD(4) [OF assms(1)] assms(3) length_pending [OF assms(1)] by auto
  ultimately show ?thesis
    by (simp add: try_flush_buffer_def slice_pending [OF assms(1)] flush_outcome_def Let_def)
qed

lemma frame_nonempty [simp]: "frame bs \<noteq> []"
  by (metis add_is_0 length_frame list.size(3) zero_neq_numeral)

definition drained :: "conn \<Rightarrow> conn" where
  "drained c = c\<lparr>wbuf_sent := 0, wbuf_size := 0, conn_state := STATE_REQ\<rparr>"

lemma drained_simps [simp]:
  "conn_fd (drained c) = conn_fd c" "conn_state (drained c) = STATE_REQ"
  "rbuf (drained c) = rbuf c" "rbuf_size (drained c) = rbuf_size c" "inbuf (drained c) = inbuf c"
  by (simp_all add: drained_def inbuf_def)

lemma state_res_pieces:
  "\<lbrakk>conn_ok c; conn_state c = STATE_RES; wr_script w = map WrN ns @ ws; \<forall>n \<in> set ns. 0 < n;
    sum_list ns = length (pending c)\<rbrakk> \<Longrightarrow>
   \<exists>w'. state_res c w = Inr (drained c, w') \<and> wr_script w' = ws \<and> rd_script w' = rd_script w
     \<and> written (conn_fd c) (trace w') = written (conn_fd c) (trace w) @ pending c
     \<and> interest (conn_fd c) (trace w') = Some EPOLLIN"
proof (induction ns arbitrary: c w)
  case Nil
  then show ?case using conn_okD(7) [of c] length_pending [of c] by simp
next
  case (Cons n ns)
  let ?w = "log_call (SysWrite (conn_fd c) (take n (pending c))) (w\<lparr>wr_script := map WrN ns @ ws\<rparr>)"
  have n: "0 < n" "n + sum_list ns = length (pending c)" using Cons.prems(4,5) by simp_all
  then have le: "wbuf_sent c + n \<le> wbuf_size c" using length_pending [OF Cons.prems(1)] by linarith
  have "n \<le> length (pending c)" using n(2) by linarith
  from try_flush_WrN [OF Cons.prems(1) _ this, of w "map WrN ns @ ws"] Cons.prems(3)
  have f: "try_flush_buffer c w = Inr (flush_outcome c (WrN n) ?w)" by simp
  show ?case
  proof (cases "wbuf_sent c + n = wbuf_size c")
    case True
    then have "sum_list ns = 0" using n(2) length_pending [OF Cons.prems(1)] by linarith
    then have ns: "ns = []" "take n (pending c) = pending c"
      using Cons.prems(4) n(2) by (cases ns; simp)+
    have "state_res c w = Inr (drained c, log_call (EpollMod (conn_fd c) EPOLLIN) ?w)"
      using f True by (simp add: state_res.simps [of c w] flush_outcome_def drained_def)
    then show ?thesis
      using ns by (simp add: log_call_def mask_step_def)
  next
    case False
    let ?c = "c\<lparr>wbuf_sent := wbuf_sent c + n\<rparr>"
    have ok: "conn_ok ?c" "conn_state ?c = STATE_RES"
      using Cons.prems(1,2) le False by (auto simp: conn_ok_def)
    note adv = pending_advance [OF Cons.prems(1) le]
    have "sum_list ns = length (pending ?c)"
      using n(2) arg_cong [OF adv, of length] by simp
    from Cons.IH [OF ok _ _ this, of ?w] Cons.prems(4) obtain w' where
      r: "state_res ?c ?w = Inr (drained ?c, w')" "wr_script w' = ws" "rd_script w' = rd_script w"
      "written (conn_fd c) (trace w') = written (conn_fd c) (trace ?w) @ pending ?c"
      "interest (conn_fd c) (trace w') = Some EPOLLIN"
      by (auto simp: log_call_def)
    have "state_res c w = Inr (drained c, w')"
      using f False r(1) by (simp add: state_res.simps [of c w] flush_outcome_def drained_def)
    moreover have "written (conn_fd c) (trace ?w) = written (conn_fd c) (trace w) @ take n (pending c)"
      by (simp add: log_call_def)
    ultimately show ?thesis
      using r(2-5) adv by simp
  qed
qed

definition fresh_conn :: conn where
  "fresh_conn = \<lparr>conn_fd = 5, conn_state = STATE_REQ, rbuf_size = 0, rbuf = replicate buf_cap 0,
     wbuf_size = 0, wbuf_sent = 0, wbuf = replicate buf_cap 0\<rparr>"

lemma fresh_conn_ok:
  "conn_ok fresh_conn" "conn_state fresh_conn = STATE_REQ" "conn_fd fresh_conn = 5"
  "rbuf_size fresh_conn = 0" "inbuf fresh_conn = []" "pending fresh_conn = []"
  by (simp_all add: conn_ok_def fresh_conn_def buf_cap_def inbuf_def pending_def)

section \<open>One request, in any pieces\<close>

text \<open>A request and what the connection does with it, when it finds it at the front.\<close>

lemma next_frame_framed:
  assumes "length (enc_req cmd) \<le> k_max_msg"
  shows "next_frame (frame (enc_req cmd) @ rest) = Request cmd rest"
proof -
  have "length cmd \<le> length (enc_req cmd)"
    by (induction cmd) (simp_all add: length_enc_req)
  with assms show ?thesis by (simp add: next_frame_Request)
qed

lemma one_request_answered:
  assumes ok: "conn_ok c" "conn_state c = STATE_REQ"
    and req: "inbuf c = frame (enc_req cmd) @ rest" "length (enc_req cmd) \<le> k_max_msg"
    and run: "do_request s cmd [] = Inr (s1, out)"
    and wr: "wr_script w = map WrN ns @ ws" "\<forall>n \<in> set ns. 0 < n" "sum_list ns = 4 + length (fit out)"
  shows "\<exists>w'. try_one_request c s w = Inr (True, drained (answer c rest (fit out)), s1, w')
     \<and> wr_script w' = ws \<and> rd_script w' = rd_script w
     \<and> written (conn_fd c) (trace w') = written (conn_fd c) (trace w) @ frame (fit out)
     \<and> interest (conn_fd c) (trace w') = Some EPOLLIN"
proof -
  let ?w = "log_call (EpollMod (conn_fd c) EPOLLOUT) w"
  have "length rest \<le> rbuf_size c"
    using arg_cong [OF req(1), of length] length_inbuf [OF ok(1)] by simp
  note a = answer_ok [OF ok this length_fit]
  have "wr_script ?w = map WrN ns @ ws" by (simp add: log_call_def wr(1))
  from state_res_pieces [OF a(1) _ this wr(2)] a(2) wr(3) obtain w' where
    "state_res (answer c rest (fit out)) ?w = Inr (drained (answer c rest (fit out)), w')" "wr_script w' = ws"
    "rd_script w' = rd_script ?w" "written (conn_fd c) (trace w') = written (conn_fd c) (trace ?w) @ frame (fit out)"
    "interest (conn_fd c) (trace w') = Some EPOLLIN"
    by auto
  then show ?thesis
    using next_frame_framed [OF req(2), of rest] run by (simp add: try_one_request_eq [OF ok(1)] req(1) log_call_def)
qed

lemma drained_ok: "conn_ok c \<Longrightarrow> conn_ok (drained c)"
  by (auto simp: conn_ok_def drained_def)

lemma filled_facts:
  assumes "conn_ok c" "conn_state c = STATE_REQ" "rbuf_size c + length bs < buf_cap"
  shows "conn_ok (filled c bs)" "conn_state (filled c bs) = STATE_REQ" "inbuf (filled c bs) = inbuf c @ bs"
    "conn_fd (filled c bs) = conn_fd c"
  using assms conn_okD(1,3) [OF assms(1)] by (auto simp: conn_ok_def filled_def inbuf_def)

lemma read_data:
  "rd_script w = RdData bs # rs \<Longrightarrow> length bs \<le> cap \<Longrightarrow>
     read_retry cap w = Inr (RdData bs, w\<lparr>rd_script := rs\<rparr>)"
  by (simp add: read_retry.simps [of cap w] sys_read_def)

lemma read_again:
  "rd_script w = RdErr EAGAIN # rs \<Longrightarrow> read_retry cap w = Inr (RdErr EAGAIN, w\<lparr>rd_script := rs\<rparr>)"
  by (simp add: read_retry.simps [of cap w] sys_read_def)

lemma write_again:
  "wr_script w = WrErr EAGAIN # ws \<Longrightarrow> write_retry fd bs w = Inr (WrErr EAGAIN, w\<lparr>wr_script := ws\<rparr>)"
  by (simp add: write_retry.simps [of fd bs w] sys_write_def)

lemma state_res_again:
  assumes "conn_ok c" and "wr_script w = WrErr EAGAIN # ws"
  shows "state_res c w = Inr (c, w\<lparr>wr_script := ws\<rparr>)"
  using conn_okD(4) [OF assms(1)]
  by (simp add: state_res.simps [of c w] try_flush_buffer_def slice_pending [OF assms(1)]
      write_again [OF assms(2)] not_less [symmetric])

lemma idle_loop:
  assumes "conn_ok c" "inbuf c = []"
  shows "request_loop c s w = Inr (c, s, w)"
  using assms by (simp add: request_loop.simps [of c s w] try_one_request_eq next_frame_def)

text \<open>A proper prefix of a request frame is no frame yet, so nothing happens but reading on.\<close>

lemma prefix_incomplete:
  assumes "bs @ cs = frame (enc_req cmd)" and "cs \<noteq> []" and "length (enc_req cmd) \<le> k_max_msg"
  shows "next_frame bs = Incomplete"
proof (cases "length bs < 4")
  case False
  have n: "unat (of_nat (length (enc_req cmd)) :: u32) = length (enc_req cmd)"
    using assms(3) by (intro unat_of_nat_u32) (simp add: k_max_msg_def)
  have "take 4 bs = take 4 (bs @ cs)" using False by simp
  then have "take 4 bs = le32 (of_nat (length (enc_req cmd)))"
    unfolding assms(1) by (simp add: frame_def)
  then have d: "unat (dec32 (take 4 bs)) = length (enc_req cmd)"
    using n by (simp add: dec32_le32)
  have "length bs + length cs = 4 + length (enc_req cmd)"
    using arg_cong [OF assms(1), of length] by simp
  then have "length bs - 4 < length (enc_req cmd)"
    using assms(2) False by (cases cs) auto
  with d False assms(3) show ?thesis by (simp add: next_frame_def Let_def)
qed (simp add: next_frame_def)

lemma incomplete_loop:
  assumes "conn_ok c" and "next_frame (inbuf c) = Incomplete"
  shows "request_loop c s w = Inr (c, s, w)"
  using assms by (simp add: request_loop.simps [of c s w] try_one_request_eq)

lemma partial_read:
  assumes "conn_ok c" and "conn_state c = STATE_REQ" and "rd_script w = RdData bs # rs" and "bs \<noteq> []"
    and "rbuf_size c + length bs < buf_cap" and "next_frame (inbuf c @ bs) = Incomplete"
  shows "state_req c s w = state_req (filled c bs) s (w\<lparr>rd_script := rs\<rparr>)"
proof -
  note d = filled_facts [OF assms(1,2,5)]
  have "read_retry (buf_cap - rbuf_size c) w = Inr (RdData bs, w\<lparr>rd_script := rs\<rparr>)"
    by (rule read_data [OF assms(3)]) (use assms(5) in simp)
  moreover have "request_loop (filled c bs) s v = Inr (filled c bs, s, v)" for v
    by (rule incomplete_loop [OF d(1)]) (use assms(6) d(3) in simp)
  ultimately have "try_fill_buffer c s w = Inr (True, filled c bs, s, w\<lparr>rd_script := rs\<rparr>)"
    using assms(4,5) d(2) by (simp add: try_fill_buffer_eq [OF assms(1)])
  then show ?thesis by (simp add: state_req.simps [of c])
qed

lemma last_read:
  assumes "conn_ok c" and "conn_state c = STATE_REQ" and "inbuf c @ bs = frame (enc_req cmd)" and "bs \<noteq> []"
    and "rd_script w = RdData bs # RdErr EAGAIN # rs" and "length (enc_req cmd) < k_max_msg"
    and "do_request s cmd [] = Inr (s1, out)"
    and "wr_script w = map WrN ns @ ws" and "\<forall>n \<in> set ns. 0 < n" and "sum_list ns = 4 + length (fit out)"
  shows "\<exists>c' w'. state_req c s w = Inr (c', s1, w') \<and> conn_ok c' \<and> conn_state c' = STATE_REQ
     \<and> inbuf c' = [] \<and> conn_fd c' = conn_fd c \<and> rd_script w' = rs
     \<and> written (conn_fd c) (trace w') = written (conn_fd c) (trace w) @ frame (fit out)
     \<and> interest (conn_fd c) (trace w') = Some EPOLLIN"
proof -
  let ?w1 = "w\<lparr>rd_script := RdErr EAGAIN # rs\<rparr>" and ?d = "filled c bs"
  have cap: "rbuf_size c + length bs < buf_cap"
    using assms(6) arg_cong [OF assms(3), of length] length_inbuf [OF assms(1)] by (simp add: buf_cap_def)
  note d = filled_facts [OF assms(1,2) cap]
  have i: "inbuf ?d = frame (enc_req cmd) @ []" using d(3) assms(3) by simp
  have "length (enc_req cmd) \<le> k_max_msg" "wr_script ?w1 = map WrN ns @ ws" using assms(6,8) by simp_all
  from one_request_answered [OF d(1,2) i this(1) assms(7) this(2) assms(9,10)] d(4) obtain w2 where
    r: "try_one_request ?d s ?w1 = Inr (True, drained (answer ?d [] (fit out)), s1, w2)"
    "rd_script w2 = RdErr EAGAIN # rs"
    "written (conn_fd c) (trace w2) = written (conn_fd c) (trace w) @ frame (fit out)"
    "interest (conn_fd c) (trace w2) = Some EPOLLIN"
    by auto
  let ?e = "drained (answer ?d [] (fit out))"
  have e: "conn_ok ?e"
    by (rule drained_ok [OF answer_ok(1) [OF d(1,2) _ length_fit]]) simp
  have "request_loop ?d s ?w1 = Inr (?e, s1, w2)"
    using r(1) idle_loop [OF e, of s1 w2] by (simp add: request_loop.simps [of ?d])
  moreover have "read_retry (buf_cap - rbuf_size c) w = Inr (RdData bs, ?w1)"
    by (rule read_data [OF assms(5)]) (use cap in simp)
  ultimately have f: "try_fill_buffer c s w = Inr (True, ?e, s1, w2)"
    using cap assms(4) by (simp add: try_fill_buffer_eq [OF assms(1)])
  have "try_fill_buffer ?e s1 w2 = Inr (False, ?e, s1, w2\<lparr>rd_script := rs\<rparr>)"
    using try_fill_buffer_eq [OF e read_again [OF r(2)]] by simp
  then have "state_req c s w = Inr (?e, s1, w2\<lparr>rd_script := rs\<rparr>)"
    using f by (simp add: state_req.simps [of c] state_req.simps [of ?e])
  then show ?thesis
    using r(3,4) e d(4) by simp
qed

lemma answer_in_pieces:
  "\<lbrakk>conn_ok c; conn_state c = STATE_REQ; inbuf c @ concat bss = frame (enc_req cmd); bss \<noteq> []; \<forall>bs \<in> set bss. bs \<noteq> [];
    rd_script w = map RdData bss @ RdErr EAGAIN # rs; length (enc_req cmd) < k_max_msg;
    do_request s cmd [] = Inr (s1, out);
    wr_script w = map WrN ns @ ws; \<forall>n \<in> set ns. 0 < n; sum_list ns = 4 + length (fit out)\<rbrakk> \<Longrightarrow>
   \<exists>c' w'. state_req c s w = Inr (c', s1, w') \<and> conn_ok c' \<and> conn_state c' = STATE_REQ
     \<and> inbuf c' = [] \<and> conn_fd c' = conn_fd c \<and> rd_script w' = rs
     \<and> written (conn_fd c) (trace w') = written (conn_fd c) (trace w) @ frame (fit out)
     \<and> interest (conn_fd c) (trace w') = Some EPOLLIN"
proof (induction bss arbitrary: c w)
  case (Cons bs bss)
  show ?case
  proof (cases "bss = []")
    case True
    with Cons.prems show ?thesis
      by (intro last_read [of c bs cmd w rs s s1 out ns ws]) simp_all
  next
    case False
    let ?w = "w\<lparr>rd_script := map RdData bss @ RdErr EAGAIN # rs\<rparr>" and ?d = "filled c bs"
    have all: "(inbuf c @ bs) @ concat bss = frame (enc_req cmd)" using Cons.prems(3) by simp
    have cap: "rbuf_size c + length bs < buf_cap"
      using Cons.prems(7) arg_cong [OF all, of length] length_inbuf [OF Cons.prems(1)] by (simp add: buf_cap_def)
    have "concat bss \<noteq> []" using False Cons.prems(5) by (cases bss) auto
    from prefix_incomplete [OF all this] Cons.prems(7) have "next_frame (inbuf c @ bs) = Incomplete" by simp
    from partial_read [OF Cons.prems(1,2) _ _ cap this] Cons.prems(5,6)
    have step: "state_req c s w = state_req ?d s ?w" by simp
    note d = filled_facts [OF Cons.prems(1,2) cap]
    have "\<exists>c' w'. state_req ?d s ?w = Inr (c', s1, w') \<and> conn_ok c' \<and> conn_state c' = STATE_REQ
       \<and> inbuf c' = [] \<and> conn_fd c' = conn_fd ?d \<and> rd_script w' = rs
       \<and> written (conn_fd ?d) (trace w') = written (conn_fd ?d) (trace ?w) @ frame (fit out)
       \<and> interest (conn_fd ?d) (trace w') = Some EPOLLIN"
      by (rule Cons.IH [OF d(1,2) _ False]) (use Cons.prems all d(3) in simp_all)
    then show ?thesis using step d(4) by simp
  qed
qed simp

text \<open>
  C26.  A request below the maximal length, whose command does not crash, is answered at once
  in whatever pieces it arrives: \<open>connection_io\<close> reads on
  until it is complete, executes it, sends its reply frame, in any number of pieces, and is
  ready for the next one, with an empty input buffer, in \<open>STATE_REQ\<close>, waiting for input.
\<close>

theorem request_answered:
  assumes "conn_ok c" and "conn_state c = STATE_REQ"
    and "inbuf c @ concat bss = frame (enc_req cmd)" and "bss \<noteq> []" and "\<forall>bs \<in> set bss. bs \<noteq> []"
    and "rd_script w = map RdData bss @ RdErr EAGAIN # rs" and "length (enc_req cmd) < k_max_msg"
    and "do_request s cmd [] = Inr (s1, out)"
    and "wr_script w = map WrN ns @ ws" and "\<forall>n \<in> set ns. 0 < n" and "sum_list ns = 4 + length (fit out)"
  shows "\<exists>c' w'. connection_io c s w = Inr (c', s1, w') \<and> conn_ok c' \<and> conn_state c' = STATE_REQ
     \<and> inbuf c' = [] \<and> conn_fd c' = conn_fd c \<and> rd_script w' = rs
     \<and> written (conn_fd c) (trace w') = written (conn_fd c) (trace w) @ frame (fit out)
     \<and> interest (conn_fd c) (trace w') = Some EPOLLIN"
  using answer_in_pieces [OF assms] assms(2) by (simp add: connection_io_def)

lemma get_nothing: "do_request db_init [ascii ''get'', [107]] [] = Inr (bump db_init, out_nil [])"
  using do_get_ok [OF db_ok_init view_init short_vals_empty, of _ "[107]" "[]"]
  by (simp add: do_request_classify classify_words enc_lookup_def)

lemma length_get: "length (enc_req [ascii ''get'', [107]]) = 16"
  by (simp add: length_enc_req ascii_def)

theorem request_answered_witness:
  "\<exists>s c w. connection_io fresh_conn db_init
       \<lparr>rd_script = [RdData (take 7 (frame (enc_req [ascii ''get'', [107]]))),
                     RdData (drop 7 (frame (enc_req [ascii ''get'', [107]]))), RdErr EAGAIN],
        wr_script = [WrN 3, WrN 2], trace = []\<rparr> = Inr (c, s, w)
     \<and> written 5 (trace w) = frame (out_nil [])"
proof -
  let ?f = "frame (enc_req [ascii ''get'', [107]])"
  have ne: "\<forall>bs \<in> set [take 7 ?f, drop 7 ?f]. bs \<noteq> []"
    using length_get length_frame [of "enc_req [ascii ''get'', [107]]"] by simp
  from request_answered [OF fresh_conn_ok(1,2) _ _ ne _ _ get_nothing, of
      "\<lparr>rd_script = [RdData (take 7 ?f), RdData (drop 7 ?f), RdErr EAGAIN], wr_script = [WrN 3, WrN 2], trace = []\<rparr>"
      "[]" "[3, 2]" "[]"]
  show ?thesis
    by (auto simp: fresh_conn_ok fit_def k_max_msg_def out_nil_def length_get)
qed

section \<open>A request that fills the buffer\<close>

text \<open>
  C27.  A request of the maximal length can abort the server: a payload of \<open>k_max_msg\<close>
  bytes is within the limit and is a complete, well-formed request, but when its frame
  arrives in one read it fills the buffer exactly, and \<open>assert(rbuf_size < sizeof(rbuf))\<close>
  fails after the read.
\<close>

theorem full_buffer_aborts:
  assumes "conn_ok c" and "conn_state c = STATE_REQ" and "rbuf_size c = 0"
    and "rd_script w = RdData (frame (enc_req cmd)) # rs" and "length (enc_req cmd) = k_max_msg"
  shows "next_frame (frame (enc_req cmd)) = Request cmd [] \<and> connection_io c s w = Inl AssertFail"
proof
  show "next_frame (frame (enc_req cmd)) = Request cmd []"
    using next_frame_framed [of cmd "[]"] assms(5) by simp
  let ?bs = "frame (enc_req cmd)"
  have l: "length ?bs = buf_cap" using assms(5) by (simp add: buf_cap_def)
  have "read_retry (buf_cap - rbuf_size c) w = Inr (RdData ?bs, w\<lparr>rd_script := rs\<rparr>)"
    by (rule read_data [OF assms(4)]) (use l assms(3) in simp)
  then have "try_fill_buffer c s w = Inl AssertFail"
    using assms(3) l by (simp add: try_fill_buffer_eq [OF assms(1)])
  then show "connection_io c s w = Inl AssertFail"
    using assms(2) by (simp add: connection_io_def state_req.simps [of c])
qed

theorem full_buffer_aborts_witness:
  "connection_io fresh_conn db_init
     \<lparr>rd_script = [RdData (frame (enc_req [replicate 4088 97]))], wr_script = [], trace = []\<rparr> = Inl AssertFail"
proof -
  have "length (enc_req [replicate 4088 97]) = k_max_msg"
    by (simp add: length_enc_req k_max_msg_def)
  from full_buffer_aborts [OF fresh_conn_ok(1,2,4) _ this] show ?thesis by simp
qed

section \<open>Two requests in one read\<close>

text \<open>
  C28.  A pipelined request can be left waiting: two requests arrive in one read, and the
  first \<open>write\<close> of the first reply would block.  The event loop comes back when the
  socket is writable; the reply goes out, the connection returns to \<open>STATE_REQ\<close> and
  waits for input, and the second request, complete in the buffer, is neither executed
  nor answered.
\<close>

theorem pipelined_request_waits:
  assumes "conn_ok c" and "conn_state c = STATE_REQ" and "rbuf_size c = 0"
    and "rd_script w = RdData (frame (enc_req cmd) @ frame (enc_req cmd2)) # rs"
    and "length (enc_req cmd) + length (enc_req cmd2) + 4 < k_max_msg"
    and "do_request s cmd [] = Inr (s1, out)" and "wr_script w = WrErr EAGAIN # ws"
    and "w2 = \<lparr>rd_script = rds, wr_script = [WrN (4 + length (fit out))], trace = tr\<rparr>"
  shows "\<exists>c1 w1 c2 w3. connection_io c s w = Inr (c1, s1, w1) \<and> conn_state c1 = STATE_RES
     \<and> connection_io c1 s1 w2 = Inr (c2, s1, w3) \<and> conn_state c2 = STATE_REQ
     \<and> next_frame (inbuf c2) = Request cmd2 []
     \<and> written (conn_fd c) (trace w3) = written (conn_fd c) tr @ frame (fit out)
     \<and> interest (conn_fd c) (trace w3) = Some EPOLLIN"
proof -
  let ?bs = "frame (enc_req cmd) @ frame (enc_req cmd2)" and ?w1 = "w\<lparr>rd_script := rs\<rparr>"
  let ?d = "filled c ?bs"
  have cap: "rbuf_size c + length ?bs < buf_cap" using assms(3,5) by (simp add: buf_cap_def)
  note d = filled_facts [OF assms(1,2) cap]
  have i: "inbuf ?d = ?bs" using d(3) assms(3) by (simp add: inbuf_def)
  have len: "length (enc_req cmd) \<le> k_max_msg" "length (enc_req cmd2) \<le> k_max_msg" using assms(5) by simp_all
  let ?a = "answer ?d (frame (enc_req cmd2)) (fit out)"
  have "length (frame (enc_req cmd2)) \<le> rbuf_size ?d"
    using arg_cong [OF i, of length] length_inbuf [OF d(1)] by simp
  note a = answer_ok [OF d(1,2) this length_fit]
  let ?l = "log_call (EpollMod (conn_fd c) EPOLLOUT) ?w1"
  have sr: "state_res ?a ?l = Inr (?a, ?l\<lparr>wr_script := ws\<rparr>)"
    by (rule state_res_again [OF a(1)]) (simp add: log_call_def assms(7))
  have "try_one_request ?d s ?w1 = Inr (False, ?a, s1, ?l\<lparr>wr_script := ws\<rparr>)"
    using next_frame_framed [OF len(1), of "frame (enc_req cmd2)"] assms(6) d(4) sr
    by (simp add: try_one_request_eq [OF d(1)] i)
  then have "request_loop ?d s ?w1 = Inr (?a, s1, ?l\<lparr>wr_script := ws\<rparr>)"
    by (simp add: request_loop.simps [of ?d])
  moreover have "read_retry (buf_cap - rbuf_size c) w = Inr (RdData ?bs, ?w1)"
    by (rule read_data [OF assms(4)]) (use cap in simp)
  ultimately have "try_fill_buffer c s w = Inr (False, ?a, s1, ?l\<lparr>wr_script := ws\<rparr>)"
    using cap by (simp add: try_fill_buffer_eq [OF assms(1)])
  then have 1: "connection_io c s w = Inr (?a, s1, ?l\<lparr>wr_script := ws\<rparr>)"
    using assms(2) by (simp add: connection_io_def state_req.simps [of c])
  have "wr_script w2 = map WrN [4 + length (fit out)] @ []" using assms(8) by simp
  from state_res_pieces [OF a(1) _ this] a(2) d(4) obtain w3 where
    2: "state_res ?a w2 = Inr (drained ?a, w3)"
    "written (conn_fd c) (trace w3) = written (conn_fd c) tr @ frame (fit out)"
    "interest (conn_fd c) (trace w3) = Some EPOLLIN"
    using assms(8) by auto
  have "next_frame (inbuf (drained ?a)) = Request cmd2 []"
    using next_frame_framed [OF len(2), of "[]"] by simp
  moreover have "connection_io ?a s1 w2 = Inr (drained ?a, s1, w3)"
    using 2(1) by (simp add: connection_io_def)
  ultimately show ?thesis
    using 1 2(2,3)
    by (intro exI [of _ ?a] exI [of _ "?l\<lparr>wr_script := ws\<rparr>"] exI [of _ "drained ?a"] exI [of _ w3]) simp
qed

theorem pipelined_request_waits_witness:
  "\<exists>s1 c1 w1 c2 w3. connection_io fresh_conn db_init
       \<lparr>rd_script = [RdData (frame (enc_req [ascii ''get'', [107]]) @ frame (enc_req [ascii ''keys'']))],
        wr_script = [WrErr EAGAIN], trace = []\<rparr> = Inr (c1, s1, w1)
     \<and> connection_io c1 s1 \<lparr>rd_script = [], wr_script = [WrN 5], trace = []\<rparr> = Inr (c2, s1, w3)
     \<and> conn_state c2 = STATE_REQ \<and> next_frame (inbuf c2) = Request [ascii ''keys''] []"
proof -
  have "do_request db_init [ascii ''get'', [107]] [] = Inr (bump db_init, out_nil [])"
    using do_get_ok [OF db_ok_init view_init short_vals_empty, of _ "[107]" "[]"]
    by (simp add: do_request_classify classify_words enc_lookup_def)
  from pipelined_request_waits [OF fresh_conn_ok(1,2,4) _ _ this _ refl, of
      "\<lparr>rd_script = [RdData (frame (enc_req [ascii ''get'', [107]]) @ frame (enc_req [ascii ''keys'']))],
        wr_script = [WrErr EAGAIN], trace = []\<rparr>" "[ascii ''keys'']" "[]" "[]" "[]" "[]"]
  show ?thesis
    by (auto simp: fit_def k_max_msg_def length_enc_req ascii_def)
qed

end
