(* ===== verification/ConnProps.thy ===== *)
theory ConnProps
  imports ServerSpec ConnCases "HOL-Library.Sublist"
begin

text \<open>
  The properties of a connection and of the event loop: every run serves a prefix of the
  requests in order, what the faults are, and the situations in which a request is refused,
  left waiting, or aborts the server.
\<close>

section \<open>System calls that were interrupted\<close>

text \<open>The same answers of the kernel with every \<open>EINTR\<close> taken out.\<close>

definition uninterrupted :: "io \<Rightarrow> io" where
  "uninterrupted w = w\<lparr>rd_script := filter (\<lambda>r. r \<noteq> RdErr EINTR) (rd_script w),
                       wr_script := filter (\<lambda>r. r \<noteq> WrErr EINTR) (wr_script w)\<rparr>"

lemma uninterrupted_simps [simp]:
  "trace (uninterrupted w) = trace w"
  "uninterrupted (log_call c w) = log_call c (uninterrupted w)"
  by (simp_all add: uninterrupted_def log_call_def)

lemma write_retry_uninterrupted:
  "write_retry fd bs (uninterrupted w) = map_sum id (map_prod id uninterrupted) (write_retry fd bs w)"
proof (induction fd bs w rule: write_retry.induct)
  case (1 fd bs w)
  show ?case
  proof (cases "wr_script w")
    case Nil
    then show ?thesis
      by (simp add: write_retry.simps [of fd bs] sys_write_def uninterrupted_def)
  next
    case (Cons r rs)
    show ?thesis
    proof (cases "r = WrErr EINTR")
      case True
      let ?w = "w\<lparr>wr_script := rs\<rparr>"
      have s: "sys_write fd bs w = Inr (r, ?w)" and u: "uninterrupted w = uninterrupted ?w"
        using Cons True by (simp_all add: sys_write_def uninterrupted_def)
      show ?thesis
        using "1.IH" [OF s refl True] s True unfolding u by (subst (2) write_retry.simps) (simp add: id_def)
    next
      case False
      then show ?thesis
        using Cons
        by (cases r) (simp_all add: write_retry.simps [of fd bs] sys_write_def uninterrupted_def log_call_def)
    qed
  qed
qed

lemma read_retry_uninterrupted:
  "read_retry cap (uninterrupted w) = map_sum id (map_prod id uninterrupted) (read_retry cap w)"
proof (induction cap w rule: read_retry.induct)
  case (1 cap w)
  show ?case
  proof (cases "rd_script w")
    case Nil
    then show ?thesis
      by (simp add: read_retry.simps [of cap] sys_read_def uninterrupted_def)
  next
    case (Cons r rs)
    show ?thesis
    proof (cases "r = RdErr EINTR")
      case True
      let ?w = "w\<lparr>rd_script := rs\<rparr>"
      have s: "sys_read cap w = Inr (r, ?w)" and u: "uninterrupted w = uninterrupted ?w"
        using Cons True by (simp_all add: sys_read_def uninterrupted_def)
      show ?thesis
        using "1.IH" [OF s refl True] s True unfolding u by (subst (2) read_retry.simps) (simp add: id_def)
    next
      case False
      then show ?thesis
        using Cons by (cases r) (simp_all add: read_retry.simps [of cap] sys_read_def uninterrupted_def)
    qed
  qed
qed

text \<open>The layers above make their calls through these two.\<close>

abbreviation via1 :: "('a \<times> io) res \<Rightarrow> ('a \<times> io) res" where
  "via1 \<equiv> map_sum id (map_prod id uninterrupted)"

abbreviation via2 :: "('a \<times> 'b \<times> io) res \<Rightarrow> ('a \<times> 'b \<times> io) res" where
  "via2 \<equiv> map_sum id (map_prod id (map_prod id uninterrupted))"

abbreviation via3 :: "('a \<times> 'b \<times> 'c \<times> io) res \<Rightarrow> ('a \<times> 'b \<times> 'c \<times> io) res" where
  "via3 \<equiv> map_sum id (map_prod id (map_prod id (map_prod id uninterrupted)))"

lemma try_flush_uninterrupted:
  "try_flush_buffer c (uninterrupted w) = via2 (try_flush_buffer c w)"
proof (cases "slice (wbuf c) (wbuf_sent c) (wbuf_size c - wbuf_sent c)")
  case (Inr bs)
  show ?thesis
  proof (cases "write_retry (conn_fd c) bs w")
    case (Inr r)
    with \<open>slice _ _ _ = Inr bs\<close> show ?thesis
      by (cases r; cases "fst r")
        (auto simp: try_flush_buffer_def write_retry_uninterrupted Let_def assert_that_def)
  qed (use Inr in \<open>simp add: try_flush_buffer_def write_retry_uninterrupted\<close>)
qed (simp add: try_flush_buffer_def)

lemma state_res_uninterrupted: "state_res c (uninterrupted w) = via1 (state_res c w)"
proof (induction c w rule: state_res.induct)
  case (1 c w)
  show ?case
  proof (cases "try_flush_buffer c w")
    case (Inr r)
    obtain again c1 w1 where r: "r = (again, c1, w1)" by (cases r)
    with Inr "1.IH" [OF Inr [unfolded r] refl refl] show ?thesis
      by (subst (1 2) state_res.simps) (auto simp: try_flush_uninterrupted id_def)
  qed (subst (1 2) state_res.simps, simp add: try_flush_uninterrupted)
qed

lemma try_one_request_uninterrupted:
  "try_one_request c s (uninterrupted w) = via3 (try_one_request c s w)"
proof -
  have st: "rbind (state_res d (log_call l (uninterrupted w))) (\<lambda>(c3, w1). Inr (conn_state c3 = STATE_REQ, c3, s1, w1))
      = via3 (rbind (state_res d (log_call l w)) (\<lambda>(c3, w1). Inr (conn_state c3 = STATE_REQ, c3, s1, w1)))" for d l s1
    using state_res_uninterrupted [of d "log_call l w"]
    by (cases "state_res d (log_call l w)") auto
  have push: "rbind m f = via3 (rbind m g)" if "\<And>x. f x = via3 (g x)" for m :: "'x res" and f g
    using that by (cases m) auto
  have pif: "(if b then x else y) = via3 (if b then x' else y')" if "x = via3 x'" "y = via3 y'" for b x y x' y'
    using that by simp
  show ?thesis
    unfolding try_one_request_def Let_def
    by (intro push pif) (auto intro!: push pif simp: st split: prod.splits)
qed

lemma request_loop_uninterrupted:
  "request_loop c s (uninterrupted w) = via2 (request_loop c s w)"
proof (induction c s w rule: request_loop.induct)
  case (1 c s w)
  show ?case
  proof (cases "try_one_request c s w")
    case (Inr r)
    obtain again c1 s1 w1 where r: "r = (again, c1, s1, w1)" by (cases r)
    with Inr "1.IH" [OF Inr [unfolded r] refl refl refl] show ?thesis
      by (subst (1 2) request_loop.simps) (auto simp: try_one_request_uninterrupted id_def)
  qed (subst (1 2) request_loop.simps, simp add: try_one_request_uninterrupted)
qed

lemma try_fill_uninterrupted:
  "try_fill_buffer c s (uninterrupted w) = via3 (try_fill_buffer c s w)"
proof (cases "read_retry (buf_cap - rbuf_size c) w")
  case (Inr r)
  obtain rv w1 where r: "r = (rv, w1)" by (cases r)
  have rd: "read_retry (buf_cap - rbuf_size c) (uninterrupted w) = Inr (rv, uninterrupted w1)"
    using Inr r by (simp add: read_retry_uninterrupted)
  have loop: "rbind (request_loop d s (uninterrupted w1)) (\<lambda>(c2, s2, w2). Inr (conn_state c2 = STATE_REQ, c2, s2, w2))
      = via3 (rbind (request_loop d s w1) (\<lambda>(c2, s2, w2). Inr (conn_state c2 = STATE_REQ, c2, s2, w2)))" for d
    using request_loop_uninterrupted [of d s w1] by (cases "request_loop d s w1") auto
  have push: "rbind m f = via3 (rbind m g)" if "\<And>x. f x = via3 (g x)" for m :: "'x res" and f g
    using that by (cases m) auto
  show ?thesis
    unfolding try_fill_buffer_def rd Inr r rbind_Inr Let_def
    by (rule push) (auto intro!: push simp: loop split: rd_ret.splits)
qed (cases "rbuf_size c < buf_cap"; simp add: try_fill_buffer_def read_retry_uninterrupted assert_that_def)

lemma state_req_uninterrupted:
  "state_req c s (uninterrupted w) = via2 (state_req c s w)"
proof (induction c s w rule: state_req.induct)
  case (1 c s w)
  show ?case
  proof (cases "try_fill_buffer c s w")
    case (Inr r)
    obtain again c1 s1 w1 where r: "r = (again, c1, s1, w1)" by (cases r)
    with Inr "1.IH" [OF Inr [unfolded r] refl refl refl] show ?thesis
      by (subst (1 2) state_req.simps) (auto simp: try_fill_uninterrupted id_def)
  qed (subst (1 2) state_req.simps, simp add: try_fill_uninterrupted)
qed

text \<open>
  C25.  Interrupted system calls are invisible: for every script of answers the kernel can
  give, taking out the \<open>EINTR\<close>s changes neither what \<open>connection_io\<close> does to the
  connection and the key space, nor the calls it makes, nor its fault if there is one.
\<close>

theorem interruptions_invisible:
  "connection_io c s (uninterrupted w) =
     (case connection_io c s w of
        Inl f \<Rightarrow> Inl f
      | Inr (c', s', w') \<Rightarrow> Inr (c', s', uninterrupted w'))"
  using state_req_uninterrupted [of c s w] state_res_uninterrupted [of c w]
  by (cases "state_req c s w"; cases "state_res c w") (auto simp: connection_io_def)

section \<open>Refinement\<close>

text \<open>
  C1.  Everything that comes back from \<open>connection_io\<close> is accounted for: a run on a
  well-formed connection takes complete requests off the input stream, in order and one
  frame each, answers each with one frame in the same order, with the replies and the
  final map of the abstract machine, and leaves the connection well-formed with the event
  mask that fits its state.  No byte of input or output is lost, duplicated or reordered,
  however the kernel fragments reads and writes.
\<close>

theorem connection_refines:
  assumes "link_ok c s w M" and "connection_io c s w = Inr (c', s', w')"
  shows "\<exists>M'. link_ok c' s' w' M' \<and> served c s w M c' s' w' M'"
  by (rule connection_io_ok [OF assms])

lemma run_cmds_compare:
  assumes "run_cmds ex s (xs @ zs) = Inr (s1, os)" and "run_cmds ex s xs = Inr (s2, ps)"
  shows "\<exists>qs. os = ps @ qs \<and> (zs = [] \<longrightarrow> s1 = s2 \<and> qs = [])"
  using assms by (induction xs arbitrary: s os ps) (auto simp: rbind_eq_Inr)

lemma ran_compare:
  assumes "ran c s w (ys @ zs) os c1 s1 w1" and "ran c s v ys ps c2 s2 v2"
    and "out_stream c w = out_stream c v"
  shows "\<exists>more. out_stream c1 w1 = out_stream c2 v2 @ more \<and> (zs = [] \<longrightarrow> s1 = s2 \<and> more = [])"
proof -
  from assms(1,2) obtain qs where "os = ps @ qs" "zs = [] \<longrightarrow> s1 = s2 \<and> qs = []"
    using run_cmds_compare [of _ s ys zs] unfolding ran_def by blast
  with assms show ?thesis by (auto simp: ran_def)
qed

text \<open>
  C14.  Fragmentation does not matter: let a connection be handled with two kernels that
  deliver the same bytes, cut differently, and take the output differently.  Then one of the
  two has put out what the other has and perhaps more; and when neither has left a
  complete request unread, they have executed the same requests: the key spaces are equal,
  node by node, so are the bytes put out, and so is the input that is left.
\<close>

theorem fragmentation_invisible:
  assumes "link_ok c s w M" and "link_ok c s v M"
    and "in_stream c w = in_stream c v" and "out_stream c w = out_stream c v"
    and "connection_io c s w = Inr (c1, s1, w1)" and "connection_io c s v = Inr (c2, s2, v2)"
  shows "(prefix (out_stream c1 w1) (out_stream c2 v2) \<or> prefix (out_stream c2 v2) (out_stream c1 w1))
     \<and> (next_request (in_stream c1 w1) = None \<and> next_request (in_stream c2 v2) = None \<longrightarrow>
          s1 = s2 \<and> out_stream c1 w1 = out_stream c2 v2 \<and> in_stream c1 w1 = in_stream c2 v2)"
proof -
  from connection_io_ok [OF assms(1,5)] connection_io_ok [OF assms(2,6)] obtain xs os ys ps where
    r: "ran c s w xs os c1 s1 w1" "ran c s v ys ps c2 s2 v2" by (auto simp: served_def)
  then have st: "concat (map request_frame xs) @ in_stream c1 w1 = concat (map request_frame ys) @ in_stream c2 v2"
    "\<forall>x \<in> set xs. valid_request x" "\<forall>y \<in> set ys. valid_request y"
    using assms(3) unfolding ran_def by simp_all
  have "prefix (out_stream c1 w1) (out_stream c2 v2) \<or> prefix (out_stream c2 v2) (out_stream c1 w1)"
    using req.streams_compare [OF st]
  proof (elim disjE exE conjE)
    fix zs assume "xs = ys @ zs"
    with ran_compare [of c s w ys zs os c1 s1 w1 v ps c2 s2 v2] r assms(4) show ?thesis by auto
  next
    fix zs assume "ys = xs @ zs"
    with ran_compare [of c s v xs zs ps c2 s2 v2 w os c1 s1 w1] r assms(4) show ?thesis by auto
  qed
  moreover have "s1 = s2 \<and> out_stream c1 w1 = out_stream c2 v2 \<and> in_stream c1 w1 = in_stream c2 v2"
    if "next_request (in_stream c1 w1) = None" "next_request (in_stream c2 v2) = None"
  proof -
    from req.streams_unique [OF st that] have "xs = ys @ []" "in_stream c1 w1 = in_stream c2 v2" by simp_all
    with ran_compare [of c s w ys "[]" os c1 s1 w1 v ps c2 s2 v2] r assms(4) show ?thesis by auto
  qed
  ultimately show ?thesis by blast
qed

theorem fragmentation_invisible_witness:
  "\<exists>c1 s1 w1 c2 w2. connection_io fresh_conn db_init
       \<lparr>rd_script = [RdData (frame (enc_req [ascii ''get'', [107]])), RdErr EAGAIN],
        wr_script = [WrN 5], trace = [EpollAdd 5 EPOLLIN]\<rparr> = Inr (c1, s1, w1)
     \<and> connection_io fresh_conn db_init
       \<lparr>rd_script = [RdData (take 7 (frame (enc_req [ascii ''get'', [107]]))),
                     RdData (drop 7 (frame (enc_req [ascii ''get'', [107]]))), RdErr EAGAIN],
        wr_script = [WrN 3, WrN 2], trace = [EpollAdd 5 EPOLLIN]\<rparr> = Inr (c2, s1, w2)
     \<and> out_stream c1 w1 = out_stream c2 w2"
proof -
  let ?f = "frame (enc_req [ascii ''get'', [107]])"
  let ?w = "\<lparr>rd_script = [RdData ?f, RdErr EAGAIN], wr_script = [WrN 5], trace = [EpollAdd 5 EPOLLIN]\<rparr>"
    and ?v = "\<lparr>rd_script = [RdData (take 7 ?f), RdData (drop 7 ?f), RdErr EAGAIN],
        wr_script = [WrN 3, WrN 2], trace = [EpollAdd 5 EPOLLIN]\<rparr>"
  have lf: "length ?f = 20" by (simp add: length_get)
  have links: "link_ok fresh_conn db_init ?w Map.empty" "link_ok fresh_conn db_init ?v Map.empty"
    using lf by (simp_all add: link_ok_def fresh_conn_ok db_rep_init mask_ok_def mask_step_def interest_def
      room_def in_stream_def del: length_frame)
  have ne: "\<forall>bs \<in> set [?f]. bs \<noteq> []" "\<forall>bs \<in> set [take 7 ?f, drop 7 ?f]. bs \<noteq> []"
    using lf by (auto simp del: length_frame)
  obtain c1 w1 where r1: "connection_io fresh_conn db_init ?w = Inr (c1, bump db_init, w1)" "in_stream c1 w1 = []"
    using answer_in_pieces [OF fresh_conn_ok(1,2) _ _ ne(1) _ _ get_nothing, of ?w "[]" "[5]" "[]"]
    by (auto simp: connection_io_def fresh_conn_ok fit_def k_max_msg_def out_nil_def length_get in_stream_def)
  obtain c2 w2 where r2: "connection_io fresh_conn db_init ?v = Inr (c2, bump db_init, w2)" "in_stream c2 w2 = []"
    using answer_in_pieces [OF fresh_conn_ok(1,2) _ _ ne(2) _ _ get_nothing, of ?v "[]" "[3, 2]" "[]"]
    by (auto simp: connection_io_def fresh_conn_ok fit_def k_max_msg_def out_nil_def length_get in_stream_def)
  have "in_stream fresh_conn ?w = in_stream fresh_conn ?v" "out_stream fresh_conn ?w = out_stream fresh_conn ?v"
    by (simp_all add: in_stream_def out_stream_def)
  from fragmentation_invisible [OF links this r1(1) r2(1)] r1 r2 show ?thesis
    by (auto simp: next_request_def next_frame_def)
qed

text \<open>
  C12.  What can go wrong while a connection is handled, each with its cause.  Besides the
  kernel's script ending there are two faults.  One is the NULL dereference of the resize:
  then the input holds, behind requests that are executed before it, a \<open>SET\<close> of a key
  that is not stored, whose insertion makes the table over full while an empty bucket
  precedes a non-empty one (\<open>resize_crash\<close>).  The other is the failed \<open>assert\<close> of
  \<open>try_fill_buffer\<close>, exactly when a \<open>read\<close> fills the read buffer to its last byte
  (\<open>buffer_full\<close>), which takes at least 4100 bytes of buffered and arriving input.  There
  is no access outside a buffer, no dangling pointer and no other NULL dereference or
  failed \<open>assert\<close>.
\<close>

theorem connection_faults:
  assumes "link_ok c s w M" and "conn_state c \<noteq> STATE_END"
  shows "(connection_io c s w = Inl f \<longrightarrow>
       f = EnvStop \<or> f = NullDeref \<and> resize_crash c s w \<or> f = AssertFail \<and> buffer_full c s w)
     \<and> (connection_io c s w = Inl AssertFail \<longleftrightarrow> buffer_full c s w)
     \<and> (buffer_full c s w \<longrightarrow> buf_cap \<le> length (in_stream c w))"
  using connection_io_Inl [OF assms] buffer_full_aborts [OF assms(1)] by auto

text \<open>
  C13.  \<open>try_one_request\<close>, exactly, on each of its branches: it waits for an incomplete
  frame, ends the connection on a frame that is too long or does not parse, and otherwise
  executes the command, packs the reply, or the \<open>ERR_2BIG\<close> reply when that exceeds the
  message limit, moves the rest of the input to the front, switches to writing and starts
  to flush.
\<close>

theorem one_request_exact:
  assumes "conn_ok c"
  shows "try_one_request c s w = (case next_frame (inbuf c) of
       Incomplete \<Rightarrow> Inr (False, c, s, w)
     | BadFrame \<Rightarrow> Inr (False, c\<lparr>conn_state := STATE_END\<rparr>, s, w)
     | Request cmd rest \<Rightarrow>
         rbind (do_request s cmd []) (\<lambda>(s1, out).
         rbind (state_res (answer c rest (fit out)) (log_call (EpollMod (conn_fd c) EPOLLOUT) w))
           (\<lambda>(c3, w1). Inr (conn_state c3 = STATE_REQ, c3, s1, w1))))"
  by (rule try_one_request_eq [OF assms])

definition start_io :: "rd_ret list \<Rightarrow> io" where
  "start_io rs = \<lparr>rd_script = rs, wr_script = [], trace = [EpollAdd 5 EPOLLIN]\<rparr>"

lemma fresh_link:
  "length (rd_bytes rs) < 2 ^ 59 \<Longrightarrow> link_ok fresh_conn db_init (start_io rs) Map.empty"
  by (simp add: link_ok_def fresh_conn_ok db_rep_init mask_ok_def start_io_def mask_step_def interest_def
      room_def in_stream_def)

text \<open>A \<open>SET\<close> that arrives on a fresh connection and is answered.\<close>

definition set_io :: io where
  "set_io = \<lparr>rd_script = [RdData (frame (enc_req [ascii ''set'', [107], [118]])), RdErr EAGAIN],
     wr_script = [WrN 5], trace = [EpollAdd 5 EPOLLIN]\<rparr>"

lemma set_link: "link_ok fresh_conn db_init set_io Map.empty"
  by (simp add: link_ok_def fresh_conn_ok db_rep_init mask_ok_def set_io_def mask_step_def interest_def
      room_def in_stream_def length_enc_req ascii_def)

lemma view_unique:
  assumes "view ents M" and "view ents N"
  shows "M = N"
proof
  fix k
  have "M k = Some v \<longleftrightarrow> N k = Some v" for v using assms by (simp add: view_def)
  then show "M k = N k" by (metis option.exhaust)
qed

theorem connection_refines_witness:
  "\<exists>c s w. connection_io fresh_conn db_init set_io = Inr (c, s, w)
     \<and> served fresh_conn db_init set_io Map.empty c s w [[107] \<mapsto> [118]]
     \<and> written 5 (trace w) = frame (out_nil [])"
proof -
  obtain s where s: "do_request db_init [ascii ''set'', [107], [118]] [] = Inr (s, out_nil [])"
    "db_rep s [[107] \<mapsto> [118]]" using stored by blast
  have "length (enc_req [ascii ''set'', [107], [118]]) = 21" by (simp add: length_enc_req ascii_def)
  then obtain c w where r: "connection_io fresh_conn db_init set_io = Inr (c, s, w)"
    "written 5 (trace w) = frame (out_nil [])"
    using answer_in_pieces [OF fresh_conn_ok(1,2) _ _ _ _ _ s(1),
        of "[frame (enc_req [ascii ''set'', [107], [118]])]" set_io "[]" "[5]" "[]"]
    by (auto simp: connection_io_def fresh_conn_ok set_io_def fit_def k_max_msg_def out_nil_def)
  from connection_refines [OF set_link r(1)] obtain M where
    m: "link_ok c s w M" "served fresh_conn db_init set_io Map.empty c s w M" by blast
  have "M = [[107] \<mapsto> [118]]"
    using m(1) s(2) view_unique by (auto simp: link_ok_def db_rep_def)
  with r m(2) show ?thesis by blast
qed

theorem connection_faults_witness:
  "connection_io fresh_conn db_init (start_io [RdData (replicate buf_cap 0)]) = Inl AssertFail
     \<and> buffer_full fresh_conn db_init (start_io [RdData (replicate buf_cap 0)])
     \<and> \<not> buffer_full fresh_conn db_init set_io"
proof -
  let ?w = "start_io [RdData (replicate buf_cap 0)]"
  have "read_retry (buf_cap - rbuf_size fresh_conn) ?w = Inr (RdData (replicate buf_cap 0), start_io [])"
    using read_data [of ?w "replicate buf_cap 0" "[]"] by (simp add: start_io_def fresh_conn_ok)
  then have "try_fill_buffer fresh_conn db_init ?w = Inl AssertFail"
    by (simp add: try_fill_buffer_eq [OF fresh_conn_ok(1)] fresh_conn_ok) (simp add: buf_cap_def)
  then have r: "connection_io fresh_conn db_init ?w = Inl AssertFail"
    by (simp add: connection_io_def fresh_conn_ok state_req.simps [of fresh_conn])
  have "length (rd_bytes [RdData (replicate buf_cap 0)]) < 2 ^ 59"
    by (simp add: buf_cap_def k_max_msg_def)
  from connection_faults [OF fresh_link [OF this], of AssertFail] r
  have "buffer_full fresh_conn db_init ?w" by (simp add: fresh_conn_ok)
  moreover have "length (in_stream fresh_conn set_io) < buf_cap"
    by (simp add: in_stream_def set_io_def fresh_conn_ok length_enc_req ascii_def buf_cap_def k_max_msg_def)
  then have "\<not> buffer_full fresh_conn db_init set_io"
    using connection_faults [OF set_link, of AssertFail] by (auto simp: fresh_conn_ok)
  ultimately show ?thesis using r by blast
qed

theorem one_request_exact_witness:
  "\<exists>c w. try_one_request (filled fresh_conn (frame (enc_req [ascii ''get'', [107]]))) db_init
       (start_io []\<lparr>wr_script := [WrN 5]\<rparr>) = Inr (True, c, bump db_init, w)
     \<and> written 5 (trace w) = frame (out_nil [])"
proof -
  let ?f = "frame (enc_req [ascii ''get'', [107]])" and ?w = "start_io []\<lparr>wr_script := [WrN 5]\<rparr>"
  let ?c = "filled fresh_conn ?f"
  have len: "length (enc_req [ascii ''get'', [107]]) \<le> k_max_msg" by (simp add: length_get k_max_msg_def)
  have "rbuf_size fresh_conn + length ?f < buf_cap" by (simp add: fresh_conn_ok buf_cap_def k_max_msg_def length_get)
  note d = filled_facts [OF fresh_conn_ok(1,2) this]
  have i: "inbuf ?c = ?f @ []" using d(3) by (simp add: fresh_conn_ok)
  have fd: "conn_fd ?c = 5" by (simp add: filled_def fresh_conn_ok)
  let ?a = "answer ?c [] (out_nil [])"
  have a: "conn_ok ?a" "conn_state ?a = STATE_RES" "pending ?a = frame (out_nil [])" "conn_fd ?a = 5"
    using answer_ok [OF d(1,2), of "[]" "out_nil []"] fd by (simp_all add: k_max_msg_def out_nil_def answer_def)
  obtain w1 where w1: "state_res ?a (log_call (EpollMod 5 EPOLLOUT) ?w) = Inr (drained ?a, w1)"
    "written 5 (trace w1) = frame (out_nil [])"
    using state_res_pieces [OF a(1,2), of "log_call (EpollMod 5 EPOLLOUT) ?w" "[5]" "[]"] a(3,4)
    by (auto simp: log_call_def start_io_def out_nil_def)
  have "fit (out_nil []) = out_nil []" by (simp add: fit_def out_nil_def k_max_msg_def)
  with one_request_exact [OF d(1), of db_init ?w] next_frame_framed [OF len, of "[]"] w1 fd i show ?thesis
    by (simp add: get_nothing drained_def)
qed

section \<open>The event loop\<close>

text \<open>
  C4.  The invariant of the running server: whatever batches of events \<open>epoll_wait\<close>
  reports, each registered descriptor other than the listening one has its connection in
  \<open>fd2conn\<close> under its own number, well-formed, not ended, and registered for exactly the
  event its state waits for; no other slot is occupied; the listening socket stays
  registered; and the key space represents a finite map.
\<close>

theorem server_invariant:
  assumes "server_reach n s" and "n < 2 ^ 59"
  shows "\<exists>M. server_ok s M \<and> card (dom M) \<le> n"
  by (rule server_reach_inv [OF assms])

definition quiet_setup :: setup_env where
  "quiet_setup = \<lparr>su_socket = 3, su_bind = 0, su_listen = 0, su_fcntl = \<lparr>getfl_err = False, setfl_err = False\<rparr>,
     su_epoll = 4\<rparr>"

definition first_server :: server where
  "first_server = \<lparr>listen_fd = 3, fd2conn = [], sv_db = db_init, sv_trace = [SetNonBlock 3, EpollAdd 3 EPOLLIN]\<rparr>"

lemma quiet_start: "server_setup quiet_setup = Inr first_server"
  by (simp add: server_setup_def quiet_setup_def first_server_def fd_set_nb_def add_call_def Let_def)

lemma first_reach: "server_reach 0 first_server"
  by (rule server_reach.start [OF quiet_start])

text \<open>
  C5.  What can stop a round of the event loop, in any reachable state, each with its cause.
  \<open>epoll_wait\<close> fails and the server dies.  Or the events before some event of the batch
  were handled, and at that event (\<open>event_fault\<close>): the kernel's script ends, or gives an
  answer no kernel gives (\<open>EnvStop\<close>); it is a new connection for which \<open>fcntl\<close> or \<open>epoll_ctl\<close> fails, and the server dies; or it is
  on a connection that sits in its slot of \<open>fd2conn\<close>, and either its input holds a \<open>SET\<close>
  that makes the resize dereference NULL (\<open>resize_crash\<close>) or a \<open>read\<close> fills its buffer and
  the \<open>assert\<close> fails (\<open>buffer_full\<close>).  Nothing else: no access outside a buffer or table,
  no empty slot, no freed connection or entry.  The batch is one \<open>epoll_wait\<close> can report,
  registered descriptors, each once; the weight of the events so far, the bytes they bring
  and 4100 for each, stays below \<open>2 ^ 59\<close>.
\<close>

theorem server_faults:
  assumes "server_reach n s"
    and "case wait of None \<Rightarrow> True | Some es \<Rightarrow> batch_ok es s \<and> n + weight es < 2 ^ 59"
    and "server_round wait s = Inl f"
  shows "wait = None \<and> f = Died
     \<or> (\<exists>es1 e es2 s1. wait = Some (es1 @ e # es2) \<and> handle_events es1 s = Inr s1 \<and> event_fault e s1 f)"
proof (cases wait)
  case None
  with assms(3) show ?thesis by (simp add: server_round_def)
next
  case (Some es)
  with assms(2) have es: "batch_ok es s" "n + weight es < 2 ^ 59" by simp_all
  with server_reach_inv [OF assms(1)] obtain M where "server_ok s M" "card (dom M) \<le> n" by auto
  with handle_events_ok [OF this(1) es(1)] es(2) Some assms(3) have "batch_fault es s f"
    by (auto simp: server_round_def)
  with Some show ?thesis unfolding batch_fault_def by blast
qed

definition accept_event :: event where
  "accept_event = \<lparr>active_fd = 3, ev_accept = \<lparr>ac_fd = 6, ac_fcntl = \<lparr>getfl_err = True, setfl_err = False\<rparr>,
     ac_mem = None, ac_ctl = 0\<rparr>, ev_reads = [], ev_writes = []\<rparr>"

lemma accept_batch: "batch_ok [accept_event] first_server" "weight [accept_event] < 2 ^ 59"
  by (simp_all add: batch_ok_def watched_def interest_def first_server_def accept_event_def mask_step_def
      weight_def event_weight_def buf_cap_def k_max_msg_def)

text \<open>A client is accepted whose descriptor cannot be read by \<open>fcntl\<close>: the server dies, for that reason.\<close>

theorem server_faults_witness:
  "server_round (Some [accept_event]) first_server = Inl Died \<and> event_fault accept_event first_server Died"
proof -
  have r: "server_round (Some [accept_event]) first_server = Inl Died"
    by (simp add: server_round_def handle_event_def accept_new_conn_def fd_set_nb_def fd_open_def
        interest_def first_server_def accept_event_def mask_step_def Let_def)
  from server_faults [OF first_reach _ r] accept_batch obtain es1 e es2 s1 where
    f: "[accept_event] = es1 @ e # es2" "handle_events es1 first_server = Inr s1" "event_fault e s1 Died" by auto
  from f(1) have "es1 = []" "e = accept_event" by (auto simp: Cons_eq_append_conv)
  with f r show ?thesis by simp
qed

text \<open>
  C22.  Clients do not interfere: an event on one connection serves requests of that
  connection only, as the abstract machine does, and leaves every other connection, its
  buffers, its state and its registration exactly as they were.
\<close>

theorem event_isolated:
  assumes "server_ok s M" and "watched (active_fd e) s" and "active_fd e \<noteq> listen_fd s" and "fits e M"
    and "handle_event e s = Inr s'"
  shows "(\<exists>M'. server_ok s' M' \<and> event_serves e s s' M M')
     \<and> (\<forall>g. g \<noteq> active_fd e \<longrightarrow> slot_of s' g = slot_of s g
          \<and> interest g (sv_trace s') = interest g (sv_trace s))"
  using handle_event_ok [OF assms(1,2,4,5)] assms(3) by auto

text \<open>
  C24.  An accepted client gets a slot under its descriptor, with empty buffers, in
  \<open>STATE_REQ\<close> and registered for input; nothing else changes in \<open>fd2conn\<close>, which grows
  when the descriptor is beyond its end.
\<close>

theorem accept_registers:
  assumes "accept_new_conn e s = Inr (0, s')"
  shows "\<exists>c. slot_of s' (ac_fd e) = Some c \<and> conn_fd c = ac_fd e \<and> conn_state c = STATE_REQ
     \<and> inbuf c = [] \<and> pending c = [] \<and> conn_ok c
     \<and> interest (ac_fd e) (sv_trace s') = Some EPOLLIN
     \<and> (\<forall>g. g \<noteq> ac_fd e \<longrightarrow> slot_of s' g = slot_of s g \<and> interest g (sv_trace s') = interest g (sv_trace s))"
  by (rule accept_slot [OF assms])

definition good_accept :: accept_env where
  "good_accept = \<lparr>ac_fd = 5, ac_fcntl = \<lparr>getfl_err = False, setfl_err = False\<rparr>,
     ac_mem = Some (replicate buf_cap 0, replicate buf_cap 0), ac_ctl = 0\<rparr>"

definition second_server :: server where
  "second_server = first_server\<lparr>fd2conn := replicate 5 None @ [Some fresh_conn],
     sv_trace := [SetNonBlock 3, EpollAdd 3 EPOLLIN, SetNonBlock 5, EpollAdd 5 EPOLLIN]\<rparr>"

lemma good_accept_run: "accept_new_conn good_accept first_server = Inr (0, second_server)"
  by (simp add: accept_new_conn_def good_accept_def first_server_def second_server_def fd_open_def interest_def
      mask_step_def fd_set_nb_def add_call_def conn_put_def fresh_conn_def Let_def numeral_eq_Suc)

theorem accept_registers_witness:
  "\<exists>s' c. accept_new_conn good_accept first_server = Inr (0, s') \<and> slot_of s' 5 = Some c"
  using accept_registers [OF good_accept_run] good_accept_run by (auto simp: good_accept_def)

definition quiet_event :: event where
  "quiet_event = \<lparr>active_fd = 5, ev_accept = good_accept, ev_reads = [RdErr EAGAIN], ev_writes = []\<rparr>"

definition accepting :: event where
  "accepting = quiet_event\<lparr>active_fd := 3\<rparr>"

lemma second_reach: "server_reach (weight [accepting]) second_server"
proof -
  have "batch_ok [accepting] first_server"
    by (simp add: batch_ok_def watched_def interest_def first_server_def accepting_def mask_step_def)
  moreover have "server_round (Some [accepting]) first_server = Inr second_server"
    using good_accept_run
    by (simp add: server_round_def handle_event_def accepting_def quiet_event_def first_server_def)
  ultimately show ?thesis using server_reach.round [OF first_reach] by simp
qed

theorem server_invariant_witness:
  "\<exists>M. server_ok second_server M \<and> slot_of second_server 5 = Some fresh_conn \<and> watched 5 second_server"
proof -
  have "weight [accepting] < 2 ^ 59"
    by (simp add: weight_def event_weight_def accepting_def quiet_event_def buf_cap_def k_max_msg_def)
  from server_invariant [OF second_reach this] show ?thesis
    by (auto simp: slot_of_def watched_def interest_def second_server_def mask_step_def nth_append)
qed

theorem event_isolated_witness:
  "\<exists>s'. handle_event quiet_event second_server = Inr s' \<and> slot_of s' 3 = slot_of second_server 3"
proof -
  have ok: "server_ok second_server Map.empty"
    using accept_ok(1) [OF server_setup_ok [OF quiet_start] good_accept_run] .
  have w: "watched 5 second_server"
    by (simp add: watched_def interest_def second_server_def mask_step_def)
  let ?w = "\<lparr>rd_script = [RdErr EAGAIN], wr_script = [], trace = sv_trace second_server\<rparr>"
  have "connection_io fresh_conn db_init ?w = Inr (fresh_conn, db_init, ?w\<lparr>rd_script := []\<rparr>)"
    using try_fill_buffer_eq [OF fresh_conn_ok(1) read_again [of ?w "[]"]]
    by (simp add: connection_io_def fresh_conn_ok state_req.simps [of fresh_conn])
  then obtain s' where r: "handle_event quiet_event second_server = Inr s'"
    by (simp add: handle_event_def quiet_event_def conn_at_def conn_io_at_def second_server_def first_server_def
        fresh_conn_ok nth_append Let_def)
  have "fits quiet_event Map.empty"
    by (simp add: fits_def event_weight_def quiet_event_def buf_cap_def k_max_msg_def)
  from event_isolated [OF ok _ _ this r] w have "slot_of s' 3 = slot_of second_server 3"
    by (simp add: quiet_event_def second_server_def first_server_def)
  with r show ?thesis by blast
qed

section \<open>The end of a connection\<close>

text \<open>A read that tells of the end of the stream, or of an error that is not temporary.\<close>

definition hang_up :: "rd_ret \<Rightarrow> bool" where
  "hang_up r \<longleftrightarrow> r = RdData [] \<or> r = RdErr EOTHER"

lemma hang_up_ends:
  assumes "conn_ok c" and "conn_state c = STATE_REQ" and "rd_script w = r # rs" and "hang_up r"
  shows "connection_io c s w = Inr (c\<lparr>conn_state := STATE_END\<rparr>, s, w\<lparr>rd_script := rs\<rparr>)"
proof -
  have "read_retry (buf_cap - rbuf_size c) w = Inr (r, w\<lparr>rd_script := rs\<rparr>)"
    using assms(3,4) by (auto simp: read_retry.simps [of _ w] sys_read_def hang_up_def)
  from try_fill_buffer_eq [OF assms(1) this] assms(4)
  have "try_fill_buffer c s w = Inr (False, c\<lparr>conn_state := STATE_END\<rparr>, s, w\<lparr>rd_script := rs\<rparr>)"
    by (auto simp: hang_up_def)
  then show ?thesis
    using assms(2) by (simp add: connection_io_def state_req.simps [of c])
qed

text \<open>
  C23.  A client that hangs up is forgotten: when the read on a connection that waits for
  input reports the end of the stream or an error, the event loop closes the descriptor,
  takes it out of the epoll set and clears its slot; the key space and the other
  connections stay as they are, whatever part of a request was in the buffer.
\<close>

theorem hang_up_closes:
  assumes "server_ok s M" and "slot_of s (active_fd e) = Some c" and "active_fd e \<noteq> listen_fd s"
    and "conn_state c = STATE_REQ" and "ev_reads e = r # rs" and "hang_up r"
  shows "\<exists>s'. handle_event e s = Inr s' \<and> server_ok s' M \<and> slot_of s' (active_fd e) = None
     \<and> \<not> watched (active_fd e) s' \<and> sv_db s' = sv_db s
     \<and> sv_trace s' = sv_trace s @ [Close (active_fd e), EpollDel (active_fd e)]
     \<and> (\<forall>g. g \<noteq> active_fd e \<longrightarrow> slot_of s' g = slot_of s g)"
proof -
  let ?fd = "active_fd e"
  have c: "conn_ok c" "conn_fd c = ?fd"
    using server_okD(7) [OF assms(1,2)] by (simp_all add: live_conn_def)
  have at: "conn_at s ?fd = Inr (Some c)" "0 \<le> ?fd" "nat ?fd < length (fd2conn s)"
    using assms(2) by (auto simp: slot_of_def conn_at_def split: if_splits)
  define s' where "s' = s\<lparr>fd2conn := (fd2conn s)[nat ?fd := None],
    sv_trace := sv_trace s @ [Close ?fd, EpollDel ?fd]\<rparr>"
  have "rd_script (conn_io_at e s) = r # rs" by (simp add: conn_io_at_def assms(5))
  from hang_up_ends [OF c(1) assms(4) this assms(6), of "sv_db s"]
  have run: "handle_event e s = Inr s'"
    using assms(3) at(1) c(2) at(2,3) by (simp add: handle_event_def add_call_def conn_io_at_def conn_clear_def s'_def Let_def)
  have sl: "slot_of s' g = (if g = ?fd then None else slot_of s g)" for g
    using at(2,3) by (auto simp: s'_def slot_of_def nth_list_update)
  have int: "interest g (sv_trace s') = (if g = ?fd then None else interest g (sv_trace s))" for g
    by (simp add: s'_def mask_step_def)
  have "server_ok s' M"
    by (rule server_ok_slot [OF assms(1,3)])
      (use sl int server_okD(1-3) [OF assms(1)] in \<open>auto simp: watched_def s'_def\<close>)
  with run sl int show ?thesis
    by (intro exI [of _ s']) (simp add: watched_def s'_def)
qed

theorem hang_up_closes_witness:
  "\<exists>s'. handle_event (quiet_event\<lparr>ev_reads := [RdData []]\<rparr>) second_server = Inr s' \<and> slot_of s' 5 = None"
proof -
  have ok: "server_ok second_server Map.empty"
    using accept_ok(1) [OF server_setup_ok [OF quiet_start] good_accept_run] .
  have "slot_of second_server 5 = Some fresh_conn"
    by (simp add: slot_of_def second_server_def nth_append)
  with hang_up_closes [OF ok, of "quiet_event\<lparr>ev_reads := [RdData []]\<rparr>" fresh_conn "RdData []" "[]"]
  show ?thesis
    by (auto simp: quiet_event_def second_server_def first_server_def fresh_conn_ok hang_up_def)
qed

end
