(* ===== verification/History.thy ===== *)
theory History
  imports ConnProps KVProps
begin

text \<open>
  The history of a server: the requests of all its clients in the order in which it
  executed them, each with its reply, read off the bytes the connections took in and put
  out.  The sequence of replies is that of the abstract machine run on one request after
  the other, so clients see a single map.
\<close>

section \<open>Histories\<close>

text \<open>
  What an event moves: the request frames that left the input of its connection and the
  reply frames that were added to its output.
\<close>

definition event_moves :: "event \<Rightarrow> server \<Rightarrow> server \<Rightarrow> bytes list list \<Rightarrow> bytes list \<Rightarrow> bool" where
  "event_moves e s s' cmds outs \<longleftrightarrow>
     (if active_fd e = listen_fd s then cmds = [] \<and> outs = []
      else \<exists>c c' w'. slot_of s (active_fd e) = Some c
        \<and> connection_io c (sv_db s) (conn_io_at e s) = Inr (c', sv_db s', w')
        \<and> ran c (sv_db s) (conn_io_at e s) cmds outs c' (sv_db s') w')"

inductive history :: "server \<Rightarrow> (bytes list \<times> bytes) list \<Rightarrow> bool" where
  start: "server_setup e = Inr s \<Longrightarrow> history s []"
| event: "history s h \<Longrightarrow> watched (active_fd e) s \<Longrightarrow> handle_event e s = Inr s' \<Longrightarrow>
     event_moves e s s' cmds outs \<Longrightarrow> length outs = length cmds \<Longrightarrow> history s' (h @ zip cmds outs)"

definition cmds_of :: "(bytes list \<times> bytes) list \<Rightarrow> kcmd list" where
  "cmds_of h = map (classify \<circ> fst) h"

definition map_of_history :: "(bytes list \<times> bytes) list \<Rightarrow> (bytes \<rightharpoonup> bytes)" where
  "map_of_history h = foldl abs_step Map.empty (cmds_of h)"

definition sequential :: "(bytes list \<times> bytes) list \<Rightarrow> bool" where
  "sequential h \<longleftrightarrow> replies_ok Map.empty (cmds_of h) (map snd h)"

text \<open>The key space is, node by node, what executing the history from the start gives.\<close>

definition replays :: "server \<Rightarrow> (bytes list \<times> bytes) list \<Rightarrow> bool" where
  "replays s h \<longleftrightarrow> run_cmds exec db_init (map fst h) = Inr (sv_db s, map snd h)"

lemma accept_db: "accept_new_conn e s = Inr (rv, s') \<Longrightarrow> sv_db s' = sv_db s"
  by (auto simp: accept_new_conn_def fd_set_nb_def Let_def rbind_eq_Inr add_call_def split: if_splits option.splits)

lemma event_moves_db:
  assumes "event_moves e s s' cmds outs" and "handle_event e s = Inr s'"
  shows "run_cmds exec (sv_db s) cmds = Inr (sv_db s', outs)"
proof (cases "active_fd e = listen_fd s")
  case True
  with assms(2) obtain rv where "accept_new_conn (ev_accept e) s = Inr (rv, s')"
    by (auto simp: handle_event_def rbind_eq_Inr)
  with assms(1) True show ?thesis by (simp add: event_moves_def accept_db)
qed (use assms(1) in \<open>auto simp: event_moves_def ran_def\<close>)

lemma history_replays: "history s h \<Longrightarrow> replays s h"
proof (induction rule: history.induct)
  case (start e s)
  then show ?case
    by (auto simp: replays_def server_setup_def Let_def fd_set_nb_def add_call_def split: if_splits)
next
  case (event s h e s' cmds outs)
  from event_moves_db [OF event.hyps(4,3)] run_cmds_append event.IH event.hyps(5) show ?case
    unfolding replays_def by fastforce
qed

lemma replies_ok_length: "replies_ok M cs outs \<Longrightarrow> length outs = length cs"
  by (induction M cs outs rule: replies_ok.induct) auto

lemma history_snoc:
  assumes "sequential h" and "length outs = length cmds"
    and "replies_ok (map_of_history h) (map classify cmds) outs"
  shows "sequential (h @ zip cmds outs)"
    and "map_of_history (h @ zip cmds outs) = foldl abs_step (map_of_history h) (map classify cmds)"
proof -
  have z: "cmds_of (h @ zip cmds outs) = cmds_of h @ map classify cmds"
    "map snd (h @ zip cmds outs) = map snd h @ outs"
    using assms(2) by (simp_all add: cmds_of_def flip: map_map)
  show "sequential (h @ zip cmds outs)"
    using assms(1,3) replies_ok_append unfolding sequential_def z map_of_history_def by blast
  show "map_of_history (h @ zip cmds outs) = foldl abs_step (map_of_history h) (map classify cmds)"
    by (simp add: map_of_history_def z)
qed

lemma event_serves_moves:
  assumes "event_serves e s s' M M'"
  shows "\<exists>cmds outs. event_moves e s s' cmds outs \<and> replies_ok M (map classify cmds) outs
     \<and> M' = foldl abs_step M (map classify cmds)"
proof (cases "active_fd e = listen_fd s")
  case True
  with assms have "event_moves e s s' [] []" "M' = M"
    by (simp_all add: event_moves_def event_serves_def)
  then show ?thesis by (intro exI [of _ "[]"]) simp
next
  case False
  with assms obtain c c' w' where c: "slot_of s (active_fd e) = Some c"
    "connection_io c (sv_db s) (conn_io_at e s) = Inr (c', sv_db s', w')"
    "served c (sv_db s) (conn_io_at e s) M c' (sv_db s') w' M'"
    by (auto simp: event_serves_def)
  from c(3) obtain cmds outs where "ran c (sv_db s) (conn_io_at e s) cmds outs c' (sv_db s') w'"
    "replies_ok M (map classify cmds) outs" "M' = foldl abs_step M (map classify cmds)"
    unfolding served_def by blast
  with c(1,2) False show ?thesis
    by (intro exI [of _ cmds] exI [of _ outs]) (auto simp: event_moves_def)
qed

text \<open>One event, then a batch.\<close>

lemma history_event:
  assumes h: "history s h" "sequential h" and ok: "server_ok s (map_of_history h)"
    and reg: "watched (active_fd e) s" and fit: "fits e (map_of_history h)" and run: "handle_event e s = Inr s'"
  shows "\<exists>h'. history s' h' \<and> sequential h' \<and> server_ok s' (map_of_history h')
     \<and> card (dom (map_of_history h')) \<le> card (dom (map_of_history h)) + event_weight e
     \<and> (\<forall>g. g \<noteq> active_fd e \<longrightarrow> watched g s \<longrightarrow> watched g s')"
proof -
  from handle_event_ok [OF ok reg fit run] obtain M' where
    m: "server_ok s' M'" "event_serves e s s' (map_of_history h) M'"
    "card (dom M') \<le> card (dom (map_of_history h)) + event_weight e"
    "\<forall>g. g \<noteq> active_fd e \<longrightarrow> watched g s \<longrightarrow> watched g s'" by blast
  from event_serves_moves [OF m(2)] obtain cmds outs where
    mv: "event_moves e s s' cmds outs" "replies_ok (map_of_history h) (map classify cmds) outs"
    "M' = foldl abs_step (map_of_history h) (map classify cmds)" by blast
  have len: "length outs = length cmds"
    using replies_ok_length [OF mv(2)] by simp
  note snoc = history_snoc [OF h(2) len mv(2)]
  have "history s' (h @ zip cmds outs)"
    by (rule history.event [OF h(1) reg run mv(1) len])
  with snoc m mv(3) show ?thesis by auto
qed

definition has_history :: "nat \<Rightarrow> server \<Rightarrow> bool" where
  "has_history n s \<longleftrightarrow> (\<exists>h. history s h \<and> sequential h \<and> server_ok s (map_of_history h)
     \<and> card (dom (map_of_history h)) \<le> n)"

interpretation hist: loop_invariant has_history
proof
  show "has_history 0 s" if "server_setup e = Inr s" for e s
    using server_setup_ok [OF that] history.start [OF that] unfolding has_history_def
    by (intro exI [of _ "[]"]) (simp add: sequential_def map_of_history_def cmds_of_def)
next
  fix n s ev s'
  assume a: "has_history n s" "watched (active_fd ev) s" "n + event_weight ev < 2 ^ 59" "handle_event ev s = Inr s'"
  then obtain h where h: "history s h" "sequential h" "server_ok s (map_of_history h)"
    "card (dom (map_of_history h)) \<le> n" by (auto simp: has_history_def)
  then have "fits ev (map_of_history h)" using a(3) by (simp add: fits_def)
  from history_event [OF h(1-3) a(2) this a(4)] h(4)
  show "has_history (n + event_weight ev) s' \<and> (\<forall>g. g \<noteq> active_fd ev \<longrightarrow> watched g s \<longrightarrow> watched g s')"
    by (fastforce simp: has_history_def)
qed

text \<open>
  C3.  Sequential consistency of the whole server: every state that the event loop reaches
  has a history, an interleaving of the requests that were taken off its connections with
  the replies that were put on them, event by event.  Executing that one sequence on the
  empty key space gives the replies and the very key space of the server, and the replies and
  the map are those of the abstract machine.  Clients on different connections see one map.
\<close>

theorem server_sequential:
  assumes "server_reach n s" and "n < 2 ^ 59"
  shows "\<exists>h. history s h \<and> run_cmds exec db_init (map fst h) = Inr (sv_db s, map snd h)
    \<and> sequential h \<and> server_ok s (map_of_history h)"
  using hist.reach [OF assms] history_replays by (auto simp: replays_def has_history_def)

text \<open>A server that has accepted a client and stored a value for it.\<close>

definition storing :: event where
  "storing = quiet_event\<lparr>ev_reads := [RdData (request_frame [ascii ''set'', [107], [118]]), RdErr EAGAIN],
     ev_writes := [WrN 3, WrN 2]\<rparr>"

lemma third_reach:
  "\<exists>n s. server_reach n s \<and> n < 2 ^ 59 \<and> sv_db s \<noteq> db_init \<and> written 5 (sv_trace s) \<noteq> []"
proof -
  obtain s1 where s1: "do_request db_init [ascii ''set'', [107], [118]] [] = Inr (s1, out_nil [])"
    "db_rep s1 [[107] \<mapsto> [118]]" using stored by blast
  have "s1 \<noteq> db_init"
  proof
    assume "s1 = db_init"
    with s1(2) have "view (db_entries db_init) [[107] \<mapsto> [118]]" by (auto simp: db_rep_def)
    moreover have "db_entries db_init = Map.empty" by (simp add: db_init_def)
    ultimately show False by (simp add: view_def) (metis option.distinct(1))
  qed
  have len: "length (enc_req [ascii ''set'', [107], [118]]) = 21"
    by (simp add: length_enc_req ascii_def)
  let ?v = "conn_io_at storing second_server"
  have "\<exists>c' w'. connection_io fresh_conn db_init ?v = Inr (c', s1, w') \<and> conn_state c' = STATE_REQ
      \<and> written 5 (trace w') \<noteq> []"
    using answer_in_pieces [OF fresh_conn_ok(1,2) _ _ _ _ _ s1(1),
        of "[frame (enc_req [ascii ''set'', [107], [118]])]" ?v "[]" "[3, 2]" "[]"] len fresh_conn_ok
    by (auto simp: connection_io_def conn_io_at_def storing_def request_frame_def quiet_event_def k_max_msg_def
        fit_def out_nil_def)
  then obtain c' w' where io: "connection_io fresh_conn db_init ?v = Inr (c', s1, w')" "conn_state c' = STATE_REQ"
    "written 5 (trace w') \<noteq> []" by blast
  have "\<exists>s. handle_event storing second_server = Inr s \<and> sv_db s = s1 \<and> sv_trace s = trace w'"
    using io by (simp add: handle_event_def storing_def quiet_event_def conn_at_def second_server_def first_server_def
        nth_append Let_def STATE_REQ_def STATE_END_def)
  then obtain s where r: "server_round (Some [storing]) second_server = Inr s" "sv_db s = s1"
    "sv_trace s = trace w'"
    by (auto simp: server_round_def)
  have "batch_ok [storing] second_server"
    by (simp add: batch_ok_def watched_def interest_def second_server_def storing_def quiet_event_def mask_step_def)
  from server_reach.round [OF second_reach this r(1)] have "server_reach (weight [accepting] + weight [storing]) s" .
  moreover have "weight [accepting] + weight [storing] < 2 ^ 59"
    using len by (simp add: weight_def event_weight_def accepting_def storing_def quiet_event_def request_frame_def
        buf_cap_def k_max_msg_def)
  ultimately show ?thesis using r(2,3) io(3) \<open>s1 \<noteq> db_init\<close> by metis
qed

theorem server_sequential_witness:
  "\<exists>s h. history s h \<and> sequential h \<and> h \<noteq> [] \<and> server_ok s (map_of_history h)"
proof -
  obtain n s where s: "server_reach n s" "n < 2 ^ 59" "sv_db s \<noteq> db_init"
    using third_reach by blast
  from server_sequential [OF s(1,2)] obtain h where
    h: "history s h" "run_cmds exec db_init (map fst h) = Inr (sv_db s, map snd h)" "sequential h"
    "server_ok s (map_of_history h)" by blast
  with s(3) have "h \<noteq> []" by auto
  with h show ?thesis by blast
qed

end
