(* ===== verification/OnePacket.thy ===== *)
theory OnePacket
  imports ConnProps
begin

text \<open>
  A pipeline of requests in one read, and what the crafted keys of \<open>KVProps\<close> make of
  it: one packet brings the server down.
\<close>

section \<open>A pipeline in the buffer\<close>

lemma request_loop_crash:
  "\<lbrakk>conn_ok c; conn_state c = STATE_REQ; inbuf c = concat (map request_frame cmds);
    run_cmds exec s cmds = Inl f; \<forall>cmd \<in> set cmds. length (enc_req cmd) \<le> k_max_msg;
    \<forall>cmd \<in> set cmds. \<forall>s s' out. exec s cmd = Inr (s', out) \<longrightarrow> out = out_nil [];
    wr_script w = replicate n (WrN 5) @ ws; length cmds \<le> n\<rbrakk> \<Longrightarrow>
   request_loop c s w = Inl f"
proof (induction cmds arbitrary: c s w n)
  case (Cons cmd cmds)
  let ?rest = "concat (map request_frame cmds)"
  have i: "inbuf c = frame (enc_req cmd) @ ?rest" using Cons.prems(3) by (simp add: request_frame_def [of cmd])
  have len: "length (enc_req cmd) \<le> k_max_msg" using Cons.prems(5) by simp
  note next_frame_framed [OF len, of ?rest]
  show ?case
  proof (cases "exec s cmd")
    case (Inl g)
    with Cons.prems(4) have "g = f" by simp
    with Inl next_frame_framed [OF len, of ?rest] show ?thesis
      by (simp add: request_loop.simps [of c] try_one_request_eq [OF Cons.prems(1)] i)
  next
    case (Inr r)
    with Cons.prems(6) obtain s1 where r: "exec s cmd = Inr (s1, out_nil [])" by (cases r) auto
    from Cons.prems(4) r have run: "run_cmds exec s1 cmds = Inl f" by (auto simp: rbind_eq_Inl)
    from Cons.prems(8) obtain m where n: "n = Suc m" "length cmds \<le> m" by (cases n) auto
    have fit: "fit (out_nil []) = out_nil []" "length (out_nil []) = 1" by (simp_all add: fit_def out_nil_def k_max_msg_def)
    have "wr_script w = map WrN [5] @ replicate m (WrN 5) @ ws" using Cons.prems(7) n(1) by simp
    from one_request_answered [OF Cons.prems(1,2) i len r this] fit obtain w1 where
      t: "try_one_request c s w = Inr (True, drained (answer c ?rest (out_nil [])), s1, w1)"
      "wr_script w1 = replicate m (WrN 5) @ ws" by auto
    let ?d = "drained (answer c ?rest (out_nil []))"
    have "length ?rest \<le> rbuf_size c"
      using arg_cong [OF i, of length] length_inbuf [OF Cons.prems(1)] by simp
    from drained_ok [OF answer_ok(1) [OF Cons.prems(1,2) this]] have ok: "conn_ok ?d"
      using length_fit [of "out_nil []"] fit by simp
    have "request_loop ?d s1 w1 = Inl f"
      by (rule Cons.IH [OF ok _ _ run _ _ t(2) n(2)]) (use Cons.prems(5,6) in simp_all)
    then show ?thesis
      using t(1) by (simp add: request_loop.simps [of c])
  qed
qed simp

lemma set_reply: "do_request s [ascii ''set'', k, v] [] = Inr (s', out) \<Longrightarrow> out = out_nil []"
  by (cases "stack_key k s") (auto simp: do_request_classify classify_words do_set_def arg_def Let_def rbind_eq_Inr)

section \<open>One packet\<close>

text \<open>
  C10.  One packet brings the server down: 36 pipelined \<open>SET\<close>s of keys whose hashes leave the
  same remainder, 2 or 3, modulo 4, that fit into the buffer together and arrive in one
  read on a fresh connection of an empty server, end in a NULL dereference, when the
  kernel takes the replies.
\<close>

theorem one_packet_crashes:
  assumes "conn_ok c" and "conn_state c = STATE_REQ" and "inbuf c = []"
    and "distinct ks" and "length ks = 36" and "1 < b" and "b < 4"
    and "\<forall>k \<in> set ks. unat (str_hash k) mod 4 = b"
    and "packet = concat (map (\<lambda>k. frame (enc_req [ascii ''set'', k, v])) ks)" and "length packet < buf_cap"
    and "rd_script w = RdData packet # rs" and "wr_script w = replicate 36 (WrN 5) @ ws"
  shows "connection_io c db_init w = Inl NullDeref"
proof -
  let ?cmds = "map (\<lambda>k. [ascii ''set'', k, v]) ks" and ?d = "filled c packet" and ?w = "w\<lparr>rd_script := rs\<rparr>"
  have z: "rbuf_size c = 0" using length_inbuf [OF assms(1)] assms(3) by simp
  have p: "packet = concat (map request_frame ?cmds)"
    using assms(9) by (simp add: request_frame_def comp_def)
  have cap: "rbuf_size c + length packet < buf_cap" using assms(10) z by simp
  note d = filled_facts [OF assms(1,2) cap]
  have small: "\<forall>cmd \<in> set ?cmds. length (enc_req cmd) \<le> k_max_msg"
  proof
    fix cmd assume "cmd \<in> set ?cmds"
    then have "length (request_frame cmd) \<le> length packet"
      unfolding p by (auto simp: length_concat comp_def intro!: member_le_sum_list)
    then show "length (enc_req cmd) \<le> k_max_msg"
      using assms(10) by (simp add: request_frame_def buf_cap_def)
  qed
  have "request_loop ?d db_init ?w = Inl NullDeref"
    by (rule request_loop_crash [OF d(1,2) _ crafted_keys_run [OF assms(4-8)] small, of _ 36 ws])
      (use d(3) assms(3,5,12) p set_reply in auto)
  moreover have "read_retry (buf_cap - rbuf_size c) w = Inr (RdData packet, ?w)"
    by (rule read_data [OF assms(11)]) (use cap in simp)
  moreover have "packet \<noteq> []"
    using assms(5,9) by (cases ks) auto
  ultimately have "try_fill_buffer c db_init w = Inl NullDeref"
    using cap by (simp add: try_fill_buffer_eq [OF assms(1)])
  then show ?thesis
    using assms(2) by (simp add: connection_io_def state_req.simps [of c])
qed

definition attack :: event where
  "attack = quiet_event\<lparr>ev_reads := [RdData (concat (map (\<lambda>k. frame (enc_req [ascii ''set'', k, []])) crafted))],
     ev_writes := replicate 36 (WrN 5)\<rparr>"

theorem one_packet_crashes_witness:
  "server_round (Some [attack]) second_server = Inl NullDeref"
proof -
  let ?p = "concat (map (\<lambda>k. frame (enc_req [ascii ''set'', k, []])) crafted)"
  have "\<forall>k \<in> set crafted. length (frame (enc_req [ascii ''set'', k, []])) = 24"
    by (auto simp: crafted_def length_enc_req ascii_def)
  then have "length ?p = 24 * 36"
    using crafted_facts(2) by (simp add: length_concat comp_def sum_list_triv cong: map_cong)
  then have "length ?p < buf_cap" by (simp add: buf_cap_def k_max_msg_def)
  from one_packet_crashes [OF fresh_conn_ok(1,2,5) crafted_facts(1,2) _ _ crafted_facts(3) refl this,
      of "conn_io_at attack second_server" "[]" "[]"]
  have "connection_io fresh_conn db_init (conn_io_at attack second_server) = Inl NullDeref"
    by (simp add: conn_io_at_def attack_def)
  then show ?thesis
    by (simp add: server_round_def handle_event_def attack_def quiet_event_def conn_at_def second_server_def
        first_server_def nth_append)
qed

end
