(* ===== verification/Descriptors.thy ===== *)
theory Descriptors
  imports History
begin

text \<open>
  The use of descriptors by the running server, read off the calls it makes: nothing is
  written to, and no event mask changed for, a descriptor that is not registered, and
  none is registered twice.
\<close>

section \<open>Live calls\<close>

definition call_live :: "syscall list \<Rightarrow> syscall \<Rightarrow> bool" where
  "call_live before c \<longleftrightarrow> (case c of
       SysWrite f bs \<Rightarrow> interest f before \<noteq> None
     | EpollMod f e \<Rightarrow> interest f before \<noteq> None
     | EpollAdd f e \<Rightarrow> interest f before = None
     | _ \<Rightarrow> True)"

fun calls_live :: "syscall list \<Rightarrow> syscall list \<Rightarrow> bool" where
  "calls_live before [] \<longleftrightarrow> True"
| "calls_live before (c # cs) \<longleftrightarrow> call_live before c \<and> calls_live (before @ [c]) cs"

lemma calls_live_append [simp]:
  "calls_live before (cs @ ds) \<longleftrightarrow> calls_live before cs \<and> calls_live (before @ cs) ds"
  by (induction before cs rule: calls_live.induct) auto

text \<open>The calls of a connection on its own descriptor keep it registered.\<close>

lemma own_calls_live:
  "list_all (own_call fd) cs \<Longrightarrow> interest fd before \<noteq> None \<Longrightarrow>
     calls_live before cs \<and> interest fd (before @ cs) \<noteq> None"
proof (induction before cs rule: calls_live.induct)
  case (2 before c cs)
  then have "call_live before c" "interest fd (before @ [c]) \<noteq> None"
    by (auto simp: call_live_def own_call_def mask_step_def split: syscall.splits)
  with 2 show ?case by simp
qed simp

lemma calls_live_at:
  "calls_live before (cs @ c # ds) \<Longrightarrow> call_live (before @ cs) c"
  by simp

section \<open>The invariant\<close>

lemma accept_calls_live:
  assumes "accept_new_conn e s = Inr (rv, s')" and "calls_live [] (sv_trace s)"
  shows "calls_live [] (sv_trace s')"
  using assms by (auto simp: accept_new_conn_def fd_set_nb_def Let_def rbind_eq_Inr add_call_def call_live_def
      fd_open_def mask_step_def split: if_splits option.splits)

lemma event_calls_live:
  assumes ok: "server_ok s M" and reg: "watched (active_fd e) s" and fit: "fits e M"
    and run: "handle_event e s = Inr s'" and live: "calls_live [] (sv_trace s)"
  shows "calls_live [] (sv_trace s')"
proof (cases "active_fd e = listen_fd s")
  case True
  with run obtain rv where "accept_new_conn (ev_accept e) s = Inr (rv, s')"
    by (auto simp: handle_event_def rbind_eq_Inr)
  then show ?thesis by (rule accept_calls_live [OF _ live])
next
  case False
  from conn_at_watched [OF ok reg False] obtain c where
    c: "conn_at s (active_fd e) = Inr (Some c)" "live_conn s (active_fd e) c" by blast
  from run c(1) False obtain c1 db1 w1 where
    io: "connection_io c (sv_db s) (conn_io_at e s) = Inr (c1, db1, w1)" by (auto simp: handle_event_def rbind_eq_Inr)
  from connection_io_ok [OF live_link [OF ok c(2) fit] io]
  have "own_calls (active_fd e) (conn_io_at e s) w1"
    using c(2) by (auto simp: served_def live_conn_def)
  then obtain cs where cs: "trace w1 = sv_trace s @ cs" "list_all (own_call (active_fd e)) cs"
    by (auto simp: own_calls_def conn_io_at_def)
  have "interest (active_fd e) (sv_trace s) \<noteq> None" using reg by (simp add: watched_def)
  from own_calls_live [OF cs(2) this] live have "calls_live [] (trace w1)" by (simp add: cs(1))
  then show ?thesis
    using run handle_conn_event [OF ok fit False c] io
    by (auto simp: after_io_def add_call_def call_live_def split: if_splits)
qed

definition careful :: "nat \<Rightarrow> server \<Rightarrow> bool" where
  "careful n s \<longleftrightarrow> bounded_ok n s \<and> calls_live [] (sv_trace s)"

interpretation fds: loop_invariant careful
proof
  show "careful 0 s" if "server_setup e = Inr s" for e s
    using ok.I_start [OF that] that
    by (auto simp: careful_def server_setup_def Let_def fd_set_nb_def add_call_def call_live_def interest_def
        mask_step_def split: if_splits)
next
  fix n s ev s'
  assume a: "careful n s" "watched (active_fd ev) s" "n + event_weight ev < 2 ^ 59" "handle_event ev s = Inr s'"
  then obtain M where m: "server_ok s M" "card (dom M) \<le> n" by (auto simp: careful_def bounded_ok_def)
  then have "fits ev M" using a(3) by (simp add: fits_def)
  from event_calls_live [OF m(1) a(2) this a(4)] ok.I_event [OF _ a(2-4)] a(1)
  show "careful (n + event_weight ev) s' \<and> (\<forall>g. g \<noteq> active_fd ev \<longrightarrow> watched g s \<longrightarrow> watched g s')"
    by (auto simp: careful_def)
qed

text \<open>
  C21.  Descriptors are used while they are open: in the calls a running server has made, at
  every \<open>write\<close> and every change of an event mask the descriptor was registered, since
  its last registration not closed, and every registration is of a descriptor that was not.
  So no reply goes to a client that a descriptor number was reused for.
\<close>

theorem descriptors_live:
  assumes "server_reach n s" and "n < 2 ^ 59" and "sv_trace s = cs @ c # ds"
  shows "(\<forall>fd bs. c = SysWrite fd bs \<longrightarrow> interest fd cs \<noteq> None)
     \<and> (\<forall>fd ev. c = EpollMod fd ev \<longrightarrow> interest fd cs \<noteq> None)
     \<and> (\<forall>fd ev. c = EpollAdd fd ev \<longrightarrow> interest fd cs = None)"
proof -
  have "calls_live [] (cs @ c # ds)"
    using fds.reach [OF assms(1,2)] assms(3) by (simp add: careful_def)
  from calls_live_at [OF this] show ?thesis by (auto simp: call_live_def)
qed

lemma written_split: "written fd cs \<noteq> [] \<Longrightarrow> \<exists>xs bs ys. cs = xs @ SysWrite fd bs # ys"
proof (induction cs)
  case (Cons c cs)
  show ?case
  proof (cases "\<exists>bs. c = SysWrite fd bs")
    case True
    then show ?thesis by (metis append_Nil)
  next
    case False
    with Cons.prems have "written fd cs \<noteq> []" by (auto split: syscall.splits if_splits)
    with Cons.IH show ?thesis by (metis append_Cons)
  qed
qed simp

theorem descriptors_live_witness:
  "\<exists>n s cs bs ds. server_reach n s \<and> sv_trace s = cs @ SysWrite 5 bs # ds \<and> interest 5 cs \<noteq> None"
proof -
  obtain n s where s: "server_reach n s" "n < 2 ^ 59" "written 5 (sv_trace s) \<noteq> []"
    using third_reach by blast
  then obtain cs bs ds where "sv_trace s = cs @ SysWrite 5 bs # ds"
    using written_split by blast
  with descriptors_live [OF s(1,2) this] s(1) show ?thesis by blast
qed

end
