(* ===== verification/AvlTree.thy ===== *)
theory AvlTree
  imports Prelude "HOL-Library.Tree"
begin

text \<open>
  \<open>include/avl_tree.h\<close> and \<open>src/avl_tree.cpp\<close>: an intrusive binary tree with
  parent pointers over a heap of nodes, with the \<open>uint32_t\<close> arithmetic of the code.
\<close>

section \<open>State\<close>

record avlnode =
  av_height :: u32
  av_cnt :: u32
  av_left :: ptr
  av_right :: ptr
  av_parent :: ptr

type_synonym avlheap = "addr \<rightharpoonup> avlnode"

definition upd :: "avlheap \<Rightarrow> addr \<Rightarrow> (avlnode \<Rightarrow> avlnode) \<Rightarrow> avlheap res" where
  "upd h a f = rbind (load h a) (\<lambda>n. Inr (h(a \<mapsto> f n)))"

text \<open>The store through an optional child pointer: \<open>if (p) p->parent = q\<close>.\<close>

definition set_parent :: "avlheap \<Rightarrow> ptr \<Rightarrow> ptr \<Rightarrow> avlheap res" where
  "set_parent h p q = (case p of None \<Rightarrow> Inr h | Some a \<Rightarrow> upd h a (\<lambda>n. n\<lparr>av_parent := q\<rparr>))"

section \<open>Operations\<close>

definition abs_u32 :: "u32 \<Rightarrow> u32" where
  "abs_u32 n = (if 0 < n then n else - n)"

definition max_u32 :: "u32 \<Rightarrow> u32 \<Rightarrow> u32" where
  "max_u32 lhs rhs = (if rhs < lhs then lhs else rhs)"

definition avl_init :: "avlheap \<Rightarrow> addr \<Rightarrow> avlheap res" where
  "avl_init h node = upd h node (\<lambda>n. n\<lparr>av_height := 0, av_cnt := 1,
     av_left := None, av_right := None, av_parent := None\<rparr>)"

definition avl_height :: "avlheap \<Rightarrow> ptr \<Rightarrow> u32 res" where
  "avl_height h p = (case p of None \<Rightarrow> Inr (-1) | Some a \<Rightarrow> rbind (load h a) (\<lambda>n. Inr (av_height n)))"

definition avl_cnt :: "avlheap \<Rightarrow> ptr \<Rightarrow> u32 res" where
  "avl_cnt h p = (case p of None \<Rightarrow> Inr 0 | Some a \<Rightarrow> rbind (load h a) (\<lambda>n. Inr (av_cnt n)))"

definition avl_update :: "avlheap \<Rightarrow> addr \<Rightarrow> avlheap res" where
  "avl_update h node =
     rbind (load h node) (\<lambda>n.
     rbind (avl_height h (av_left n)) (\<lambda>lh.
     rbind (avl_height h (av_right n)) (\<lambda>rh.
     rbind (upd h node (\<lambda>n. n\<lparr>av_height := 1 + max_u32 lh rh\<rparr>)) (\<lambda>h1.
     rbind (avl_cnt h1 (av_left n)) (\<lambda>lc.
     rbind (avl_cnt h1 (av_right n)) (\<lambda>rc.
       upd h1 node (\<lambda>n. n\<lparr>av_cnt := 1 + lc + rc\<rparr>)))))))"

definition rot_left :: "avlheap \<Rightarrow> addr \<Rightarrow> (avlheap \<times> addr) res" where
  "rot_left h node =
     rbind (load h node) (\<lambda>n.
     rbind (deref (av_right n)) (\<lambda>new_root.
     rbind (load h new_root) (\<lambda>r.
     let sbtree2 = av_left r in
     rbind (upd h new_root (\<lambda>n. n\<lparr>av_left := Some node\<rparr>)) (\<lambda>h1.
     rbind (upd h1 node (\<lambda>n. n\<lparr>av_right := sbtree2\<rparr>)) (\<lambda>h2.
     rbind (load h2 node) (\<lambda>n2.
     rbind (upd h2 new_root (\<lambda>n. n\<lparr>av_parent := av_parent n2\<rparr>)) (\<lambda>h3.
     rbind (upd h3 node (\<lambda>n. n\<lparr>av_parent := Some new_root\<rparr>)) (\<lambda>h4.
     rbind (set_parent h4 sbtree2 (Some node)) (\<lambda>h5.
     rbind (avl_update h5 node) (\<lambda>h6.
     rbind (avl_update h6 new_root) (\<lambda>h7.
       Inr (h7, new_root))))))))))))"

definition rot_right :: "avlheap \<Rightarrow> addr \<Rightarrow> (avlheap \<times> addr) res" where
  "rot_right h node =
     rbind (load h node) (\<lambda>n.
     rbind (deref (av_left n)) (\<lambda>new_root.
     rbind (load h new_root) (\<lambda>r.
     let sbtree2 = av_right r in
     rbind (upd h new_root (\<lambda>n. n\<lparr>av_right := Some node\<rparr>)) (\<lambda>h1.
     rbind (upd h1 node (\<lambda>n. n\<lparr>av_left := sbtree2\<rparr>)) (\<lambda>h2.
     rbind (load h2 node) (\<lambda>n2.
     rbind (upd h2 new_root (\<lambda>n. n\<lparr>av_parent := av_parent n2\<rparr>)) (\<lambda>h3.
     rbind (upd h3 node (\<lambda>n. n\<lparr>av_parent := Some new_root\<rparr>)) (\<lambda>h4.
     rbind (set_parent h4 sbtree2 (Some node)) (\<lambda>h5.
     rbind (avl_update h5 node) (\<lambda>h6.
     rbind (avl_update h6 new_root) (\<lambda>h7.
       Inr (h7, new_root))))))))))))"

definition avl_fix_left :: "avlheap \<Rightarrow> addr \<Rightarrow> (avlheap \<times> addr) res" where
  "avl_fix_left h node =
     rbind (load h node) (\<lambda>n.
     rbind (deref (av_left n)) (\<lambda>l.
     rbind (load h l) (\<lambda>ln.
     rbind (avl_height h (av_right ln)) (\<lambda>rh.
     rbind (avl_height h (av_left ln)) (\<lambda>lh.
     rbind (if lh < rh
            then rbind (rot_left h l) (\<lambda>(h1, l1). upd h1 node (\<lambda>n. n\<lparr>av_left := Some l1\<rparr>))
            else Inr h) (\<lambda>h2.
       rot_right h2 node))))))"

definition avl_fix_right :: "avlheap \<Rightarrow> addr \<Rightarrow> (avlheap \<times> addr) res" where
  "avl_fix_right h node =
     rbind (load h node) (\<lambda>n.
     rbind (deref (av_right n)) (\<lambda>r.
     rbind (load h r) (\<lambda>rn.
     rbind (avl_height h (av_left rn)) (\<lambda>lh.
     rbind (avl_height h (av_right rn)) (\<lambda>rh.
     rbind (if rh < lh
            then rbind (rot_right h r) (\<lambda>(h1, r1). upd h1 node (\<lambda>n. n\<lparr>av_right := Some r1\<rparr>))
            else Inr h) (\<lambda>h2.
       rot_left h2 node))))))"

text \<open>
  One round of \<open>avl_fix\<close> up to the two assignments at its end: the subtree's new root,
  and the parent's slot \<open>from\<close> (the parent, and whether it is the left one).  Both
  comparisons are between \<open>uint32_t\<close>: \<open>lh - rh\<close> wraps and \<open>-1\<close> is the
  largest value.
\<close>

definition avl_fix_round :: "avlheap \<Rightarrow> addr \<Rightarrow> (avlheap \<times> addr \<times> (addr \<times> bool) option) res" where
  "avl_fix_round h node =
     rbind (avl_update h node) (\<lambda>h1.
     rbind (load h1 node) (\<lambda>n.
     rbind (avl_height h1 (av_left n)) (\<lambda>lh.
     rbind (avl_height h1 (av_right n)) (\<lambda>rh.
     rbind (case av_parent n of
              None \<Rightarrow> Inr None
            | Some p \<Rightarrow> rbind (load h1 p) (\<lambda>pn. Inr (Some (p, av_left pn = Some node)))) (\<lambda>from.
     rbind (if 1 < lh - rh then avl_fix_left h1 node
            else if lh - rh < -1 then avl_fix_right h1 node
            else Inr (h1, node)) (\<lambda>(h2, node2).
       Inr (h2, node2, from)))))))"

text \<open>\<open>avl_fix\<close> climbs the parent chain; the fuel bounds its length.\<close>

fun avl_fix :: "nat \<Rightarrow> avlheap \<Rightarrow> addr \<Rightarrow> (avlheap \<times> addr) res" where
  "avl_fix 0 h node = Inl OutOfFuel"
| "avl_fix (Suc fuel) h node =
     rbind (avl_fix_round h node) (\<lambda>(h2, node2, from).
     case from of
       None \<Rightarrow> Inr (h2, node2)
     | Some (p, is_left) \<Rightarrow>
         rbind (upd h2 p (\<lambda>n. if is_left then n\<lparr>av_left := Some node2\<rparr> else n\<lparr>av_right := Some node2\<rparr>)) (\<lambda>h3.
         rbind (load h3 node2) (\<lambda>n2.
         rbind (deref (av_parent n2)) (\<lambda>up. avl_fix fuel h3 up))))"

text \<open>\<open>avl_fix\<close> on a child pointer that may be NULL.\<close>

definition avl_fix_ptr :: "nat \<Rightarrow> avlheap \<Rightarrow> ptr \<Rightarrow> (avlheap \<times> addr) res" where
  "avl_fix_ptr fuel h p = rbind (deref p) (avl_fix fuel h)"

definition avl_fix_recursive :: "nat \<Rightarrow> avlheap \<Rightarrow> ptr \<Rightarrow> (avlheap \<times> ptr) res" where
  "avl_fix_recursive fuel h p = (case p of
       None \<Rightarrow> Inr (h, None)
     | Some node \<Rightarrow>
         rbind (load h node) (\<lambda>n0.
         rbind (avl_fix_ptr fuel h (av_left n0)) (\<lambda>(h1, l).
         rbind (upd h1 node (\<lambda>n. n\<lparr>av_left := Some l\<rparr>)) (\<lambda>h2.
         rbind (load h2 node) (\<lambda>n2.
         rbind (avl_fix_ptr fuel h2 (av_right n2)) (\<lambda>(h3, r).
         rbind (upd h3 node (\<lambda>n. n\<lparr>av_right := Some r\<rparr>)) (\<lambda>h4.
         rbind (avl_update h4 node) (\<lambda>h5.
         rbind (load h5 node) (\<lambda>n5.
         rbind (rbind (deref (av_left n5)) (load h5)) (\<lambda>ln.
         rbind (rbind (deref (av_right n5)) (load h5)) (\<lambda>rn.
         if abs_u32 (av_height ln - av_height rn) \<le> 1 then Inr (h5, Some node)
         else if av_height rn < av_height ln
         then rbind (avl_fix_left h5 node) (\<lambda>(h6, a). Inr (h6, Some a))
         else rbind (avl_fix_right h5 node) (\<lambda>(h6, a). Inr (h6, Some a)))))))))))))"

text \<open>\<open>while (victim->left) victim = victim->left;\<close>\<close>

fun leftmost :: "nat \<Rightarrow> avlheap \<Rightarrow> addr \<Rightarrow> addr res" where
  "leftmost 0 h victim = Inl OutOfFuel"
| "leftmost (Suc fuel) h victim =
     rbind (load h victim) (\<lambda>n. case av_left n of None \<Rightarrow> Inr victim | Some l \<Rightarrow> leftmost fuel h l)"

text \<open>The store \<open>(parent->left == node ? parent->left : parent->right) = q\<close>.\<close>

definition set_child :: "avlheap \<Rightarrow> addr \<Rightarrow> addr \<Rightarrow> ptr \<Rightarrow> avlheap res" where
  "set_child h p node q =
     upd h p (\<lambda>n. if av_left n = Some node then n\<lparr>av_left := q\<rparr> else n\<lparr>av_right := q\<rparr>)"

fun avl_del :: "nat \<Rightarrow> avlheap \<Rightarrow> addr \<Rightarrow> (avlheap \<times> ptr) res" where
  "avl_del 0 h node = Inl OutOfFuel"
| "avl_del (Suc fuel) h node =
     rbind (load h node) (\<lambda>n.
     case av_right n of
       None \<Rightarrow>
         rbind (set_parent h (av_left n) (av_parent n)) (\<lambda>h1.
         case av_parent n of
           Some p \<Rightarrow>
             rbind (set_child h1 p node (av_left n)) (\<lambda>h2.
             rbind (avl_fix (Suc fuel) h2 p) (\<lambda>(h3, root). Inr (h3, Some root)))
         | None \<Rightarrow> Inr (h1, av_left n))
     | Some r \<Rightarrow>
         rbind (leftmost (Suc fuel) h r) (\<lambda>victim.
         rbind (avl_del fuel h victim) (\<lambda>(h1, root).
         rbind (load h1 node) (\<lambda>n1.
         rbind (upd h1 victim (\<lambda>_. n1)) (\<lambda>h2.
         rbind (load h2 victim) (\<lambda>v0.
         rbind (set_parent h2 (av_left v0) (Some victim)) (\<lambda>h3.
         rbind (load h3 victim) (\<lambda>v.
         rbind (set_parent h3 (av_right v) (Some victim)) (\<lambda>h4.
         rbind (load h4 node) (\<lambda>n4.
         case av_parent n4 of
           Some p \<Rightarrow> rbind (set_child h4 p node (Some victim)) (\<lambda>h5. Inr (h5, root))
         | None \<Rightarrow> Inr (h4, Some victim)))))))))))"

end
