(* ===== verification/AvlSpec.thy ===== *)
theory AvlSpec
  imports AvlTree
begin

text \<open>
  The tree operations of \<open>AvlTree\<close> refine operations on algebraic trees: rotations
  and the climb of \<open>avl_fix\<close> keep the in-order sequence, and the cases in which the
  code dereferences NULL are exactly those in which the algebraic operation is undefined.
\<close>

section \<open>Algebraic trees\<close>

text \<open>
  The height the code stores: \<open>avl_height(NULL)\<close> is the largest \<open>uint32_t\<close>, so a
  node with a missing child always gets \<open>1 + 0xFFFFFFFF = 0\<close>.
\<close>

fun hgt :: "'a tree \<Rightarrow> u32" where
  "hgt Leaf = -1"
| "hgt (Node l a r) = 1 + max_u32 (hgt l) (hgt r)"

fun rotL :: "'a tree \<Rightarrow> 'a tree option" where
  "rotL (Node l a (Node m b r)) = Some (Node (Node l a m) b r)"
| "rotL _ = None"

fun rotR :: "'a tree \<Rightarrow> 'a tree option" where
  "rotR (Node (Node l b m) a r) = Some (Node l b (Node m a r))"
| "rotR _ = None"

fun fixL :: "'a tree \<Rightarrow> 'a tree option" where
  "fixL (Node (Node ll x lr) a r) =
     (if hgt ll < hgt lr
      then (case rotL (Node ll x lr) of None \<Rightarrow> None | Some l' \<Rightarrow> rotR (Node l' a r))
      else rotR (Node (Node ll x lr) a r))"
| "fixL _ = None"

fun fixR :: "'a tree \<Rightarrow> 'a tree option" where
  "fixR (Node l a (Node rl x rr)) =
     (if hgt rr < hgt rl
      then (case rotR (Node rl x rr) of None \<Rightarrow> None | Some r' \<Rightarrow> rotL (Node l a r'))
      else rotL (Node l a (Node rl x rr)))"
| "fixR _ = None"

fun rebalance :: "'a tree \<Rightarrow> 'a tree option" where
  "rebalance (Node l a r) =
     (if 1 < hgt l - hgt r then fixL (Node l a r)
      else if hgt l - hgt r < -1 then fixR (Node l a r)
      else Some (Node l a r))"
| "rebalance Leaf = None"

lemma rotL_inorder: "rotL t = Some t' \<Longrightarrow> inorder t' = inorder t"
  by (induction t rule: rotL.induct) auto

lemma rotR_inorder: "rotR t = Some t' \<Longrightarrow> inorder t' = inorder t"
  by (induction t rule: rotR.induct) auto

lemma fixL_inorder: "fixL t = Some t' \<Longrightarrow> inorder t' = inorder t"
  by (induction t rule: fixL.induct) (auto split: if_splits option.splits dest!: rotL_inorder rotR_inorder)

lemma fixR_inorder: "fixR t = Some t' \<Longrightarrow> inorder t' = inorder t"
  by (induction t rule: fixR.induct) (auto split: if_splits option.splits dest!: rotL_inorder rotR_inorder)

lemma rebalance_inorder: "rebalance t = Some t' \<Longrightarrow> inorder t' = inorder t"
  by (cases t) (auto split: if_splits dest: fixL_inorder fixR_inorder)

lemma small_word_neg1: "d \<le> (1 :: u32) \<Longrightarrow> d < -1"
  by (erule le_less_trans) code_simp

text \<open>The unsigned comparisons leave no balanced case: every round rotates.\<close>

lemma rebalance_rotates:
  "rebalance (Node l a r) = (if 1 < hgt l - hgt r then fixL (Node l a r) else fixR (Node l a r))"
  using small_word_neg1 [of "hgt l - hgt r"] by (auto simp: not_less)

section \<open>Trees in the heap\<close>

fun tree_at :: "avlheap \<Rightarrow> ptr \<Rightarrow> ptr \<Rightarrow> addr tree \<Rightarrow> bool" where
  "tree_at h p par Leaf \<longleftrightarrow> p = None"
| "tree_at h p par (Node l a r) \<longleftrightarrow> p = Some a \<and>
     (\<exists>n. h a = Some n \<and> av_parent n = par \<and> tree_at h (av_left n) (Some a) l
        \<and> tree_at h (av_right n) (Some a) r
        \<and> av_height n = hgt (Node l a r) \<and> av_cnt n = of_nat (size (Node l a r)))"

text \<open>A node whose subtrees are in order, but whose own height and count may be stale.\<close>

definition root_at :: "avlheap \<Rightarrow> addr \<Rightarrow> ptr \<Rightarrow> addr tree \<Rightarrow> addr tree \<Rightarrow> bool" where
  "root_at h a par l r \<longleftrightarrow> (\<exists>n. h a = Some n \<and> av_parent n = par
     \<and> tree_at h (av_left n) (Some a) l \<and> tree_at h (av_right n) (Some a) r)"

lemma tree_at_root: "tree_at h (Some a) par (Node l a r) \<Longrightarrow> root_at h a par l r"
  by (auto simp: root_at_def)

lemma tree_at_frame:
  "tree_at h p par t \<Longrightarrow> (\<And>x. x \<in> set_tree t \<Longrightarrow> h' x = h x) \<Longrightarrow> tree_at h' p par t"
  by (induction t arbitrary: p par) auto

lemma tree_at_upd [simp]: "x \<notin> set_tree t \<Longrightarrow> tree_at h p par t \<Longrightarrow> tree_at (h(x \<mapsto> v)) p par t"
  by (erule tree_at_frame) auto

text \<open>Moving a subtree under another parent touches its root only.\<close>

lemma tree_at_set_parent:
  assumes t: "tree_at h p par t" and d: "distinct (inorder t)"
  shows "\<exists>h'. set_parent h p q = Inr h' \<and> tree_at h' p q t \<and> (\<forall>x. x \<notin> set_tree t \<longrightarrow> h' x = h x)"
proof (cases t)
  case Leaf
  with t show ?thesis by (auto simp: set_parent_def)
next
  case (Node l a r)
  with t obtain n where n: "p = Some a" "h a = Some n" "tree_at h (av_left n) (Some a) l"
    "tree_at h (av_right n) (Some a) r" "av_height n = hgt t" "av_cnt n = of_nat (size t)" by auto
  have "a \<notin> set_tree l" "a \<notin> set_tree r"
    using d Node by auto
  with n Node show ?thesis
    by (auto simp: set_parent_def upd_def)
qed

lemma avl_height_tree: "tree_at h p par t \<Longrightarrow> avl_height h p = Inr (hgt t)"
  by (cases t) (auto simp: avl_height_def)

lemma avl_cnt_tree: "tree_at h p par t \<Longrightarrow> avl_cnt h p = Inr (of_nat (size t))"
  by (cases t) (auto simp: avl_cnt_def)

lemma avl_update_ok:
  assumes r: "root_at h a par l r" and na: "a \<notin> set_tree l" "a \<notin> set_tree r"
  shows "\<exists>h'. avl_update h a = Inr h' \<and> tree_at h' (Some a) par (Node l a r) \<and> (\<forall>x. x \<noteq> a \<longrightarrow> h' x = h x)"
proof -
  from r obtain n where n: "h a = Some n" "av_parent n = par" "tree_at h (av_left n) (Some a) l"
    "tree_at h (av_right n) (Some a) r" by (auto simp: root_at_def)
  let ?n1 = "n\<lparr>av_height := 1 + max_u32 (hgt l) (hgt r)\<rparr>"
  let ?n2 = "?n1\<lparr>av_cnt := 1 + of_nat (size l) + of_nat (size r)\<rparr>"
  let ?h1 = "h(a \<mapsto> ?n1)"
  have t1: "tree_at ?h1 (av_left n) (Some a) l" "tree_at ?h1 (av_right n) (Some a) r"
    using n na by simp_all
  have "avl_update h a = Inr (?h1(a \<mapsto> ?n2))"
    using n by (simp add: avl_update_def upd_def avl_height_tree [OF n(3)] avl_height_tree [OF n(4)]
        avl_cnt_tree [OF t1(1)] avl_cnt_tree [OF t1(2)])
  moreover have "tree_at (h(a \<mapsto> ?n2)) (Some a) par (Node l a r)"
    using n na by simp
  ultimately show ?thesis by auto
qed

section \<open>Rotations\<close>

lemma rot_left_ok:
  assumes r: "root_at h a par l (Node m b r)" and d: "distinct (inorder (Node l a (Node m b r)))"
  shows "\<exists>h'. rot_left h a = Inr (h', b) \<and> tree_at h' (Some b) par (Node (Node l a m) b r)
    \<and> (\<forall>x. x \<notin> set_tree (Node l a (Node m b r)) \<longrightarrow> h' x = h x)"
proof -
  from r obtain n nb where n: "h a = Some n" "av_parent n = par" "tree_at h (av_left n) (Some a) l"
    "av_right n = Some b" and nb: "h b = Some nb" "tree_at h (av_left nb) (Some b) m"
    "tree_at h (av_right nb) (Some b) r"
    by (auto simp: root_at_def)
  from d have ne: "a \<noteq> b" "a \<notin> set_tree l" "a \<notin> set_tree m" "a \<notin> set_tree r"
    "b \<notin> set_tree l" "b \<notin> set_tree m" "b \<notin> set_tree r" and dm: "distinct (inorder m)"
    and dj: "set_tree m \<inter> set_tree l = {}" "set_tree m \<inter> set_tree r = {}" by auto
  define h4 where "h4 = h(b \<mapsto> nb\<lparr>av_left := Some a, av_parent := par\<rparr>,
    a \<mapsto> n\<lparr>av_right := av_left nb, av_parent := Some b\<rparr>)"
  have "tree_at h4 (av_left nb) (Some b) m"
    using nb ne by (simp add: h4_def)
  from tree_at_set_parent [OF this dm, of "Some a"] obtain h5 where
    h5: "set_parent h4 (av_left nb) (Some a) = Inr h5" "tree_at h5 (av_left nb) (Some a) m"
    "\<And>x. x \<notin> set_tree m \<Longrightarrow> h5 x = h4 x" by blast
  have old: "h5 x = h x" if "x \<in> set_tree l \<union> set_tree r" for x
  proof -
    have "x \<notin> set_tree m" "x \<noteq> a" "x \<noteq> b"
      using that ne dj by blast+
    then show ?thesis using h5(3) by (simp add: h4_def)
  qed
  have l5: "tree_at h5 (av_left n) (Some a) l"
    by (rule tree_at_frame [OF n(3)]) (use old in blast)
  have r5: "tree_at h5 (av_right nb) (Some b) r"
    by (rule tree_at_frame [OF nb(3)]) (use old in blast)
  have "root_at h5 a (Some b) l m"
    using h5 ne l5 by (simp add: root_at_def h4_def)
  from avl_update_ok [OF this ne(2,3)] obtain h6 where
    h6: "avl_update h5 a = Inr h6" "tree_at h6 (Some a) (Some b) (Node l a m)" "\<And>x. x \<noteq> a \<Longrightarrow> h6 x = h5 x"
    by blast
  have "tree_at h6 (av_right nb) (Some b) r"
    by (rule tree_at_frame [OF r5]) (use h6(3) ne in metis)
  then have "root_at h6 b par (Node l a m) r"
    using h5(3) [of b] h6(2,3) ne by (simp add: root_at_def h4_def)
  from avl_update_ok [OF this] ne obtain h7 where
    h7: "avl_update h6 b = Inr h7" "tree_at h7 (Some b) par (Node (Node l a m) b r)" "\<And>x. x \<noteq> b \<Longrightarrow> h7 x = h6 x"
    by auto
  have "h(b \<mapsto> nb\<lparr>av_left := Some a\<rparr>, a \<mapsto> n\<lparr>av_right := av_left nb\<rparr>,
      b \<mapsto> nb\<lparr>av_left := Some a, av_parent := par\<rparr>,
      a \<mapsto> n\<lparr>av_right := av_left nb, av_parent := Some b\<rparr>) = h4"
    using ne(1) by (auto simp: h4_def fun_eq_iff)
  then have "rot_left h a = Inr (h7, b)"
    using n(1,2,4) nb(1) ne(1) h5(1) h6(1) h7(1) by (simp add: rot_left_def upd_def)
  moreover have "h7 x = h x" if "x \<notin> set_tree (Node l a (Node m b r))" for x
    using that h7(3) [of x] h6(3) [of x] h5(3) [of x] by (auto simp: h4_def)
  ultimately show ?thesis using h7(2) by blast
qed

lemma rot_right_ok:
  assumes r: "root_at h a par (Node l b m) r" and d: "distinct (inorder (Node (Node l b m) a r))"
  shows "\<exists>h'. rot_right h a = Inr (h', b) \<and> tree_at h' (Some b) par (Node l b (Node m a r))
    \<and> (\<forall>x. x \<notin> set_tree (Node (Node l b m) a r) \<longrightarrow> h' x = h x)"
proof -
  from r obtain n nb where n: "h a = Some n" "av_parent n = par" "tree_at h (av_right n) (Some a) r"
    "av_left n = Some b" and nb: "h b = Some nb" "tree_at h (av_right nb) (Some b) m"
    "tree_at h (av_left nb) (Some b) l"
    by (auto simp: root_at_def)
  from d have ne: "a \<noteq> b" "a \<notin> set_tree m" "a \<notin> set_tree r" "a \<notin> set_tree l"
    "b \<notin> set_tree l" "b \<notin> set_tree m" "b \<notin> set_tree r" and dm: "distinct (inorder m)"
    and dj: "set_tree m \<inter> set_tree l = {}" "set_tree m \<inter> set_tree r = {}" by auto
  define h4 where "h4 = h(b \<mapsto> nb\<lparr>av_right := Some a, av_parent := par\<rparr>,
    a \<mapsto> n\<lparr>av_left := av_right nb, av_parent := Some b\<rparr>)"
  have "tree_at h4 (av_right nb) (Some b) m"
    using nb ne by (simp add: h4_def)
  from tree_at_set_parent [OF this dm, of "Some a"] obtain h5 where
    h5: "set_parent h4 (av_right nb) (Some a) = Inr h5" "tree_at h5 (av_right nb) (Some a) m"
    "\<And>x. x \<notin> set_tree m \<Longrightarrow> h5 x = h4 x" by blast
  have old: "h5 x = h x" if "x \<in> set_tree l \<union> set_tree r" for x
  proof -
    have "x \<notin> set_tree m" "x \<noteq> a" "x \<noteq> b"
      using that ne dj by blast+
    then show ?thesis using h5(3) by (simp add: h4_def)
  qed
  have r5: "tree_at h5 (av_right n) (Some a) r"
    by (rule tree_at_frame [OF n(3)]) (use old in blast)
  have l5: "tree_at h5 (av_left nb) (Some b) l"
    by (rule tree_at_frame [OF nb(3)]) (use old in blast)
  have "root_at h5 a (Some b) m r"
    using h5 ne r5 by (simp add: root_at_def h4_def)
  from avl_update_ok [OF this ne(2,3)] obtain h6 where
    h6: "avl_update h5 a = Inr h6" "tree_at h6 (Some a) (Some b) (Node m a r)" "\<And>x. x \<noteq> a \<Longrightarrow> h6 x = h5 x"
    by blast
  have "tree_at h6 (av_left nb) (Some b) l"
    by (rule tree_at_frame [OF l5]) (use h6(3) ne in metis)
  then have "root_at h6 b par l (Node m a r)"
    using h5(3) [of b] h6(2,3) ne by (simp add: root_at_def h4_def)
  from avl_update_ok [OF this] ne obtain h7 where
    h7: "avl_update h6 b = Inr h7" "tree_at h7 (Some b) par (Node l b (Node m a r))" "\<And>x. x \<noteq> b \<Longrightarrow> h7 x = h6 x"
    by auto
  have "h(b \<mapsto> nb\<lparr>av_right := Some a\<rparr>, a \<mapsto> n\<lparr>av_left := av_right nb\<rparr>,
      b \<mapsto> nb\<lparr>av_right := Some a, av_parent := par\<rparr>,
      a \<mapsto> n\<lparr>av_left := av_right nb, av_parent := Some b\<rparr>) = h4"
    using ne(1) by (auto simp: h4_def fun_eq_iff)
  then have "rot_right h a = Inr (h7, b)"
    using n(1,2,4) nb(1) ne(1) h5(1) h6(1) h7(1) by (simp add: rot_right_def upd_def)
  moreover have "h7 x = h x" if "x \<notin> set_tree (Node (Node l b m) a r)" for x
    using that h7(3) [of x] h6(3) [of x] h5(3) [of x] by (auto simp: h4_def)
  ultimately show ?thesis using h7(2) by blast
qed

text \<open>Rotating towards a missing child dereferences NULL.\<close>

lemma rot_left_Leaf: "root_at h a par l Leaf \<Longrightarrow> rot_left h a = Inl NullDeref"
  by (auto simp: root_at_def rot_left_def)

lemma rot_right_Leaf: "root_at h a par Leaf r \<Longrightarrow> rot_right h a = Inl NullDeref"
  by (auto simp: root_at_def rot_right_def)

section \<open>The fixes\<close>

text \<open>
  A run of an operation refines an algebraic one: it returns the root of the resulting
  tree, in the place of the old one, or dereferences NULL when there is no result.
\<close>

definition refines_tree :: "avlheap \<Rightarrow> ptr \<Rightarrow> addr set \<Rightarrow> addr tree option \<Rightarrow> (avlheap \<times> addr) res \<Rightarrow> bool" where
  "refines_tree h par A t r \<longleftrightarrow> (case t of
       None \<Rightarrow> r = Inl NullDeref
     | Some t' \<Rightarrow> \<exists>h' b. r = Inr (h', b) \<and> tree_at h' (Some b) par t' \<and> (\<forall>x. x \<notin> A \<longrightarrow> h' x = h x))"

lemma refines_tree_frame:
  "refines_tree h1 par A t r \<Longrightarrow> (\<And>x. x \<notin> A \<Longrightarrow> h1 x = h x) \<Longrightarrow> refines_tree h par A t r"
  by (fastforce simp: refines_tree_def split: option.splits)

lemma rot_left_refines:
  "root_at h a par l r \<Longrightarrow> distinct (inorder (Node l a r)) \<Longrightarrow>
     refines_tree h par (set_tree (Node l a r)) (rotL (Node l a r)) (rot_left h a)"
  using rot_left_ok [of h a par l] rot_left_Leaf [of h a par l]
  by (cases r) (auto simp: refines_tree_def)

lemma rot_right_refines:
  "root_at h a par l r \<Longrightarrow> distinct (inorder (Node l a r)) \<Longrightarrow>
     refines_tree h par (set_tree (Node l a r)) (rotR (Node l a r)) (rot_right h a)"
  using rot_right_ok [of h a par _ _ _ r] rot_right_Leaf [of h a par r]
  by (cases l) (auto simp: refines_tree_def)

lemma avl_fix_left_refines:
  assumes r: "root_at h a par l r" and d: "distinct (inorder (Node l a r))"
  shows "refines_tree h par (set_tree (Node l a r)) (fixL (Node l a r)) (avl_fix_left h a)"
proof (cases l)
  case Leaf
  with r show ?thesis
    by (auto simp: refines_tree_def root_at_def avl_fix_left_def)
next
  case (Node ll x lr)
  from r obtain n where n: "h a = Some n" "av_parent n = par" "tree_at h (av_left n) (Some a) l"
    "tree_at h (av_right n) (Some a) r" by (auto simp: root_at_def)
  from n(3) Node obtain nx where x: "av_left n = Some x" "h x = Some nx"
    "tree_at h (av_left nx) (Some x) ll" "tree_at h (av_right nx) (Some x) lr"
    and rx: "root_at h x (Some a) ll lr"
    by (auto simp: root_at_def)
  have run: "avl_fix_left h a = rbind (if hgt ll < hgt lr
      then rbind (rot_left h x) (\<lambda>(h1, l1). upd h1 a (\<lambda>n. n\<lparr>av_left := Some l1\<rparr>)) else Inr h)
      (\<lambda>h2. rot_right h2 a)"
    using n x by (simp add: avl_fix_left_def avl_height_tree [OF x(3)] avl_height_tree [OF x(4)])
  show ?thesis
  proof (cases "hgt ll < hgt lr")
    case False
    then show ?thesis
      using rot_right_refines [OF r d] run Node by simp
  next
    case True
    have dx: "distinct (inorder (Node ll x lr))"
      using d Node by auto
    note rr = rot_left_refines [OF rx dx]
    show ?thesis
    proof (cases "rotL (Node ll x lr)")
      case None
      with rr True run Node show ?thesis by (simp add: refines_tree_def)
    next
      case (Some l')
      with rr obtain h1 l1 where h1: "rot_left h x = Inr (h1, l1)" "tree_at h1 (Some l1) (Some a) l'"
        "\<And>y. y \<notin> set_tree (Node ll x lr) \<Longrightarrow> h1 y = h y" by (auto simp: refines_tree_def)
      have io: "inorder l' = inorder l"
        using rotL_inorder [OF Some] Node by simp
      then have st: "set_tree l' = set_tree l"
        by (metis set_inorder)
      have a: "a \<notin> set_tree l" "a \<notin> set_tree r" "set_tree l \<inter> set_tree r = {}"
        using d by auto
      let ?h2 = "h1(a \<mapsto> n\<lparr>av_left := Some l1\<rparr>)"
      have h1a: "h1 a = Some n"
        using h1(3) [of a] a(1) Node n(1) by simp
      have "tree_at ?h2 (av_right n) (Some a) r"
      proof (rule tree_at_frame [OF n(4)])
        fix y assume y: "y \<in> set_tree r"
        then have "y \<notin> set_tree l" "y \<noteq> a"
          using a by auto
        then show "?h2 y = h y" using h1(3) [of y] Node by simp
      qed
      then have r2: "root_at ?h2 a par l' r"
        using n(2) h1(2) a(1) st by (simp add: root_at_def)
      have d2: "distinct (inorder (Node l' a r))"
        using d io by simp
      have "refines_tree h par (set_tree (Node l' a r)) (rotR (Node l' a r)) (rot_right ?h2 a)"
        by (rule refines_tree_frame [OF rot_right_refines [OF r2 d2]]) (use h1(3) st Node in auto)
      then show ?thesis
        using run True h1(1) h1a Some Node st by (simp add: upd_def)
    qed
  qed
qed

lemma avl_fix_right_refines:
  assumes r: "root_at h a par l r" and d: "distinct (inorder (Node l a r))"
  shows "refines_tree h par (set_tree (Node l a r)) (fixR (Node l a r)) (avl_fix_right h a)"
proof (cases r)
  case Leaf
  with r show ?thesis
    by (auto simp: refines_tree_def root_at_def avl_fix_right_def)
next
  case (Node rl x rr)
  from assms(1) obtain n where n: "h a = Some n" "av_parent n = par" "tree_at h (av_left n) (Some a) l"
    "tree_at h (av_right n) (Some a) r" by (auto simp: root_at_def)
  from n(4) Node obtain nx where x: "av_right n = Some x" "h x = Some nx"
    "tree_at h (av_left nx) (Some x) rl" "tree_at h (av_right nx) (Some x) rr"
    and rx: "root_at h x (Some a) rl rr"
    by (auto simp: root_at_def)
  have run: "avl_fix_right h a = rbind (if hgt rr < hgt rl
      then rbind (rot_right h x) (\<lambda>(h1, r1). upd h1 a (\<lambda>n. n\<lparr>av_right := Some r1\<rparr>)) else Inr h)
      (\<lambda>h2. rot_left h2 a)"
    using n x by (simp add: avl_fix_right_def avl_height_tree [OF x(3)] avl_height_tree [OF x(4)])
  show ?thesis
  proof (cases "hgt rr < hgt rl")
    case False
    then show ?thesis
      using rot_left_refines [OF r d] run Node by simp
  next
    case True
    have dx: "distinct (inorder (Node rl x rr))"
      using d Node by auto
    note rot = rot_right_refines [OF rx dx]
    show ?thesis
    proof (cases "rotR (Node rl x rr)")
      case None
      with rot True run Node show ?thesis by (simp add: refines_tree_def)
    next
      case (Some r')
      with rot obtain h1 r1 where h1: "rot_right h x = Inr (h1, r1)" "tree_at h1 (Some r1) (Some a) r'"
        "\<And>y. y \<notin> set_tree (Node rl x rr) \<Longrightarrow> h1 y = h y" by (auto simp: refines_tree_def)
      have io: "inorder r' = inorder r"
        using rotR_inorder [OF Some] Node by simp
      then have st: "set_tree r' = set_tree r"
        by (metis set_inorder)
      have a: "a \<notin> set_tree l" "a \<notin> set_tree r" "set_tree l \<inter> set_tree r = {}"
        using d by auto
      let ?h2 = "h1(a \<mapsto> n\<lparr>av_right := Some r1\<rparr>)"
      have h1a: "h1 a = Some n"
        using h1(3) [of a] a(2) Node n(1) by simp
      have "tree_at ?h2 (av_left n) (Some a) l"
      proof (rule tree_at_frame [OF n(3)])
        fix y assume y: "y \<in> set_tree l"
        then have "y \<notin> set_tree r" "y \<noteq> a"
          using a by auto
        then show "?h2 y = h y" using h1(3) [of y] Node by simp
      qed
      then have r2: "root_at ?h2 a par l r'"
        using n(2) h1(2) a(2) st by (simp add: root_at_def)
      have d2: "distinct (inorder (Node l a r'))"
        using d io by simp
      have "refines_tree h par (set_tree (Node l a r')) (rotL (Node l a r')) (rot_left ?h2 a)"
        by (rule refines_tree_frame [OF rot_left_refines [OF r2 d2]]) (use h1(3) st Node in auto)
      then show ?thesis
        using run True h1(1) h1a Some Node st by (simp add: upd_def)
    qed
  qed
qed

section \<open>The climb of \<open>avl_fix\<close>\<close>

text \<open>
  A context is the way from a subtree up to the root: for each ancestor, whether the hole
  is its left child, its address, and its other subtree.
\<close>

type_synonym crumb = "bool \<times> addr \<times> addr tree"

fun plug :: "crumb \<Rightarrow> addr tree \<Rightarrow> addr tree" where
  "plug (d, p, s) t = (if d then Node t p s else Node s p t)"

fun fill :: "addr tree \<Rightarrow> crumb list \<Rightarrow> addr tree" where
  "fill t [] = t"
| "fill t (f # c) = fill (plug f t) c"

fun climb :: "addr tree \<Rightarrow> crumb list \<Rightarrow> addr tree option" where
  "climb t [] = rebalance t"
| "climb t (f # c) = (case rebalance t of None \<Rightarrow> None | Some t' \<Rightarrow> climb (plug f t') c)"

fun ctx_at :: "avlheap \<Rightarrow> ptr \<Rightarrow> ptr \<Rightarrow> crumb list \<Rightarrow> bool" where
  "ctx_at h x par [] \<longleftrightarrow> par = None"
| "ctx_at h x par ((d, p, s) # c) \<longleftrightarrow> par = Some p \<and>
     (\<exists>n. h p = Some n \<and> (if d then av_left n else av_right n) = x
        \<and> tree_at h (if d then av_right n else av_left n) (Some p) s
        \<and> ctx_at h (Some p) (av_parent n) c)"

fun ctx_nodes :: "crumb list \<Rightarrow> addr list" where
  "ctx_nodes [] = []"
| "ctx_nodes ((d, p, s) # c) = p # inorder s @ ctx_nodes c"

lemma ctx_at_frame:
  "ctx_at h x par c \<Longrightarrow> (\<And>y. y \<in> set (ctx_nodes c) \<Longrightarrow> h' y = h y) \<Longrightarrow> ctx_at h' x par c"
proof (induction c arbitrary: x par)
  case (Cons f c)
  obtain d p s where f: "f = (d, p, s)" by (cases f)
  from Cons.prems(1) f obtain n where n: "h p = Some n" "(if d then av_left n else av_right n) = x"
    "tree_at h (if d then av_right n else av_left n) (Some p) s" "ctx_at h (Some p) (av_parent n) c" "par = Some p"
    by auto
  have "tree_at h' (if d then av_right n else av_left n) (Some p) s"
    by (rule tree_at_frame [OF n(3)]) (use Cons.prems(2) f in simp)
  moreover have "ctx_at h' (Some p) (av_parent n) c"
    by (rule Cons.IH [OF n(4)]) (use Cons.prems(2) f in simp)
  moreover have "h' p = Some n"
    using Cons.prems(2) n(1) f by simp
  ultimately show ?case using f n(2,5) by auto
qed simp

lemma fill_inorder_cong: "inorder t = inorder t' \<Longrightarrow> inorder (fill t c) = inorder (fill t' c)"
proof (induction c arbitrary: t t')
  case (Cons f c)
  have "inorder (plug f t) = inorder (plug f t')"
    using Cons.prems by (cases f) simp
  then show ?case unfolding fill.simps by (rule Cons.IH)
qed simp

lemma climb_inorder: "climb t c = Some T \<Longrightarrow> inorder T = inorder (fill t c)"
proof (induction c arbitrary: t)
  case (Cons f c)
  then obtain t' where t': "rebalance t = Some t'" "climb (plug f t') c = Some T"
    by (auto split: option.splits)
  have "inorder (plug f t') = inorder (plug f t)"
    using rebalance_inorder [OF t'(1)] by (cases f) auto
  then have "inorder (fill (plug f t') c) = inorder (fill (plug f t) c)"
    by (rule fill_inorder_cong)
  with Cons.IH [OF t'(2)] show ?case by simp
qed (auto dest: rebalance_inorder)

lemma tree_at_hd: "tree_at h (Some a) par t \<Longrightarrow> a \<in> set_tree t"
  by (cases t) auto

lemma avl_fix_round_refines:
  assumes r: "root_at h a par l r" and d: "distinct (inorder (Node l a r))"
    and p: "case par of None \<Rightarrow> from = None
        | Some p \<Rightarrow> p \<noteq> a \<and> (\<exists>pn. h p = Some pn \<and> from = Some (p, av_left pn = Some a))"
  shows "case rebalance (Node l a r) of
      None \<Rightarrow> avl_fix_round h a = Inl NullDeref
    | Some t' \<Rightarrow> \<exists>h' b. avl_fix_round h a = Inr (h', b, from) \<and> tree_at h' (Some b) par t'
        \<and> (\<forall>x. x \<notin> set_tree (Node l a r) \<longrightarrow> h' x = h x)"
proof -
  have na: "a \<notin> set_tree l" "a \<notin> set_tree r" using d by auto
  from avl_update_ok [OF r na] obtain h1 where
    h1: "avl_update h a = Inr h1" "tree_at h1 (Some a) par (Node l a r)" "\<And>x. x \<noteq> a \<Longrightarrow> h1 x = h x" by blast
  from h1(2) obtain n where n: "h1 a = Some n" "av_parent n = par" "tree_at h1 (av_left n) (Some a) l"
    "tree_at h1 (av_right n) (Some a) r" by auto
  have fr: "(case par of None \<Rightarrow> Inr None
      | Some p \<Rightarrow> rbind (load h1 p) (\<lambda>pn. Inr (Some (p, av_left pn = Some a)))) = Inr from"
    using p h1(3) by (auto split: option.splits)
  let ?fix = "if 1 < hgt l - hgt r then avl_fix_left h1 a
      else if hgt l - hgt r < -1 then avl_fix_right h1 a else Inr (h1, a)"
  have run: "avl_fix_round h a = rbind ?fix (\<lambda>(h2, b). Inr (h2, b, from))"
    using h1(1) n fr by (simp add: avl_fix_round_def avl_height_tree [OF n(3)] avl_height_tree [OF n(4)])
  note r1 = tree_at_root [OF h1(2)]
  have "refines_tree h1 par (set_tree (Node l a r)) (rebalance (Node l a r)) ?fix"
    using avl_fix_left_refines [OF r1 d] avl_fix_right_refines [OF r1 d] h1(2)
    by (simp add: refines_tree_def)
  then have "refines_tree h par (set_tree (Node l a r)) (rebalance (Node l a r)) ?fix"
    by (rule refines_tree_frame) (use h1(3) in auto)
  then show ?thesis
    unfolding run by (fastforce simp: refines_tree_def split: option.splits)
qed

lemma avl_fix_refines:
  "root_at h a par l r \<Longrightarrow> ctx_at h (Some a) par c \<Longrightarrow> distinct (inorder (Node l a r) @ ctx_nodes c) \<Longrightarrow>
     length c < fuel \<Longrightarrow>
     refines_tree h None (set (inorder (Node l a r) @ ctx_nodes c)) (climb (Node l a r) c) (avl_fix fuel h a)"
proof (induction c arbitrary: h a par l r fuel)
  case Nil
  then obtain k where "fuel = Suc k" by (cases fuel) auto
  moreover have "par = None" using Nil.prems(2) by simp
  ultimately show ?case
    using avl_fix_round_refines [OF Nil.prems(1), of None] Nil.prems(3)
    by (auto simp: refines_tree_def simp del: rebalance.simps split: option.splits)
next
  case (Cons f c)
  obtain d p s where f: "f = (d, p, s)" by (cases f)
  from Cons.prems(4) obtain k where fuel: "fuel = Suc k" "length c < k" by (cases fuel) auto
  from Cons.prems(2) f obtain pn where pn: "par = Some p" "h p = Some pn"
    "(if d then av_left pn else av_right pn) = Some a"
    "tree_at h (if d then av_right pn else av_left pn) (Some p) s" "ctx_at h (Some p) (av_parent pn) c" by auto
  let ?t = "Node l a r"
  have dt: "distinct (inorder ?t)" and pa: "p \<noteq> a" "p \<notin> set_tree ?t" and sa: "set_tree ?t \<inter> set_tree s = {}"
    and ca: "set_tree ?t \<inter> set (ctx_nodes c) = {}" and pc: "p \<notin> set (ctx_nodes c)" "p \<notin> set_tree s"
    using Cons.prems(3) f by auto
  have left: "(av_left pn = Some a) = d"
  proof (cases d)
    case False
    then have "av_left pn \<noteq> Some a"
      using tree_at_hd [of h a] pn(4) sa by force
    with False show ?thesis by simp
  qed (use pn(3) in simp)
  have "case rebalance ?t of
      None \<Rightarrow> avl_fix_round h a = Inl NullDeref
    | Some t' \<Rightarrow> \<exists>h' b. avl_fix_round h a = Inr (h', b, Some (p, d)) \<and> tree_at h' (Some b) par t'
        \<and> (\<forall>x. x \<notin> set_tree ?t \<longrightarrow> h' x = h x)"
    by (rule avl_fix_round_refines [OF Cons.prems(1) dt]) (use pn(1,2) pa left in auto)
  note round = this
  show ?case
  proof (cases "rebalance ?t")
    case None
    with round fuel show ?thesis by (simp add: refines_tree_def)
  next
    case (Some t')
    with round obtain h2 b where h2: "avl_fix_round h a = Inr (h2, b, Some (p, d))"
      "tree_at h2 (Some b) (Some p) t'" "\<And>x. x \<notin> set_tree ?t \<Longrightarrow> h2 x = h x"
      using pn(1) by auto
    have io: "inorder t' = inorder ?t" by (rule rebalance_inorder [OF Some])
    then have st: "set_tree t' = set_tree ?t" by (metis set_inorder)
    let ?pn = "if d then pn\<lparr>av_left := Some b\<rparr> else pn\<lparr>av_right := Some b\<rparr>"
    let ?h3 = "h2(p \<mapsto> ?pn)"
    have h3: "?h3 x = h x" if "x \<notin> set_tree ?t" "x \<noteq> p" for x
      using that h2(3) by simp
    have t3: "tree_at ?h3 (Some b) (Some p) t'"
      using h2(2) st pa(2) by simp
    have s3: "tree_at ?h3 (if d then av_right pn else av_left pn) (Some p) s"
      by (rule tree_at_frame [OF pn(4)]) (use h3 sa pc(2) in blast)
    have c3: "ctx_at ?h3 (Some p) (av_parent pn) c"
      by (rule ctx_at_frame [OF pn(5)]) (use h3 ca pc(1) in blast)
    from t3 obtain nb where nb: "?h3 b = Some nb" "av_parent nb = Some p"
      by (cases t') auto
    have run: "avl_fix fuel h a = avl_fix k ?h3 p"
      using fuel h2(1) h2(3) [OF pa(2)] pn(2) nb by (cases d) (simp_all add: upd_def)
    define L R where "L = (if d then t' else s)" and "R = (if d then s else t')"
    have pl: "plug f t' = Node L p R" by (simp add: f L_def R_def)
    have root: "root_at ?h3 p (av_parent pn) L R"
      using t3 s3 by (cases d) (simp_all add: root_at_def L_def R_def)
    have dis: "distinct (inorder (Node L p R) @ ctx_nodes c)"
      using Cons.prems(3) f io by (cases d) (auto simp: L_def R_def simp flip: set_inorder)
    have set: "set (inorder (Node L p R) @ ctx_nodes c) = set (inorder ?t @ ctx_nodes (f # c))"
      using f st by (cases d) (auto simp: L_def R_def)
    have "refines_tree ?h3 None (set (inorder (Node L p R) @ ctx_nodes c)) (climb (Node L p R) c) (avl_fix k ?h3 p)"
      by (rule Cons.IH [OF root c3 dis fuel(2)])
    then have "refines_tree h None (set (inorder (Node L p R) @ ctx_nodes c)) (climb (Node L p R) c) (avl_fix k ?h3 p)"
    proof (rule refines_tree_frame)
      fix x assume "x \<notin> set (inorder (Node L p R) @ ctx_nodes c)"
      then have "x \<notin> set_tree ?t" "x \<noteq> p"
        unfolding set using f by auto
      then show "?h3 x = h x" by (rule h3)
    qed
    then show ?thesis
      using run Some pl set by simp
  qed
qed

text \<open>A fresh leaf has two missing children: its first round dereferences NULL.\<close>

lemma climb_leaf: "climb (Node Leaf a Leaf) c = None"
  by (cases c) (simp_all add: rebalance_rotates del: rebalance.simps)

lemma climb_missing_left: "1 < - 1 - hgt r \<Longrightarrow> climb (Node Leaf a r) c = None"
  by (cases c) (simp_all add: rebalance_rotates del: rebalance.simps)

text \<open>Heights are bounded by the depth, but a missing child resets them.\<close>

lemma hgt_missing: "hgt (Node Leaf a r) = 0" "hgt (Node l a Leaf) = 0"
proof -
  have "max_u32 (-1) w = -1" "max_u32 w (-1) = -1" for w
    using word_order.not_eq_extremum [of w] word_order.extremum_strict [of w] by (auto simp: max_u32_def)
  then show "hgt (Node Leaf a r) = 0" "hgt (Node l a Leaf) = 0" by simp_all
qed

end
