(* ===== verification/ZSet.thy ===== *)
theory ZSet
  imports HMap AvlSpec
begin

text \<open>
  \<open>include/zset.h\<close> and \<open>src/zset.cpp\<close>: sorted sets, indexed by name in a hash
  map (\<open>HMap\<close>) and by score in a tree (\<open>AvlTree\<close>).  The server links this code but
  dispatches no command to it.
\<close>

section \<open>State\<close>

text \<open>
  A \<open>double\<close>: every finite one is an integer multiple of \<open>2 ^ -1074\<close>, and that
  integer is its value here.  A NaN compares unequal to, and not below, anything.
\<close>

datatype flt = NaN | NegInf | Fin int | PosInf

definition flt_eq :: "flt \<Rightarrow> flt \<Rightarrow> bool" where
  "flt_eq x y \<longleftrightarrow> x \<noteq> NaN \<and> x = y"

instantiation flt :: ord
begin

fun less_flt :: "flt \<Rightarrow> flt \<Rightarrow> bool" where
  "less_flt (Fin i) (Fin j) \<longleftrightarrow> i < j"
| "less_flt NegInf y \<longleftrightarrow> y \<noteq> NegInf \<and> y \<noteq> NaN"
| "less_flt (Fin i) y \<longleftrightarrow> y = PosInf"
| "less_flt x y \<longleftrightarrow> False"

definition less_eq_flt :: "flt \<Rightarrow> flt \<Rightarrow> bool" where
  "less_eq_flt x y \<longleftrightarrow> x < y \<or> flt_eq x y"

instance ..

end

text \<open>A strict order, total but for NaN, on which \<open>flt_eq\<close> is the equality.\<close>

lemma flt_less_trans: "(x :: flt) < y \<Longrightarrow> y < z \<Longrightarrow> x < z"
  by (cases x; cases y; cases z) auto

lemma flt_less_irrefl: "\<not> (x :: flt) < x"
  by (cases x) auto

lemma flt_trichotomy: "x \<noteq> NaN \<Longrightarrow> y \<noteq> NaN \<Longrightarrow> x < y \<or> flt_eq x y \<or> y < x"
  by (cases x; cases y) (auto simp: flt_eq_def)

text \<open>
  A \<open>ZNode\<close> embeds an \<open>AVLNode\<close> and an \<open>HNode\<close>; its parts live at one address
  in \<open>zs_avl\<close>, \<open>zs_nodes\<close> and \<open>zs_data\<close>.  An \<open>HKey\<close> on the stack of a
  lookup has a part in \<open>zs_nodes\<close> and one in \<open>zs_keys\<close>.
\<close>

record zdata =
  z_score :: flt
  z_len :: nat
  z_name :: bytes

record hkey =
  k_name :: bytes
  k_len :: nat

record zset =
  zs_tree :: ptr
  zs_hmap :: hmap
  zs_avl :: avlheap
  zs_nodes :: hheap
  zs_data :: "addr \<rightharpoonup> zdata"
  zs_keys :: "addr \<rightharpoonup> hkey"
  zs_next :: addr

definition zset_empty :: zset where
  "zset_empty = \<lparr>zs_tree = None, zs_hmap = hmap_zero, zs_avl = Map.empty, zs_nodes = Map.empty,
     zs_data = Map.empty, zs_keys = Map.empty, zs_next = 0\<rparr>"

section \<open>Comparisons\<close>

text \<open>
  \<open>strcmp(a, b) < 0\<close> on the byte arrays of two names; \<open>name\<close> holds \<open>len\<close>
  bytes and no terminator of its own, so the comparison may run off the end.
\<close>

fun strcmp_less :: "bytes \<Rightarrow> bytes \<Rightarrow> bool res" where
  "strcmp_less (x # xs) (y # ys) =
     (if x \<noteq> y then Inr (x < y) else if x = 0 then Inr False else strcmp_less xs ys)"
| "strcmp_less _ _ = Inl OutOfBounds"

definition zless :: "(addr \<rightharpoonup> zdata) \<Rightarrow> addr \<Rightarrow> addr \<Rightarrow> bool res" where
  "zless data lhs rhs =
     rbind (load data lhs) (\<lambda>ls. rbind (load data rhs) (\<lambda>rs.
       if \<not> flt_eq (z_score ls) (z_score rs) then Inr (z_score ls < z_score rs)
       else strcmp_less (z_name ls) (z_name rs)))"

text \<open>
  \<open>hcmp\<close> takes its first argument for a \<open>ZNode\<close> and its second for an \<open>HKey\<close>;
  reading one through the type of the other is \<open>WildPtr\<close>.
\<close>

definition hcmp :: "(addr \<rightharpoonup> zdata) \<Rightarrow> (addr \<rightharpoonup> hkey) \<Rightarrow> addr \<Rightarrow> addr \<Rightarrow> bool res" where
  "hcmp data keys node key =
     rbind (load data node) (\<lambda>z. rbind (load keys key) (\<lambda>k.
       if z_len z \<noteq> k_len k then Inr False
       else rbind (slice (z_name z) 0 (z_len z)) (\<lambda>a. rbind (slice (k_name k) 0 (z_len z)) (\<lambda>b.
         Inr (a = b)))))"

section \<open>Operations\<close>

definition znode_new :: "bytes \<Rightarrow> flt \<Rightarrow> zset \<Rightarrow> (addr \<times> zset) res" where
  "znode_new name score z =
     (let a = zs_next z;
          z1 = z\<lparr>zs_data := (zs_data z)(a \<mapsto> \<lparr>z_score = score, z_len = length name, z_name = name\<rparr>),
                 zs_nodes := (zs_nodes z)(a \<mapsto> \<lparr>hn_next = None, hn_hcode = str_hash name\<rparr>),
                 zs_avl := (zs_avl z)(a \<mapsto> \<lparr>av_height = 0, av_cnt = 0, av_left = None, av_right = None,
                                          av_parent = None\<rparr>),
                 zs_next := Suc a\<rparr>
      in rbind (avl_init (zs_avl z1) a) (\<lambda>h. Inr (a, z1\<lparr>zs_avl := h\<rparr>)))"

definition znode_del :: "addr \<Rightarrow> zset \<Rightarrow> zset" where
  "znode_del a z = z\<lparr>zs_data := (zs_data z)(a := None), zs_nodes := (zs_nodes z)(a := None),
     zs_avl := (zs_avl z)(a := None)\<rparr>"

definition stack_hkey :: "bytes \<Rightarrow> zset \<Rightarrow> addr \<times> zset" where
  "stack_hkey name z = (let a = zs_next z in
     (a, z\<lparr>zs_nodes := (zs_nodes z)(a \<mapsto> \<lparr>hn_next = None, hn_hcode = str_hash name\<rparr>),
           zs_keys := (zs_keys z)(a \<mapsto> \<lparr>k_name = name, k_len = length name\<rparr>),
           zs_next := Suc a\<rparr>))"

definition drop_hkey :: "addr \<Rightarrow> zset \<Rightarrow> zset" where
  "drop_hkey a z = z\<lparr>zs_nodes := (zs_nodes z)(a := None), zs_keys := (zs_keys z)(a := None)\<rparr>"

definition zset_lookup :: "zset \<Rightarrow> bytes \<Rightarrow> (zset \<times> ptr) res" where
  "zset_lookup z name =
     (if zs_tree z = None then Inr (z, None)
      else let (key, z1) = stack_hkey name z in
        rbind (hm_lookup (zs_nodes z1) (zs_hmap z1) key (hcmp (zs_data z1) (zs_keys z1))) (\<lambda>(h, m, found).
          Inr (drop_hkey key (z1\<lparr>zs_nodes := h, zs_hmap := m\<rparr>), found)))"

text \<open>The descent of \<open>tree_add\<close>: \<open>from\<close> is the incoming pointer of the next node.\<close>

datatype tslot = RootSlot | LeftSlot addr | RightSlot addr

definition tslot_get :: "zset \<Rightarrow> tslot \<Rightarrow> ptr res" where
  "tslot_get z sl = (case sl of
       RootSlot \<Rightarrow> Inr (zs_tree z)
     | LeftSlot a \<Rightarrow> rbind (load (zs_avl z) a) (\<lambda>n. Inr (av_left n))
     | RightSlot a \<Rightarrow> rbind (load (zs_avl z) a) (\<lambda>n. Inr (av_right n)))"

definition tslot_set :: "zset \<Rightarrow> tslot \<Rightarrow> addr \<Rightarrow> zset res" where
  "tslot_set z sl node = (case sl of
       RootSlot \<Rightarrow> Inr (z\<lparr>zs_tree := Some node\<rparr>)
     | LeftSlot a \<Rightarrow> rbind (upd (zs_avl z) a (\<lambda>n. n\<lparr>av_left := Some node\<rparr>)) (\<lambda>h. Inr (z\<lparr>zs_avl := h\<rparr>))
     | RightSlot a \<Rightarrow> rbind (upd (zs_avl z) a (\<lambda>n. n\<lparr>av_right := Some node\<rparr>)) (\<lambda>h. Inr (z\<lparr>zs_avl := h\<rparr>)))"

fun tree_descend :: "nat \<Rightarrow> zset \<Rightarrow> addr \<Rightarrow> ptr \<Rightarrow> tslot \<Rightarrow> (ptr \<times> tslot) res" where
  "tree_descend 0 z node cur from = Inl OutOfFuel"
| "tree_descend (Suc fuel) z node cur from =
     rbind (tslot_get z from) (\<lambda>p. case p of
       None \<Rightarrow> Inr (cur, from)
     | Some c \<Rightarrow> rbind (zless (zs_data z) node c) (\<lambda>b.
         tree_descend fuel z node (Some c) (if b then LeftSlot c else RightSlot c)))"

definition tree_add :: "nat \<Rightarrow> zset \<Rightarrow> addr \<Rightarrow> zset res" where
  "tree_add fuel z node =
     rbind (tree_descend fuel z node None RootSlot) (\<lambda>(cur, from).
     rbind (tslot_set z from node) (\<lambda>z1.
     rbind (upd (zs_avl z1) node (\<lambda>n. n\<lparr>av_parent := cur\<rparr>)) (\<lambda>h.
     rbind (avl_fix fuel h node) (\<lambda>(h', root).
       Inr (z1\<lparr>zs_avl := h', zs_tree := Some root\<rparr>)))))"

text \<open>The set is passed by pointer; \<open>None\<close> is NULL.\<close>

definition zset_update :: "nat \<Rightarrow> zset option \<Rightarrow> addr \<Rightarrow> flt \<Rightarrow> zset option res" where
  "zset_update fuel zp node score = (case zp of
       None \<Rightarrow> Inr None
     | Some z \<Rightarrow>
         rbind (load (zs_data z) node) (\<lambda>d.
         if flt_eq (z_score d) score then Inr (Some z)
         else
           rbind (avl_del fuel (zs_avl z) node) (\<lambda>(h, root).
           let z1 = z\<lparr>zs_avl := h, zs_tree := root,
                      zs_data := (zs_data z)(node \<mapsto> d\<lparr>z_score := score\<rparr>)\<rparr> in
           rbind (avl_init (zs_avl z1) node) (\<lambda>h1.
           rbind (tree_add fuel (z1\<lparr>zs_avl := h1\<rparr>) node) (\<lambda>z2. Inr (Some z2))))))"

definition zset_add :: "nat \<Rightarrow> zset \<Rightarrow> bytes \<Rightarrow> flt \<Rightarrow> (zset \<times> bool) res" where
  "zset_add fuel z name score =
     rbind (zset_lookup z name) (\<lambda>(z0, found).
     case found of
       Some a \<Rightarrow> rbind (zset_update fuel (Some z0) a score) (\<lambda>z1. Inr (the z1, False))
     | None \<Rightarrow>
         rbind (znode_new name score z0) (\<lambda>(node, z1).
         rbind (hm_insert (zs_nodes z1) (zs_hmap z1) node) (\<lambda>(h, m).
         rbind (tree_add fuel (z1\<lparr>zs_nodes := h, zs_hmap := m\<rparr>) node) (\<lambda>z2.
           Inr (z2, True)))))"

definition zset_pop :: "nat \<Rightarrow> zset \<Rightarrow> bytes \<Rightarrow> (zset \<times> ptr) res" where
  "zset_pop fuel z name =
     (let (key, z1) = stack_hkey name z in
      rbind (hm_pop (zs_nodes z1) (zs_hmap z1) key (hcmp (zs_data z1) (zs_keys z1))) (\<lambda>(h, m, hnode).
      let z2 = drop_hkey key (z1\<lparr>zs_nodes := h, zs_hmap := m\<rparr>) in
      case hnode of
        None \<Rightarrow> Inr (z2, None)
      | Some found \<Rightarrow>
          rbind (avl_del fuel (zs_avl z2) found) (\<lambda>(h', root).
            Inr (z2\<lparr>zs_avl := h', zs_tree := root\<rparr>, Some found))))"

section \<open>Inserting into the tree never succeeds\<close>

lemma avl_fix_leaf:
  assumes n: "h a = Some n" "av_left n = None" "av_right n = None"
  shows "avl_fix fuel h a \<noteq> Inr r"
proof (cases fuel)
  case (Suc k)
  have up: "\<exists>n1. avl_update h a = Inr (h(a \<mapsto> n1)) \<and> av_left n1 = None \<and> av_right n1 = None"
    by (rule exI [of _ "n\<lparr>av_height := 1 + max_u32 (- 1) (- 1), av_cnt := 1\<rparr>"])
      (use n in \<open>simp add: avl_update_def avl_height_def avl_cnt_def upd_def\<close>)
  then obtain n1 where n1: "avl_update h a = Inr (h(a \<mapsto> n1))" "av_left n1 = None" "av_right n1 = None" by blast
  have "avl_fix_round h a \<noteq> Inr x" for x
  proof -
    have "avl_fix_right (h(a \<mapsto> n1)) a = Inl NullDeref"
      using n1 by (simp add: avl_fix_right_def)
    moreover have "(0 :: u32) < - 1" by code_simp
    ultimately show ?thesis
      using n1 by (auto simp: avl_fix_round_def avl_height_def rbind_eq_Inr)
  qed
  then show ?thesis
    using Suc by (auto simp: rbind_eq_Inr)
qed simp

lemma tree_at_child:
  "tree_at h p par t \<Longrightarrow> c \<in> set_tree t \<Longrightarrow> h c = Some n \<Longrightarrow>
     av_left n = Some d \<or> av_right n = Some d \<Longrightarrow> d \<in> set_tree t"
proof (induction t arbitrary: p par)
  case (Node l a r)
  from Node.prems(1) obtain m where m: "h a = Some m" "tree_at h (av_left m) (Some a) l"
    "tree_at h (av_right m) (Some a) r" by auto
  show ?case
  proof (cases "c = a")
    case True
    with m Node.prems(3,4) have "tree_at h (Some d) (Some a) l \<or> tree_at h (Some d) (Some a) r" by auto
    then show ?thesis using tree_at_hd by fastforce
  next
    case False
    with Node.prems(2) have "c \<in> set_tree l \<or> c \<in> set_tree r" by simp
    then show ?thesis
      using Node.IH(1) [OF m(2) _ Node.prems(3,4)] Node.IH(2) [OF m(3) _ Node.prems(3,4)] by auto
  qed
qed simp

lemma tree_descend_inside:
  assumes t: "tree_at (zs_avl z) (zs_tree z) None T" and node: "node \<notin> set_tree T"
  shows "tree_descend fuel z node cur from = Inr (cur', from') \<Longrightarrow>
     (case from of RootSlot \<Rightarrow> True | LeftSlot c \<Rightarrow> c \<in> set_tree T | RightSlot c \<Rightarrow> c \<in> set_tree T) \<Longrightarrow>
     (case from' of RootSlot \<Rightarrow> True | LeftSlot c \<Rightarrow> c \<in> set_tree T | RightSlot c \<Rightarrow> c \<in> set_tree T)"
proof (induction fuel arbitrary: cur "from")
  case (Suc fuel)
  from Suc.prems(1) obtain p where p: "tslot_get z from = Inr p"
    "(case p of None \<Rightarrow> Inr (cur, from)
      | Some c \<Rightarrow> rbind (zless (zs_data z) node c) (\<lambda>b.
         tree_descend fuel z node (Some c) (if b then LeftSlot c else RightSlot c))) = Inr (cur', from')"
    by (auto simp: rbind_eq_Inr)
  show ?case
  proof (cases p)
    case None
    with p(2) Suc.prems(2) show ?thesis by simp
  next
    case (Some c)
    with p(2) obtain b where b: "tree_descend fuel z node (Some c) (if b then LeftSlot c else RightSlot c) = Inr (cur', from')"
      by (auto simp: rbind_eq_Inr)
    have "c \<in> set_tree T"
    proof (cases "from")
      case RootSlot
      then show ?thesis using p(1) Some t tree_at_hd by (simp add: tslot_get_def)
    next
      case (LeftSlot a)
      then show ?thesis
        using p(1) Some Suc.prems(2) tree_at_child [OF t, of a _ c] by (auto simp: tslot_get_def rbind_eq_Inr)
    next
      case (RightSlot a)
      then show ?thesis
        using p(1) Some Suc.prems(2) tree_at_child [OF t, of a _ c] by (auto simp: tslot_get_def rbind_eq_Inr)
    qed
    then show ?thesis
      by (intro Suc.IH [OF b]) simp
  qed
qed simp

lemma tree_add_fails:
  assumes t: "tree_at (zs_avl z) (zs_tree z) None T" and node: "node \<notin> set_tree T"
    and n: "zs_avl z node = Some n" "av_left n = None" "av_right n = None"
  shows "tree_add fuel z node \<noteq> Inr z'"
proof
  assume "tree_add fuel z node = Inr z'"
  then obtain cur "from" z1 h r where r: "tree_descend fuel z node None RootSlot = Inr (cur, from)"
    "tslot_set z from node = Inr z1" "upd (zs_avl z1) node (\<lambda>n. n\<lparr>av_parent := cur\<rparr>) = Inr h"
    "avl_fix fuel h node = Inr r"
    by (auto simp: tree_add_def rbind_eq_Inr)
  have "case from of RootSlot \<Rightarrow> True | LeftSlot c \<Rightarrow> c \<in> set_tree T | RightSlot c \<Rightarrow> c \<in> set_tree T"
    using tree_descend_inside [OF t node r(1)] by simp
  then have "zs_avl z1 node = Some n"
    using r(2) node n(1) by (auto simp: tslot_set_def upd_def rbind_eq_Inr split: tslot.splits)
  then have "h node = Some (n\<lparr>av_parent := cur\<rparr>)"
    using r(3) by (auto simp: upd_def)
  with avl_fix_leaf [of h node] n r(4) show False by auto
qed

section \<open>The lookup never finds anything\<close>

lemma h_lookup_loop_no_eq:
  assumes "\<And>c. eqf key c \<noteq> Inr True"
  shows "h_lookup_loop fuel h t from key kc eqf \<noteq> Inr (Some sl)"
proof (induction fuel arbitrary: "from")
  case (Suc fuel)
  then show ?case
    using assms by (auto simp: rbind_eq_Inr split: option.splits if_splits)
qed (auto simp: rbind_eq_Inr)

lemma hm_lookup_no_eq:
  assumes "\<And>c. eqf key c \<noteq> Inr True" and "hm_lookup h m key eqf = Inr (h', m', p)"
  shows "p = None"
proof -
  have no: "h_lookup g t key eqf \<noteq> Inr (Some sl)" for g t sl
    using h_lookup_loop_no_eq [of eqf key, OF assms(1)] by (auto simp: h_lookup_def rbind_eq_Inr Let_def)
  show ?thesis
    using assms(2) no by (auto simp: hm_lookup_def rbind_eq_Inr split: option.splits)
qed

lemma zset_lookup_misses:
  assumes fresh: "zs_data z (zs_next z) = None" and run: "zset_lookup z name = Inr (z', r)"
  shows "r = None"
proof (cases "zs_tree z = None")
  case False
  let ?a = "zs_next z"
  let ?k = "(zs_keys z)(?a \<mapsto> \<lparr>k_name = name, k_len = length name\<rparr>)"
  have eq: "hcmp (zs_data z) ?k ?a c \<noteq> Inr True" for c
    using fresh by (simp add: hcmp_def load_def)
  from run False obtain h m where
    "hm_lookup ((zs_nodes z)(?a \<mapsto> \<lparr>hn_next = None, hn_hcode = str_hash name\<rparr>)) (zs_hmap z) ?a
       (hcmp (zs_data z) ?k) = Inr (h, m, r)"
    by (auto simp: zset_lookup_def stack_hkey_def Let_def rbind_eq_Inr)
  then show ?thesis
    by (rule hm_lookup_no_eq [rotated]) (rule eq)
qed (use run in \<open>simp add: zset_lookup_def\<close>)

end
