(* ===== verification/AvlDel.thy ===== *)
theory AvlDel
  imports AvlSpec
begin

text \<open>
  \<open>avl_del\<close> refines the removal of a node from an algebraic tree.  A node with a right
  child is exchanged with the first node of its right subtree, which is removed in its place;
  the exchange renames the node in the tree, and the heap follows that renaming.
\<close>

section \<open>Removal from an algebraic tree\<close>

text \<open>The first node of the subtree \<open>Node l x r\<close> in the context \<open>c\<close>, with its context.\<close>

fun first :: "addr tree \<Rightarrow> addr \<Rightarrow> addr tree \<Rightarrow> crumb list \<Rightarrow> addr \<times> addr tree \<times> crumb list" where
  "first Leaf x r c = (x, r, c)"
| "first (Node ll y lr) x r c = first ll y lr ((True, x, r) # c)"

lemma first_size: "first l x r c = (v, rv, cv) \<Longrightarrow> size rv \<le> size l + size r"
  by (induction l x r c rule: first.induct) auto

lemma first_fill: "first l x r c = (v, rv, cv) \<Longrightarrow> fill (Node Leaf v rv) cv = fill (Node l x r) c"
  by (induction l x r c rule: first.induct) auto

lemma first_nodes:
  "first l x r c = (v, rv, cv) \<Longrightarrow> mset (v # inorder rv @ ctx_nodes cv) = mset (inorder (Node l x r) @ ctx_nodes c)"
  by (induction l x r c rule: first.induct) auto

lemma first_head: "first l x r c = (v, rv, cv) \<Longrightarrow> \<exists>ys. inorder (Node l x r) = v # ys"
proof (induction l x r c rule: first.induct)
  case (2 ll y lr x r c)
  then obtain ys where "inorder (Node ll y lr) = v # ys" by auto
  then show ?case by (intro exI [of _ "ys @ x # inorder r"]) simp
qed simp

text \<open>
  The tree without \<open>a\<close>, whose subtrees are \<open>l\<close> and \<open>r\<close> and whose context is \<open>c\<close>;
  \<open>None\<close> when the repair on the way up meets a missing child.
\<close>

function remove :: "addr tree \<Rightarrow> addr \<Rightarrow> addr tree \<Rightarrow> crumb list \<Rightarrow> addr tree option" where
  "remove l a Leaf [] = Some l"
| "remove l a Leaf (f # c) = climb (plug f l) c"
| "remove l a (Node rl x rr) c = (case first rl x rr ((False, a, l) # c) of
     (v, rv, cv) \<Rightarrow> map_option (map_tree (id(a := v))) (remove Leaf v rv cv))"
  by pat_completeness auto

termination remove
proof (relation "measure (\<lambda>(l, a, r, c). size r)")
  fix l a rl x rr c v y rv cv
  assume "(v, y) = first rl x rr ((False, a, l) # c)" "(rv, cv) = y"
  then have "first rl x rr ((False, a, l) # c) = (v, rv, cv)" by simp
  from first_size [OF this]
  show "((Leaf, v, rv, cv), l, a, Node rl x rr, c) \<in> measure (\<lambda>(l, a, r, c). size r)" by simp
qed simp

lemma inorder_plug:
  "inorder (plug (d, p, s) t) = (if d then inorder t @ p # inorder s else inorder s @ p # inorder t)"
  by simp

text \<open>A context wraps the in-order sequence of what fills it.\<close>

lemma fill_split: "\<exists>pre post. set (pre @ post) = set (ctx_nodes c) \<and> (\<forall>t. inorder (fill t c) = pre @ inorder t @ post)"
proof (induction c)
  case (Cons f c)
  obtain d p s where f: "f = (d, p, s)" by (cases f)
  from Cons obtain pre post where IH: "set (pre @ post) = set (ctx_nodes c)"
    "\<And>t. inorder (fill t c) = pre @ inorder t @ post" by blast
  show ?case
  proof (cases d)
    case True
    with IH f show ?thesis by (intro exI [of _ pre] exI [of _ "p # inorder s @ post"]) auto
  next
    case False
    with IH f show ?thesis by (intro exI [of _ "pre @ inorder s @ [p]"] exI [of _ post]) auto
  qed
qed simp

lemma fill_nodes: "mset (inorder (fill t c)) = mset (inorder t @ ctx_nodes c)"
proof (induction c arbitrary: t)
  case (Cons f c)
  then show ?case by (cases f) (simp add: union_ac)
qed simp

lemma filter_one: "a \<notin> set xs \<Longrightarrow> a \<notin> set ys \<Longrightarrow> filter (\<lambda>x. x \<noteq> a) (xs @ a # ys) = xs @ ys"
  by (induction xs) (auto simp: filter_id_conv)

lemma remove_inorder:
  "remove l a r c = Some T \<Longrightarrow> distinct (inorder (Node l a r) @ ctx_nodes c) \<Longrightarrow>
     inorder T = filter (\<lambda>x. x \<noteq> a) (inorder (fill (Node l a r) c))"
proof (induction l a r c arbitrary: T rule: remove.induct)
  case (1 l a)
  then show ?case using filter_one [of a "inorder l" "[]"] by auto
next
  case (2 l a f c)
  obtain d p s where f: "f = (d, p, s)" by (cases f)
  obtain pre post where fs: "set (pre @ post) = set (ctx_nodes (f # c))"
    "\<And>t. inorder (fill t (f # c)) = pre @ inorder t @ post" using fill_split [of "f # c"] by blast
  have "a \<notin> set (pre @ post)" "a \<notin> set_tree l" unfolding fs(1) using 2(2) by auto
  then have "filter (\<lambda>x. x \<noteq> a) ((pre @ inorder l) @ a # post) = (pre @ inorder l) @ post"
    by (intro filter_one) auto
  then show ?case using climb_inorder [of "plug f l" c T] 2(1) fs(2) [of l] fs(2) [of "Node l a Leaf"] by simp
next
  case (3 l a rl x rr c)
  obtain v rv cv where fst: "first rl x rr ((False, a, l) # c) = (v, rv, cv)"
    using prod_cases3 by blast
  note fst' = fst [symmetric]
  from 3(2) fst obtain T0 where T0: "remove Leaf v rv cv = Some T0" "T = map_tree (id(a := v)) T0" by auto
  have "distinct (v # inorder rv @ ctx_nodes cv)"
    using 3(3) mset_eq_imp_distinct_iff [OF first_nodes [OF fst]] by auto
  then have i0: "inorder T0 = filter (\<lambda>x. x \<noteq> v) (inorder (fill (Node l a (Node rl x rr)) c))"
    using 3(1) [OF fst' refl T0(1)] first_fill [OF fst] by simp
  obtain ys where ys: "inorder (Node rl x rr) = v # ys" using first_head [OF fst] by blast
  obtain pre post where fs: "set (pre @ post) = set (ctx_nodes c)"
    "\<And>t. inorder (fill t c) = pre @ inorder t @ post" using fill_split [of c] by blast
  define xs zs where "xs = pre @ inorder l" and "zs = ys @ post"
  have all: "inorder (fill (Node l a (Node rl x rr)) c) = xs @ a # v # zs"
    using fs(2) ys by (simp add: xs_def zs_def)
  have "set xs \<subseteq> set (ctx_nodes c) \<union> set_tree l" "set zs \<subseteq> set (ctx_nodes c) \<union> set ys"
    using fs(1) by (auto simp: xs_def zs_def)
  moreover have "inorder (Node l a (Node rl x rr)) = inorder l @ a # v # ys"
    using ys by simp
  then have "distinct (inorder l @ a # v # ys @ ctx_nodes c)"
    using 3(3) by (simp only:) simp
  ultimately have ne: "a \<notin> set xs" "a \<notin> set zs" "v \<notin> set xs" "v \<notin> set zs" "a \<noteq> v" by auto
  have "filter (\<lambda>x. x \<noteq> v) ((xs @ [a]) @ v # zs) = (xs @ [a]) @ zs"
    by (rule filter_one) (use ne in auto)
  then have "inorder T = map (id(a := v)) (xs @ a # zs)"
    using i0 all T0(2) by (simp add: inorder_map)
  also have "\<dots> = xs @ v # zs"
    using ne by (auto intro!: map_idI)
  also have "\<dots> = filter (\<lambda>x. x \<noteq> a) (xs @ a # v # zs)"
    by (rule filter_one [symmetric]) (use ne in auto)
  finally show ?case using all by simp
qed

section \<open>The victim\<close>

lemma first_at:
  "first l x r c = (v, rv, cv) \<Longrightarrow> root_at h x par l r \<Longrightarrow> ctx_at h (Some x) par c \<Longrightarrow> size l < fuel \<Longrightarrow>
     leftmost fuel h x = Inr v \<and> (\<exists>q. root_at h v q Leaf rv \<and> ctx_at h (Some v) q cv)"
proof (induction l x r c arbitrary: fuel par rule: first.induct)
  case (1 x r c)
  then obtain k where "fuel = Suc k" by (cases fuel) auto
  with 1 show ?case by (auto simp: root_at_def)
next
  case (2 ll y lr x r c)
  then obtain k where k: "fuel = Suc k" "size ll < k" by (cases fuel) auto
  from 2(3) obtain n where n: "h x = Some n" "av_parent n = par" "tree_at h (av_left n) (Some x) (Node ll y lr)"
    "tree_at h (av_right n) (Some x) r" by (auto simp: root_at_def)
  then have y: "av_left n = Some y" "root_at h y (Some x) ll lr" by (auto simp: root_at_def)
  have "ctx_at h (Some y) (Some x) ((True, x, r) # c)" using n y 2(4) by simp
  with 2(1) [of "Some x" k] 2(2) y(2) k n y(1) show ?case by simp
qed

section \<open>Renaming a node\<close>

definition rename_node :: "(addr \<Rightarrow> addr) \<Rightarrow> avlnode \<Rightarrow> avlnode" where
  "rename_node f n = n\<lparr>av_left := map_option f (av_left n), av_right := map_option f (av_right n),
     av_parent := map_option f (av_parent n)\<rparr>"

lemma hgt_map_tree [simp]: "hgt (map_tree f t) = hgt t"
  by (induction t) auto

lemma tree_at_rename:
  "tree_at h p par t \<Longrightarrow> (\<forall>x \<in> set_tree t. \<forall>n. h x = Some n \<longrightarrow> h' (f x) = Some (rename_node f n)) \<Longrightarrow>
     tree_at h' (map_option f p) (map_option f par) (map_tree f t)"
proof (induction t arbitrary: p par)
  case (Node l a r)
  from Node.prems(1) obtain n where n: "p = Some a" "h a = Some n" "av_parent n = par"
    "tree_at h (av_left n) (Some a) l" "tree_at h (av_right n) (Some a) r"
    "av_height n = hgt (Node l a r)" "av_cnt n = of_nat (size (Node l a r))" by auto
  with Node.IH(1) [OF n(4)] Node.IH(2) [OF n(5)] Node.prems(2) show ?case
    by (simp add: rename_node_def)
qed simp

text \<open>The links of a tree: a child's parent pointer leads back, and a parent's child pointer does.\<close>

definition node_linked :: "avlheap \<Rightarrow> ptr \<Rightarrow> ptr \<Rightarrow> addr set \<Rightarrow> addr \<Rightarrow> avlnode \<Rightarrow> bool" where
  "node_linked h p par A x n \<longleftrightarrow>
     av_left n \<noteq> Some x \<and> av_right n \<noteq> Some x \<and> av_parent n \<noteq> Some x
     \<and> (\<forall>y. av_left n = Some y \<longrightarrow> av_right n \<noteq> Some y)
     \<and> (\<forall>y. av_left n = Some y \<or> av_right n = Some y \<longrightarrow> y \<in> A \<and> (\<exists>m. h y = Some m \<and> av_parent m = Some x))
     \<and> (p = Some x \<and> av_parent n = par \<or> (\<exists>y. av_parent n = Some y \<and> y \<in> A
         \<and> (\<exists>m. h y = Some m \<and> (av_left m = Some x \<or> av_right m = Some x))))"

lemma node_linked_up:
  assumes "node_linked h q (Some a) A x m" and "q = av_left n \<or> q = av_right n" and "h a = Some n"
    and "insert a A \<subseteq> B"
  shows "node_linked h p par B x m"
  using assms unfolding node_linked_def by (elim disjE conjE) (auto 0 4)

lemma tree_at_linked:
  "tree_at h p par t \<Longrightarrow> distinct (inorder t) \<Longrightarrow> (\<And>y. par = Some y \<Longrightarrow> y \<notin> set_tree t) \<Longrightarrow>
     x \<in> set_tree t \<Longrightarrow> \<exists>n. h x = Some n \<and> node_linked h p par (set_tree t) x n"
proof (induction t arbitrary: p par)
  case (Node l a r)
  from Node.prems(1) obtain n where n: "p = Some a" "h a = Some n" "av_parent n = par"
    "tree_at h (av_left n) (Some a) l" "tree_at h (av_right n) (Some a) r" by auto
  have d: "distinct (inorder l)" "distinct (inorder r)" "a \<notin> set_tree l" "a \<notin> set_tree r"
    "set_tree l \<inter> set_tree r = {}" using Node.prems(2) by auto
  have lc: "y \<in> set_tree l \<and> (\<exists>m. h y = Some m \<and> av_parent m = Some a)" if "av_left n = Some y" for y
    using n(4) that by (cases l) auto
  have rc: "y \<in> set_tree r \<and> (\<exists>m. h y = Some m \<and> av_parent m = Some a)" if "av_right n = Some y" for y
    using n(5) that by (cases r) auto
  from Node.prems(4) consider "x = a" | "x \<in> set_tree l" | "x \<in> set_tree r" by auto
  then show ?case
  proof cases
    case 1
    have "av_left n \<noteq> Some a" "av_right n \<noteq> Some a" "\<forall>y. av_left n = Some y \<longrightarrow> av_right n \<noteq> Some y" "par \<noteq> Some a"
      using lc rc d(3-5) Node.prems(3) by auto
    then have "node_linked h p par (set_tree (Node l a r)) a n"
      using n(1,3) lc rc unfolding node_linked_def by auto
    with 1 n(2) show ?thesis by blast
  next
    case 2
    from Node.IH(1) [OF n(4) d(1) _ 2] d(3) obtain m where
      "h x = Some m" "node_linked h (av_left n) (Some a) (set_tree l) x m" by auto
    with node_linked_up [OF this(2) _ n(2), of "set_tree (Node l a r)" p par] show ?thesis by auto
  next
    case 3
    from Node.IH(2) [OF n(5) d(2) _ 3] d(4) obtain m where
      "h x = Some m" "node_linked h (av_right n) (Some a) (set_tree r) x m" by auto
    with node_linked_up [OF this(2) _ n(2), of "set_tree (Node l a r)" p par] show ?thesis by auto
  qed
qed simp

section \<open>\<open>avl_del\<close>\<close>

lemma length_ctx: "length c \<le> length (ctx_nodes c)"
  by (induction c rule: ctx_nodes.induct) auto

lemma ctx_left_slot:
  assumes "ctx_at h (Some a) par ((d, p, s) # c)" and "h p = Some pn" and "a \<notin> set_tree s"
  shows "(av_left pn = Some a) = d"
proof (cases d)
  case False
  with assms have "tree_at h (av_left pn) (Some p) s" by auto
  with assms(3) tree_at_hd have "av_left pn \<noteq> Some a" by fastforce
  with False show ?thesis by simp
qed (use assms in simp)

text \<open>Removing a node that has no right child.\<close>

lemma avl_del_refines:
  assumes n: "h a = Some n" "av_parent n = par" "tree_at h (av_left n) (Some a) l" "av_right n = None"
    and ctx: "ctx_at h (Some a) par c" and d: "distinct (inorder l @ a # ctx_nodes c)" and fuel: "length c \<le> fuel"
  shows "case c of
      [] \<Rightarrow> \<exists>h'. avl_del (Suc fuel) h a = Inr (h', av_left n) \<and> tree_at h' (av_left n) None l \<and> h' a \<noteq> None
    | f # c' \<Rightarrow> (case climb (plug f l) c' of
          None \<Rightarrow> avl_del (Suc fuel) h a = Inl NullDeref
        | Some T \<Rightarrow> \<exists>h' b. avl_del (Suc fuel) h a = Inr (h', Some b) \<and> tree_at h' (Some b) None T \<and> h' a \<noteq> None)"
proof -
  have "distinct (inorder l)" using d by simp
  from tree_at_set_parent [OF n(3) this, of par] obtain h1 where
    h1: "set_parent h (av_left n) par = Inr h1" "tree_at h1 (av_left n) par l"
    "\<And>x. x \<notin> set_tree l \<Longrightarrow> h1 x = h x" by blast
  show ?thesis
  proof (cases c)
    case Nil
    then show ?thesis using n(1,2,4) ctx h1 d by simp
  next
    case (Cons f c')
    obtain dd p s where f: "f = (dd, p, s)" by (cases f)
    from ctx Cons f obtain pn where pn: "par = Some p" "h p = Some pn"
      "tree_at h (if dd then av_right pn else av_left pn) (Some p) s" "ctx_at h (Some p) (av_parent pn) c'" by auto
    have ne: "p \<noteq> a" "p \<notin> set_tree l" "p \<notin> set_tree s" "p \<notin> set (ctx_nodes c')"
      "set_tree l \<inter> set_tree s = {}" "set_tree l \<inter> set (ctx_nodes c') = {}" "a \<notin> set_tree s"
      using d Cons f by auto
    have left: "(av_left pn = Some a) = dd"
      using ctx_left_slot [of h a par dd p s c' pn] ctx Cons f pn(2) ne(7) by simp
    let ?pn = "if dd then pn\<lparr>av_left := av_left n\<rparr> else pn\<lparr>av_right := av_left n\<rparr>"
    let ?h2 = "h1(p \<mapsto> ?pn)"
    have old: "?h2 x = h x" if "x \<notin> set_tree l" "x \<noteq> p" for x
      using that h1(3) by simp
    have s2: "tree_at ?h2 (if dd then av_right pn else av_left pn) (Some p) s"
      by (rule tree_at_frame [OF pn(3)]) (use old ne in blast)
    have c2: "ctx_at ?h2 (Some p) (av_parent pn) c'"
      by (rule ctx_at_frame [OF pn(4)]) (use old ne in blast)
    have l2: "tree_at ?h2 (av_left n) (Some p) l"
      using h1(2) pn(1) ne(2) by simp
    define L R where "L = (if dd then l else s)" and "R = (if dd then s else l)"
    have pl: "plug f l = Node L p R" by (simp add: f L_def R_def)
    have root: "root_at ?h2 p (av_parent pn) L R"
      using l2 s2 by (cases dd) (simp_all add: root_at_def L_def R_def)
    have dis: "distinct (inorder (Node L p R) @ ctx_nodes c')"
      using d Cons f by (cases dd) (auto simp: L_def R_def simp flip: set_inorder)
    have "set_child h1 p a (av_left n) = Inr ?h2"
      using h1(3) [OF ne(2)] pn(2) left by (simp add: set_child_def upd_def)
    then have run: "avl_del (Suc fuel) h a = rbind (avl_fix (Suc fuel) ?h2 p) (\<lambda>(h3, root). Inr (h3, Some root))"
      using n h1(1) pn(1) by (simp del: avl_fix.simps)
    have short: "length c' < Suc fuel" using fuel Cons by simp
    have "a \<notin> set (inorder (Node L p R) @ ctx_nodes c')" "?h2 a \<noteq> None"
      using d Cons f n(1) h1(3) by (cases dd; simp add: L_def R_def)+
    with avl_fix_refines [OF root c2 dis short] show ?thesis
      unfolding Cons by (auto simp: run pl refines_tree_def simp del: avl_fix.simps avl_del.simps split: option.splits)
  qed
qed

lemma map_option_rename: "map_option (id(a := v)) q = (if q = Some a then Some v else q)"
  by (cases q) auto

text \<open>
  The end of the exchange: \<open>victim\<close> gets the fields of \<open>node\<close>, and the children and
  the parent of \<open>node\<close> are led to \<open>victim\<close>.
\<close>

lemma exchange:
  assumes t: "tree_at h root None T" and d: "distinct (inorder T)" and a: "a \<in> set_tree T" and v: "v \<notin> set_tree T"
    and hv: "h v \<noteq> None"
  shows "\<exists>h' p. rbind (load h a) (\<lambda>n1.
         rbind (upd h v (\<lambda>_. n1)) (\<lambda>h2.
         rbind (load h2 v) (\<lambda>v0.
         rbind (set_parent h2 (av_left v0) (Some v)) (\<lambda>h3.
         rbind (load h3 v) (\<lambda>v1.
         rbind (set_parent h3 (av_right v1) (Some v)) (\<lambda>h4.
         rbind (load h4 a) (\<lambda>n4.
         case av_parent n4 of
           Some p \<Rightarrow> rbind (set_child h4 p a (Some v)) (\<lambda>h5. Inr (h5, root))
         | None \<Rightarrow> Inr (h4, Some v)))))))) = Inr (h', p)
     \<and> tree_at h' p None (map_tree (id(a := v)) T) \<and> h' a \<noteq> None"
proof -
  let ?f = "id(a := v)"
  note link = tree_at_linked [OF t d]
  from link [OF _ a] obtain n where n: "h a = Some n" "node_linked h root None (set_tree T) a n" by auto
  define h2 where "h2 = h(v \<mapsto> n)"
  define h3 where "h3 = (case av_left n of None \<Rightarrow> h2 | Some y \<Rightarrow> h2(y \<mapsto> (the (h y))\<lparr>av_parent := Some v\<rparr>))"
  define h4 where "h4 = (case av_right n of None \<Rightarrow> h3 | Some y \<Rightarrow> h3(y \<mapsto> (the (h y))\<lparr>av_parent := Some v\<rparr>))"
  have ne: "av_left n \<noteq> Some v" "av_right n \<noteq> Some v" "av_parent n \<noteq> Some v" "a \<noteq> v"
    using n(2) v a unfolding node_linked_def by auto
  have kids: "av_left n = Some y \<Longrightarrow> \<exists>m. h y = Some m \<and> y \<noteq> a" "av_right n = Some y \<Longrightarrow> \<exists>m. h y = Some m \<and> y \<noteq> a"
    and apart: "av_left n = Some y \<Longrightarrow> av_right n \<noteq> Some y" for y
    using n(2) unfolding node_linked_def by auto
  have s3: "set_parent h2 (av_left n) (Some v) = Inr h3"
    using kids ne by (auto simp: set_parent_def upd_def load_def h3_def h2_def split: option.splits)
  have v3: "h3 v = Some n" "h3 a = Some n"
    using kids ne n(1) by (auto simp: h3_def h2_def split: option.splits)
  have s4: "set_parent h3 (av_right n) (Some v) = Inr h4"
    using kids ne apart by (auto simp: set_parent_def upd_def load_def h4_def h3_def h2_def split: option.splits)
  have v4: "h4 v = Some n" "h4 a = Some n"
    using kids ne v3 by (auto simp: h4_def split: option.splits)
  have old: "h4 x = Some (m\<lparr>av_parent := if av_left n = Some x \<or> av_right n = Some x then Some v else av_parent m\<rparr>)"
    if "x \<in> set_tree T" "h x = Some m" for x m
    using that v apart by (auto simp: h4_def h3_def h2_def split: option.splits)
  have up: "av_parent m = Some a \<longleftrightarrow> av_left n = Some x \<or> av_right n = Some x"
    "av_left m = Some a \<or> av_right m = Some a \<longleftrightarrow> av_parent n = Some x"
    "\<not> (av_left m = Some a \<and> av_right m = Some a)"
    if "x \<in> set_tree T" "x \<noteq> a" "h x = Some m" for x m
    using link [of x] that n unfolding node_linked_def by auto
  define h5 where "h5 = (case av_parent n of None \<Rightarrow> h4
     | Some p \<Rightarrow> h4(p \<mapsto> (let m = the (h4 p) in if av_left m = Some a then m\<lparr>av_left := Some v\<rparr> else m\<lparr>av_right := Some v\<rparr>)))"
  have "\<forall>x \<in> set_tree T. \<forall>m. h x = Some m \<longrightarrow> h5 (?f x) = Some (rename_node ?f m)"
  proof (intro ballI allI impI)
    fix x m assume x: "x \<in> set_tree T" "h x = Some m"
    show "h5 (?f x) = Some (rename_node ?f m)"
    proof (cases "x = a")
      case True
      have "av_left n \<noteq> Some a" "av_right n \<noteq> Some a" "av_parent n \<noteq> Some a"
        using n(2) unfolding node_linked_def by auto
      with True x n(1) ne v4 show ?thesis
        by (auto simp: h5_def rename_node_def map_option_rename split: option.splits)
    next
      case False
      note u = up [OF x(1) False x(2)] and o = old [OF x]
      show ?thesis
      proof (cases "av_parent n = Some x")
        case True
        with o u False show ?thesis
          by (auto simp: h5_def rename_node_def map_option_rename)
      next
        case False
        with o u \<open>x \<noteq> a\<close> have "h5 x = h4 x" by (auto simp: h5_def split: option.splits)
        with o u False \<open>x \<noteq> a\<close> show ?thesis
          by (auto simp: rename_node_def map_option_rename)
      qed
    qed
  qed
  from tree_at_rename [OF t this] have tree: "tree_at h5 (map_option ?f root) None (map_tree ?f T)" by (simp only: option.map)
  have run: "(case av_parent n of
           Some p \<Rightarrow> rbind (set_child h4 p a (Some v)) (\<lambda>h5. Inr (h5, root))
         | None \<Rightarrow> Inr (h4, Some v)) = Inr (h5, map_option ?f root)"
  proof (cases "av_parent n")
    case None
    then have "root = Some a" using n(2) unfolding node_linked_def by auto
    with None show ?thesis by (simp add: h5_def)
  next
    case (Some p)
    then have "p \<in> set_tree T" "root \<noteq> Some a" "\<exists>m. h p = Some m"
      using n(2) t n(1) unfolding node_linked_def by (auto elim: tree_at.elims)
    with old Some obtain m where "h4 p = Some m" "root \<noteq> Some a" by blast
    with Some show ?thesis by (simp add: h5_def set_child_def upd_def load_def map_option_rename Let_def)
  qed
  have "h2 v = Some n" by (simp add: h2_def)
  moreover have "h5 a \<noteq> None"
    using v4 by (auto simp: h5_def split: option.splits)
  ultimately show ?thesis
    using n(1) hv s3 s4 v3 v4 run tree by (auto simp: upd_def load_def h2_def [symmetric])
qed

text \<open>
  Fuel for the climb from the victim, for the search of each victim and for one exchange
  per level.
\<close>

lemma avl_del_remove:
  "root_at h a par l r \<Longrightarrow> ctx_at h (Some a) par c \<Longrightarrow> distinct (inorder (Node l a r) @ ctx_nodes c) \<Longrightarrow>
     length (ctx_nodes c) + size l + 2 * size r < fuel \<Longrightarrow>
     case remove l a r c of
       None \<Rightarrow> avl_del fuel h a = Inl NullDeref
     | Some T \<Rightarrow> \<exists>h' p. avl_del fuel h a = Inr (h', p) \<and> tree_at h' p None T \<and> h' a \<noteq> None"
proof (induction l a r c arbitrary: h par fuel rule: remove.induct)
  case (1 l a)
  then obtain n k where "h a = Some n" "av_parent n = par" "tree_at h (av_left n) (Some a) l" "av_right n = None" "fuel = Suc k"
    by (cases fuel) (auto simp: root_at_def)
  with avl_del_refines [of h a n par l "[]" k] 1(2,3) show ?case by auto
next
  case (2 l a f c)
  then obtain n k where "h a = Some n" "av_parent n = par" "tree_at h (av_left n) (Some a) l" "av_right n = None" "fuel = Suc k"
    by (cases fuel) (auto simp: root_at_def)
  moreover have "length (f # c) \<le> k"
    using 2(4) \<open>fuel = Suc k\<close> length_ctx [of "f # c"] by simp
  ultimately show ?case
    using avl_del_refines [of h a n par l "f # c" k] 2(2,3)
    by (auto simp del: avl_del.simps climb.simps split: option.splits)
next
  case (3 l a rl x rr c)
  obtain v rv cv where fst: "first rl x rr ((False, a, l) # c) = (v, rv, cv)"
    using prod_cases3 by blast
  from 3(5) obtain k where k: "fuel = Suc k" by (cases fuel) auto
  from 3(2) obtain n where n: "h a = Some n" "av_parent n = par" "tree_at h (av_left n) (Some a) l"
    "tree_at h (av_right n) (Some a) (Node rl x rr)" by (auto simp: root_at_def)
  then have x: "av_right n = Some x" "root_at h x (Some a) rl rr" by (auto simp: root_at_def)
  have "ctx_at h (Some x) (Some a) ((False, a, l) # c)" using n x(1) 3(3) by simp
  from first_at [OF fst x(2) this, of fuel] 3(5) obtain q where
    v: "leftmost fuel h x = Inr v" "root_at h v q Leaf rv" "ctx_at h (Some v) q cv" by auto
  note nodes = first_nodes [OF fst]
  have len: "length (ctx_nodes cv) + size rv = length (ctx_nodes c) + size l + size rl + size rr + 1"
    using arg_cong [OF nodes, of size] by simp
  have dist: "distinct (inorder (Node Leaf v rv) @ ctx_nodes cv)"
    using mset_eq_imp_distinct_iff [OF nodes] 3(4) by auto
  have fuel: "length (ctx_nodes cv) + size (Leaf :: addr tree) + 2 * size rv < k"
    using len first_size [OF fst] 3(5) k by simp
  note IH = 3(1) [OF fst [symmetric] refl v(2,3) dist fuel]
  have run: "avl_del fuel h a = rbind (avl_del k h v) (\<lambda>(h1, root). rbind (load h1 a) (\<lambda>n1.
         rbind (upd h1 v (\<lambda>_. n1)) (\<lambda>h2.
         rbind (load h2 v) (\<lambda>v0.
         rbind (set_parent h2 (av_left v0) (Some v)) (\<lambda>h3.
         rbind (load h3 v) (\<lambda>v1.
         rbind (set_parent h3 (av_right v1) (Some v)) (\<lambda>h4.
         rbind (load h4 a) (\<lambda>n4.
         case av_parent n4 of
           Some p \<Rightarrow> rbind (set_child h4 p a (Some v)) (\<lambda>h5. Inr (h5, root))
         | None \<Rightarrow> Inr (h4, Some v)))))))))"
    using n(1) x(1) v(1) unfolding k by (simp add: load_def)
  show ?case
  proof (cases "remove Leaf v rv cv")
    case None
    with IH run fst show ?thesis by simp
  next
    case (Some T0)
    with IH obtain h1 root where h1: "avl_del k h v = Inr (h1, root)" "tree_at h1 root None T0" "h1 v \<noteq> None" by auto
    have io: "inorder T0 = filter (\<lambda>y. y \<noteq> v) (inorder (fill (Node l a (Node rl x rr)) c))"
      using remove_inorder [OF Some dist] first_fill [OF fst] by simp
    have nf: "mset (inorder (fill (Node l a (Node rl x rr)) c)) = mset (inorder (Node l a (Node rl x rr)) @ ctx_nodes c)"
      by (rule fill_nodes)
    have "v \<in> set_tree (Node rl x rr)"
      using first_head [OF fst] by (metis list.set_intros(1) set_inorder)
    then have "a \<noteq> v" using 3(4) by auto
    have "a \<in> set (inorder (fill (Node l a (Node rl x rr)) c))"
      using mset_eq_setD [OF nf] by simp
    with \<open>a \<noteq> v\<close> io have "a \<in> set (inorder T0)" "v \<notin> set (inorder T0)" by simp_all
    moreover have "distinct (inorder T0)"
      unfolding io by (rule distinct_filter) (use mset_eq_imp_distinct_iff [OF nf] 3(4) in blast)
    ultimately have T0: "distinct (inorder T0)" "a \<in> set_tree T0" "v \<notin> set_tree T0" by simp_all
    from exchange [OF h1(2) T0 h1(3)] show ?thesis
      using run h1(1) Some fst by simp
  qed
qed

end
