(* ===== verification/ZSetSpec.thy ===== *)
theory ZSetSpec
  imports ZSet AvlDel
begin

text \<open>
  Well-formed sorted sets, and the operations of \<open>src/zset.cpp\<close> on them: the lookups
  of \<open>zset_lookup\<close> and \<open>zset_pop\<close>, exactly, and the ends of \<open>zset_add\<close> and
  \<open>zset_update\<close>.
\<close>

section \<open>Well-formed sorted sets\<close>

text \<open>
  The tree and the hash map index the same elements; an element carries its name's hash,
  and nothing else is allocated.
\<close>

definition zset_ok :: "zset \<Rightarrow> addr tree \<Rightarrow> addr list list \<Rightarrow> bool" where
  "zset_ok z T bss \<longleftrightarrow>
     tree_at (zs_avl z) (zs_tree z) None T \<and> distinct (inorder T)
     \<and> hm_idle (zs_nodes z) (zs_hmap z) bss \<and> set (concat bss) = set_tree T
     \<and> dom (zs_nodes z) = set_tree T \<and> dom (zs_data z) = set_tree T \<and> zs_keys z = Map.empty
     \<and> (\<forall>a \<in> set_tree T. a < zs_next z
          \<and> map_option hn_hcode (zs_nodes z a) = map_option (str_hash \<circ> z_name) (zs_data z a))"

lemma zset_ok_empty: "zset_ok zset_empty Leaf []"
  by (simp add: zset_ok_def zset_empty_def hm_idle_zero)

text \<open>Some element of the set has the hash of the name; in particular, when it has the name.\<close>

definition clash :: "zset \<Rightarrow> bytes \<Rightarrow> bool" where
  "clash z name \<longleftrightarrow> (\<exists>a d. zs_data z a = Some d \<and> str_hash (z_name d) = str_hash name)"

lemma zset_ok_node:
  assumes "zset_ok z T bss" and "zs_data z a = Some d"
  shows "a \<in> set_tree T" "\<exists>nd. zs_nodes z a = Some nd \<and> hn_hcode nd = str_hash (z_name d)"
proof -
  show "a \<in> set_tree T" using assms by (auto simp: zset_ok_def)
  with assms show "\<exists>nd. zs_nodes z a = Some nd \<and> hn_hcode nd = str_hash (z_name d)"
    by (fastforce simp: zset_ok_def)
qed

lemma zset_ok_fresh:
  assumes "zset_ok z T bss" and "zs_next z \<le> a"
  shows "a \<notin> set_tree T" "zs_nodes z a = None" "zs_data z a = None"
proof -
  show "a \<notin> set_tree T" using assms by (auto simp: zset_ok_def)
  then show "zs_nodes z a = None" "zs_data z a = None"
    using assms(1) by (auto simp: zset_ok_def)
qed

section \<open>Finding\<close>

text \<open>
  The comparison on a stack key: \<open>h_lookup\<close> passes the key first, \<open>hcmp\<close> reads its
  first argument as a \<open>ZNode\<close>.
\<close>

lemma hcmp_stack_key: "data key = None \<Longrightarrow> hcmp data keys key c = Inl WildPtr"
  by (simp add: hcmp_def load_def)

lemma h_lookup_stack_key:
  fixes name :: bytes
  assumes z: "zset_ok z T bss" and key: "key = zs_next z" and keys: "keys key = Some k"
  defines "h \<equiv> (zs_nodes z)(key \<mapsto> \<lparr>hn_next = None, hn_hcode = str_hash name\<rparr>)"
  shows "h_lookup h (hm_tb1 (zs_hmap z)) key (hcmp (zs_data z) keys)
     = (if clash z name then Inl WildPtr else Inr None)"
proof -
  note fresh = zset_ok_fresh [OF z, of key, unfolded key, simplified]
  from z have idle: "hm_idle (zs_nodes z) (zs_hmap z) bss" and set: "set (concat bss) = set_tree T"
    by (auto simp: zset_ok_def)
  have idle': "hm_idle h (zs_hmap z) bss"
    by (rule hm_idle_frame [OF idle]) (use fresh(1) set key in \<open>auto simp: h_def\<close>)
  have kn: "h key = Some \<lparr>hn_next = None, hn_hcode = str_hash name\<rparr>" by (simp add: h_def)
  have e: "hcmp (zs_data z) keys key c = Inl WildPtr" for c
    using hcmp_stack_key fresh(3) key by simp
  show ?thesis
  proof (cases "clash z name")
    case True
    then obtain a d where d: "zs_data z a = Some d" "str_hash (z_name d) = str_hash name"
      by (auto simp: clash_def)
    from zset_ok_node [OF z d(1)] d(2) obtain nd where
      nd: "a \<in> set (concat bss)" "zs_nodes z a = Some nd" "hn_hcode nd = str_hash name"
      using set by (auto simp del: set_concat)
    have "a \<noteq> key" using nd(2) fresh(2) key by auto
    then have nd': "h a = Some nd" using nd(2) by (simp add: h_def)
    have "bss \<noteq> []" using nd(1) by auto
    then have "htab_rep h (hm_tb1 (zs_hmap z)) bss" using idle' by (auto simp: hm_idle_def split: if_splits)
    from h_lookup_fails [OF this kn, of "hcmp (zs_data z) keys", OF e nd(1) nd'] nd(3) True
    show ?thesis by simp
  next
    case False
    have other: "hn_hcode nd \<noteq> str_hash name" if "c \<in> set (concat bss)" "h c = Some nd" for c nd
    proof
      assume eq: "hn_hcode nd = str_hash name"
      have "c \<noteq> key" using that(1) fresh(1) set key by auto
      then have "zs_nodes z c = Some nd" using that(2) by (simp add: h_def)
      moreover have "c \<in> dom (zs_data z)" using that(1) set z by (simp add: zset_ok_def del: set_concat)
      then obtain d where d: "zs_data z c = Some d" by blast
      ultimately have "str_hash (z_name d) = str_hash name"
        using zset_ok_node(2) [OF z d] eq by simp
      with d False show False by (auto simp: clash_def)
    qed
    have "h_lookup h (hm_tb1 (zs_hmap z)) key (hcmp (zs_data z) keys) = Inr None"
      using hm_idle_lookup1 [OF idle' kn, of "hcmp (zs_data z) keys" "\<lambda>_. False"] other by auto
    with False show ?thesis by simp
  qed
qed

lemma drop_stack_key:
  "zs_nodes z (zs_next z) = None \<Longrightarrow> zs_keys z (zs_next z) = None \<Longrightarrow>
     drop_hkey (zs_next z) (z\<lparr>zs_keys := (zs_keys z)(zs_next z \<mapsto> k), zs_next := m,
       zs_nodes := (zs_nodes z)(zs_next z \<mapsto> n)\<rparr>) = z\<lparr>zs_next := m\<rparr>"
  by (cases z) (simp add: drop_hkey_def fun_upd_idem)

lemma zset_find:
  assumes z: "zset_ok z T bss"
  shows "zset_lookup z name = (if T = Leaf then Inr (z, None) else if clash z name then Inl WildPtr
       else Inr (z\<lparr>zs_next := Suc (zs_next z)\<rparr>, None))"
    and "zset_pop fuel z name = (if clash z name then Inl WildPtr
       else Inr (z\<lparr>zs_next := Suc (zs_next z)\<rparr>, None))"
proof -
  have tb2: "hm_tb2 (zs_hmap z) = htab_zero" using z by (simp add: zset_ok_def hm_idle_def)
  have root: "zs_tree z = None \<longleftrightarrow> T = Leaf" using z by (cases T) (auto simp: zset_ok_def)
  have none: "zs_nodes z (zs_next z) = None" "zs_keys z (zs_next z) = None"
    using zset_ok_fresh [OF z, of "zs_next z"] z by (auto simp: zset_ok_def)
  note l = h_lookup_stack_key [OF z refl, of _ "\<lparr>k_name = name, k_len = length name\<rparr>" name]
  show "zset_lookup z name = (if T = Leaf then Inr (z, None) else if clash z name then Inl WildPtr
       else Inr (z\<lparr>zs_next := Suc (zs_next z)\<rparr>, None))"
    using l drop_stack_key [OF none] by (simp add: zset_lookup_def stack_hkey_def Let_def root hm_lookup_def hm_help_idle tb2)
  show "zset_pop fuel z name = (if clash z name then Inl WildPtr
       else Inr (z\<lparr>zs_next := Suc (zs_next z)\<rparr>, None))"
    using l drop_stack_key [OF none] by (simp add: zset_pop_def stack_hkey_def Let_def hm_pop_def tb2)
qed

section \<open>Linking into the tree\<close>

text \<open>The descent ends at a free slot of the tree, or runs off the end of a name.\<close>

definition free_slot :: "addr tree \<Rightarrow> ptr \<Rightarrow> tslot \<Rightarrow> bool" where
  "free_slot T cur sl \<longleftrightarrow> (case sl of RootSlot \<Rightarrow> cur = None
     | LeftSlot c \<Rightarrow> cur = Some c \<and> c \<in> set_tree T | RightSlot c \<Rightarrow> cur = Some c \<and> c \<in> set_tree T)"

lemma strcmp_less_ends: "strcmp_less xs ys = Inl f \<Longrightarrow> f = OutOfBounds"
  by (induction xs ys rule: strcmp_less.induct) (auto split: if_splits)

lemma zless_ends:
  "data a = Some x \<Longrightarrow> data b = Some y \<Longrightarrow> zless data a b = Inl f \<Longrightarrow> f = OutOfBounds"
  by (auto simp: zless_def load_def split: if_splits dest: strcmp_less_ends)

lemma tree_descend_ends:
  "tree_at (zs_avl z) p par t \<Longrightarrow> tslot_get z from = Inr p \<Longrightarrow> free_slot T cur from \<Longrightarrow>
     set_tree t \<subseteq> set_tree T \<Longrightarrow> set_tree t \<subseteq> dom (zs_data z) \<Longrightarrow> node \<in> dom (zs_data z) \<Longrightarrow> size t < fuel \<Longrightarrow>
     tree_descend fuel z node cur from = Inl OutOfBounds
     \<or> (\<exists>cur' from'. tree_descend fuel z node cur from = Inr (cur', from') \<and> free_slot T cur' from')"
proof (induction t arbitrary: p par cur "from" fuel)
  case Leaf
  then show ?case by (cases fuel) auto
next
  case (Node l c r)
  from Node.prems(7) obtain k where k: "fuel = Suc k" by (cases fuel) auto
  from Node.prems(1) obtain n where n: "p = Some c" "zs_avl z c = Some n" "tree_at (zs_avl z) (av_left n) (Some c) l"
    "tree_at (zs_avl z) (av_right n) (Some c) r" by auto
  show ?case
  proof (cases "zless (zs_data z) node c")
    case (Inl f)
    with zless_ends [of "zs_data z" node _ c] Node.prems(5,6) have "f = OutOfBounds" by auto
    with Inl show ?thesis using Node.prems(2) n(1) by (simp add: k)
  next
    case (Inr b)
    have "tree_descend k z node (Some c) (if b then LeftSlot c else RightSlot c) = Inl OutOfBounds
      \<or> (\<exists>cur' from'. tree_descend k z node (Some c) (if b then LeftSlot c else RightSlot c) = Inr (cur', from')
           \<and> free_slot T cur' from')"
    proof (cases b)
      case True
      then show ?thesis
        using Node.IH(1) [OF n(3), of "LeftSlot c" "Some c" k] Node.prems(4-7) n(2) k
        by (simp add: tslot_get_def load_def free_slot_def)
    next
      case False
      then show ?thesis
        using Node.IH(2) [OF n(4), of "RightSlot c" "Some c" k] Node.prems(4-7) n(2) k
        by (simp add: tslot_get_def load_def free_slot_def)
    qed
    then show ?thesis using Inr Node.prems(2) n(1) by (simp add: k)
  qed
qed

lemma tree_at_alloc: "tree_at h p par t \<Longrightarrow> c \<in> set_tree t \<Longrightarrow> h c \<noteq> None"
  by (induction t arbitrary: p par) auto

lemma avl_fix_leaf_crashes:
  assumes n: "h a = Some n" "av_left n = None" "av_right n = None"
    and par: "\<And>p. av_parent n = Some p \<Longrightarrow> h p \<noteq> None"
  shows "avl_fix (Suc fuel) h a = Inl NullDeref"
proof -
  obtain n1 where n1: "avl_update h a = Inr (h(a \<mapsto> n1))" "av_left n1 = None" "av_right n1 = None"
    "av_parent n1 = av_parent n"
    using n by (simp add: avl_update_def avl_height_def avl_cnt_def upd_def load_def)
  have "avl_fix_right (h(a \<mapsto> n1)) a = Inl NullDeref"
    using n1 by (simp add: avl_fix_right_def load_def deref_def)
  moreover have "(0 :: u32) < - 1" by code_simp
  ultimately have "avl_fix_round h a = Inl NullDeref"
    using n1 par by (auto simp: avl_fix_round_def avl_height_def load_def split: option.splits)
  then show ?thesis by simp
qed

lemma tslot_set_ends:
  assumes sl: "free_slot T cur sl" and alloc: "set_tree T \<subseteq> dom (zs_avl z)" and node: "node \<notin> set_tree T"
  shows "\<exists>z1. tslot_set z sl node = Inr z1 \<and> zs_avl z1 node = zs_avl z node \<and> dom (zs_avl z1) = dom (zs_avl z)"
proof (cases "sl = RootSlot")
  case False
  then obtain c where c: "sl = LeftSlot c \<or> sl = RightSlot c" "c \<in> set_tree T"
    using sl by (cases sl) (auto simp: free_slot_def)
  moreover from c(2) alloc obtain m where "zs_avl z c = Some m" by blast
  moreover have "c \<noteq> node" using c(2) node by blast
  ultimately show ?thesis by (auto simp: tslot_set_def upd_def load_def)
qed (simp add: tslot_set_def)

lemma tree_add_ends:
  assumes t: "tree_at (zs_avl z) (zs_tree z) None T" and data: "insert node (set_tree T) \<subseteq> dom (zs_data z)"
    and node: "node \<notin> set_tree T" and n: "zs_avl z node = Some n" "av_left n = None" "av_right n = None"
    and fuel: "size T < fuel"
  shows "\<exists>f. tree_add fuel z node = Inl f \<and> (f = NullDeref \<or> f = OutOfBounds)"
proof -
  have alloc: "set_tree T \<subseteq> dom (zs_avl z)"
    using tree_at_alloc [OF t] by auto
  from fuel obtain k where k: "fuel = Suc k" by (cases fuel) auto
  from tree_descend_ends [OF t, of RootSlot T None node fuel] data fuel consider
      "tree_descend fuel z node None RootSlot = Inl OutOfBounds"
    | cur sl where "tree_descend fuel z node None RootSlot = Inr (cur, sl)" "free_slot T cur sl"
    by (auto simp: tslot_get_def free_slot_def)
  then show ?thesis
  proof cases
    case 1
    then show ?thesis by (simp add: tree_add_def)
  next
    case (2 cur sl)
    have cur: "cur = None \<or> (\<exists>c \<in> set_tree T. cur = Some c)"
      using 2(2) by (auto simp: free_slot_def split: tslot.splits)
    from tslot_set_ends [OF 2(2) alloc node] n(1) obtain z1 where
      z1: "tslot_set z sl node = Inr z1" "zs_avl z1 node = Some n" "dom (zs_avl z1) = dom (zs_avl z)" by auto
    let ?h = "(zs_avl z1)(node \<mapsto> n\<lparr>av_parent := cur\<rparr>)"
    have "avl_fix fuel ?h node = Inl NullDeref"
      unfolding k
    proof (rule avl_fix_leaf_crashes)
      fix p assume "av_parent (n\<lparr>av_parent := cur\<rparr>) = Some p"
      then have "p \<in> dom (zs_avl z1)" using cur alloc z1(3) by auto
      then show "?h p \<noteq> None" by auto
    qed (use n in simp_all)
    then show ?thesis
      using 2(1) z1 by (simp add: tree_add_def upd_def load_def del: avl_fix.simps)
  qed
qed

section \<open>Adding and updating\<close>

lemma zset_ok_bump: "zset_ok z T bss \<Longrightarrow> zset_ok (z\<lparr>zs_next := Suc (zs_next z)\<rparr>) T bss"
  by (auto simp: zset_ok_def)

lemma new_element_ends:
  assumes z: "zset_ok z T bss" and room: "length (concat bss) + 1 < 2 ^ 60" and fuel: "size T < fuel"
  shows "\<exists>f. rbind (znode_new name score z) (\<lambda>(node, z1).
         rbind (hm_insert (zs_nodes z1) (zs_hmap z1) node) (\<lambda>(h, m).
         rbind (tree_add fuel (z1\<lparr>zs_nodes := h, zs_hmap := m\<rparr>) node) (\<lambda>z2. Inr (z2, True)))) = Inl f
     \<and> (f = NullDeref \<or> f = OutOfBounds)"
proof -
  let ?a = "zs_next z"
  note fresh = zset_ok_fresh [OF z, of ?a, simplified]
  from z have idle: "hm_idle (zs_nodes z) (zs_hmap z) bss" and set: "set (concat bss) = set_tree T"
    and t: "tree_at (zs_avl z) (zs_tree z) None T" and data: "dom (zs_data z) = set_tree T"
    by (simp_all add: zset_ok_def)
  from fresh(1) set have out: "?a \<notin> set (concat bss)" by simp
  obtain n z1 where new: "znode_new name score z = Inr (?a, z1)" "zs_tree z1 = zs_tree z"
    "zs_avl z1 = (zs_avl z)(?a \<mapsto> n)" "av_left n = None" "av_right n = None" "zs_hmap z1 = zs_hmap z"
    "zs_nodes z1 = (zs_nodes z)(?a \<mapsto> \<lparr>hn_next = None, hn_hcode = str_hash name\<rparr>)"
    "dom (zs_data z1) = insert ?a (dom (zs_data z))"
    by (simp add: znode_new_def avl_init_def upd_def load_def Let_def)
  have idle1: "hm_idle (zs_nodes z1) (zs_hmap z1) bss"
    unfolding new(6) by (rule hm_idle_frame [OF idle]) (use out new(7) in auto)
  have nd: "zs_nodes z1 ?a = Some \<lparr>hn_next = None, hn_hcode = str_hash name\<rparr>" using new(7) by simp
  consider "hm_insert (zs_nodes z1) (zs_hmap z1) ?a = Inl NullDeref"
    | h m where "hm_insert (zs_nodes z1) (zs_hmap z1) ?a = Inr (h, m)"
    using hm_insert_correct [OF idle1 nd out room] by (auto split: if_splits)
  then show ?thesis
  proof cases
    case 1
    then show ?thesis using new(1) by simp
  next
    case (2 h m)
    let ?z = "z1\<lparr>zs_nodes := h, zs_hmap := m\<rparr>"
    have "tree_at (zs_avl ?z) (zs_tree ?z) None T" using t fresh(1) new(2,3) by simp
    from tree_add_ends [OF this, of ?a n fuel] fresh(1) data new(3-5,8) fuel 2 new(1) show ?thesis by auto
  qed
qed

lemma zset_add_ends:
  assumes z: "zset_ok z T bss" and room: "length (concat bss) + 1 < 2 ^ 60" and fuel: "size T < fuel"
  shows "\<exists>f. zset_add fuel z name score = Inl f
     \<and> (if T \<noteq> Leaf \<and> clash z name then f = WildPtr else f = NullDeref \<or> f = OutOfBounds)"
  using new_element_ends [OF z room fuel, of name score]
    new_element_ends [OF zset_ok_bump [OF z] room fuel, of name score]
  by (auto simp: zset_add_def zset_find(1) [OF z])

text \<open>Every element of a tree in the heap is at the focus of a context.\<close>

lemma tree_at_focus:
  "tree_at h p par t \<Longrightarrow> ctx_at h p par c \<Longrightarrow> a \<in> set_tree t \<Longrightarrow>
     \<exists>l r par' c'. root_at h a par' l r \<and> ctx_at h (Some a) par' c' \<and> fill (Node l a r) c' = fill t c"
proof (induction t arbitrary: p par c)
  case (Node l b r)
  from Node.prems(1) obtain n where n: "p = Some b" "h b = Some n" "av_parent n = par"
    "tree_at h (av_left n) (Some b) l" "tree_at h (av_right n) (Some b) r" by auto
  consider "a = b" | "a \<in> set_tree l" | "a \<in> set_tree r" using Node.prems(3) by auto
  then show ?case
  proof cases
    case 1
    then show ?thesis using tree_at_root Node.prems(1,2) n(1) by metis
  next
    case 2
    have "ctx_at h (av_left n) (Some b) ((True, b, r) # c)" using n Node.prems(2) by simp
    from Node.IH(1) [OF n(4) this 2] show ?thesis by simp
  next
    case 3
    have "ctx_at h (av_right n) (Some b) ((False, b, l) # c)" using n Node.prems(2) by simp
    from Node.IH(2) [OF n(5) this 3] show ?thesis by simp
  qed
qed simp

lemma avl_del_ends:
  assumes t: "tree_at h p None T" and d: "distinct (inorder T)" and a: "a \<in> set_tree T"
    and fuel: "3 * size T < fuel"
  shows "avl_del fuel h a = Inl NullDeref
     \<or> (\<exists>h' q T'. avl_del fuel h a = Inr (h', q) \<and> tree_at h' q None T' \<and> h' a \<noteq> None
          \<and> inorder T' = filter (\<lambda>x. x \<noteq> a) (inorder T))"
proof -
  have "ctx_at h p None []" by simp
  from tree_at_focus [OF t this a] obtain l r par c where
    f: "root_at h a par l r" "ctx_at h (Some a) par c" "fill (Node l a r) c = T" by auto
  have m: "mset (inorder T) = mset (inorder (Node l a r) @ ctx_nodes c)"
    using fill_nodes [of "Node l a r" c] f(3) by simp
  have d': "distinct (inorder (Node l a r) @ ctx_nodes c)"
    using mset_eq_imp_distinct_iff [OF m] d by blast
  have "size T = size l + size r + 1 + length (ctx_nodes c)"
    using arg_cong [OF m, of size] by simp
  then have "length (ctx_nodes c) + size l + 2 * size r < fuel" using fuel by simp
  from avl_del_remove [OF f(1,2) d' this] remove_inorder [OF _ d'] f(3) show ?thesis
    by (auto split: option.splits)
qed

lemma zset_update_ends:
  assumes z: "zset_ok z T bss" and a: "zs_data z a = Some d" and fuel: "3 * size T < fuel"
    and other: "\<not> flt_eq (z_score d) score"
  shows "\<exists>f. zset_update fuel (Some z) a score = Inl f \<and> (f = NullDeref \<or> f = OutOfBounds)"
proof -
  from z have t: "tree_at (zs_avl z) (zs_tree z) None T" "distinct (inorder T)"
    and data: "dom (zs_data z) = set_tree T" by (simp_all add: zset_ok_def)
  have aT: "a \<in> set_tree T" by (rule zset_ok_node(1) [OF z a])
  from avl_del_ends [OF t aT fuel] consider "avl_del fuel (zs_avl z) a = Inl NullDeref"
    | h q T' where "avl_del fuel (zs_avl z) a = Inr (h, q)" "tree_at h q None T'" "h a \<noteq> None"
        "inorder T' = filter (\<lambda>x. x \<noteq> a) (inorder T)" by blast
  then show ?thesis
  proof cases
    case 1
    then show ?thesis using a other by (simp add: zset_update_def load_def)
  next
    case (2 h q T')
    have set: "set_tree T' = set_tree T - {a}"
      using arg_cong [OF 2(4), of set] by auto
    have "length (inorder T') \<le> length (inorder T)" by (simp only: 2(4) length_filter_le)
    then have small: "size T' < fuel" using fuel by simp
    obtain n where n: "avl_init h a = Inr (h(a \<mapsto> n))" "av_left n = None" "av_right n = None"
      using 2(3) by (auto simp: avl_init_def upd_def load_def)
    let ?z = "z\<lparr>zs_tree := q, zs_data := (zs_data z)(a \<mapsto> d\<lparr>z_score := score\<rparr>), zs_avl := h(a \<mapsto> n)\<rparr>"
    have "tree_at (zs_avl ?z) (zs_tree ?z) None T'" using 2(2) set by simp
    from tree_add_ends [OF this, of a n fuel] data set small n(2,3)
    obtain f where "tree_add fuel ?z a = Inl f" "f = NullDeref \<or> f = OutOfBounds" by auto
    then show ?thesis using a other 2(1) n(1) by (simp add: zset_update_def load_def Let_def)
  qed
qed

end
