(* ===== verification/TreeProps.thy ===== *)
theory TreeProps
  imports ZSetSpec
begin

text \<open>
  The properties of the tree and of the sorted sets on top of it: the rotations and the
  climb of \<open>avl_fix\<close> are those of algebraic trees and keep the order; what the unsigned
  comparisons do to balance; and why nothing can be found in, added to or moved in a sorted
  set.
\<close>

section \<open>The tree\<close>

text \<open>
  C34.  The rotations, exactly: on a subtree under any parent, \<open>rot_left\<close> and
  \<open>rot_right\<close> give the rotated subtree, with heights, counts and parent pointers of every
  node right, the same in-order sequence, and no other node touched; without the child to
  rotate up they dereference NULL.
\<close>

theorem rotations_exact:
  assumes "root_at h a par l r" and "distinct (inorder (Node l a r))"
  shows "(case r of
        Leaf \<Rightarrow> rot_left h a = Inl NullDeref
      | Node m b rr \<Rightarrow> \<exists>h'. rot_left h a = Inr (h', b) \<and> tree_at h' (Some b) par (Node (Node l a m) b rr)
          \<and> inorder (Node (Node l a m) b rr) = inorder (Node l a r)
          \<and> (\<forall>x. x \<notin> set_tree (Node l a r) \<longrightarrow> h' x = h x))
     \<and> (case l of
        Leaf \<Rightarrow> rot_right h a = Inl NullDeref
      | Node ll b m \<Rightarrow> \<exists>h'. rot_right h a = Inr (h', b) \<and> tree_at h' (Some b) par (Node ll b (Node m a r))
          \<and> inorder (Node ll b (Node m a r)) = inorder (Node l a r)
          \<and> (\<forall>x. x \<notin> set_tree (Node l a r) \<longrightarrow> h' x = h x))"
  using rot_left_refines [OF assms] rot_right_refines [OF assms]
  by (auto simp: refines_tree_def split: tree.splits)

text \<open>Three nodes, balanced.\<close>

definition three :: "addr tree" where
  "three = Node (Node Leaf 1 Leaf) 2 (Node Leaf 3 Leaf)"

definition three_heap :: avlheap where
  "three_heap =
     [1 \<mapsto> \<lparr>av_height = 0, av_cnt = 1, av_left = None, av_right = None, av_parent = Some 2\<rparr>,
      2 \<mapsto> \<lparr>av_height = 1, av_cnt = 3, av_left = Some 1, av_right = Some 3, av_parent = None\<rparr>,
      3 \<mapsto> \<lparr>av_height = 0, av_cnt = 1, av_left = None, av_right = None, av_parent = Some 2\<rparr>]"

lemma three_at: "tree_at three_heap (Some 2) None three"
  by (simp add: three_def three_heap_def max_u32_def)

lemma three_root: "root_at three_heap 2 None (Node Leaf 1 Leaf) (Node Leaf 3 Leaf)"
  using tree_at_root [OF three_at [unfolded three_def]] .

theorem rotations_exact_witness:
  "\<exists>h'. rot_left three_heap 2 = Inr (h', 3)
     \<and> tree_at h' (Some 3) None (Node (Node (Node Leaf 1 Leaf) 2 Leaf) 3 Leaf)"
  using rotations_exact [OF three_root] by auto

text \<open>
  C35.  \<open>avl_fix\<close>, exactly: from any node of a well-formed tree, whose own height and
  count may be stale, it climbs to the root and returns the tree that the algebraic
  \<open>climb\<close> gives, with all parent pointers, heights and counts in place and the in-order
  sequence of the tree it started from; it dereferences NULL exactly when \<open>climb\<close> is
  undefined.  Fuel above the depth of the node is enough.
\<close>

theorem avl_fix_exact:
  assumes "root_at h a par l r" and "ctx_at h (Some a) par c"
    and "distinct (inorder (Node l a r) @ ctx_nodes c)" and "length c < fuel"
  shows "case climb (Node l a r) c of
      None \<Rightarrow> avl_fix fuel h a = Inl NullDeref
    | Some T \<Rightarrow> inorder T = inorder (fill (Node l a r) c)
        \<and> (\<exists>h' b. avl_fix fuel h a = Inr (h', b) \<and> tree_at h' (Some b) None T)"
  using avl_fix_refines [OF assms] climb_inorder [of "Node l a r" c]
  by (auto simp: refines_tree_def split: option.splits)

lemma climb_three: "climb three [] = Some (Node (Node (Node Leaf 1 Leaf) 2 Leaf) 3 Leaf)"
  by (simp add: three_def rebalance_rotates hgt_missing del: rebalance.simps hgt.simps)

theorem avl_fix_exact_witness:
  "\<exists>h'. avl_fix 1 three_heap 2 = Inr (h', 3)"
proof -
  have "ctx_at three_heap (Some 2) None []" by simp
  from avl_fix_exact [OF three_root this, of 1] climb_three show ?thesis
    by (auto simp: three_def simp del: climb.simps avl_fix.simps)
qed

text \<open>
  C37.  The repair unbalances: \<open>lh - rh\<close> is unsigned and every value is either above 1 or
  below \<open>-1\<close>, so a round always rotates.  Fixing a perfectly balanced tree of three nodes
  at its root returns a chain of depth three.
\<close>

theorem avl_fix_unbalances:
  assumes "tree_at h (Some b) None (Node (Node Leaf a Leaf) b (Node Leaf c Leaf))"
    and "distinct [a, b, c]"
  shows "\<exists>h'. avl_fix (Suc fuel) h b = Inr (h', c)
     \<and> tree_at h' (Some c) None (Node (Node (Node Leaf a Leaf) b Leaf) c Leaf)"
proof -
  have "climb (Node (Node Leaf a Leaf) b (Node Leaf c Leaf)) [] = Some (Node (Node (Node Leaf a Leaf) b Leaf) c Leaf)"
    by (simp add: rebalance_rotates hgt_missing del: rebalance.simps hgt.simps)
  with avl_fix_refines [OF tree_at_root [OF assms(1)], of "[]" "Suc fuel"] assms(2) show ?thesis
    by (auto simp: refines_tree_def)
qed

theorem avl_fix_unbalances_witness:
  "\<exists>h'. avl_fix 1 three_heap 2 = Inr (h', 3)
     \<and> tree_at h' (Some 3) None (Node (Node (Node Leaf 1 Leaf) 2 Leaf) 3 Leaf)"
  using avl_fix_unbalances [OF three_at [unfolded three_def], of 0] by auto

text \<open>Five nodes, the left subtree full: removing the root or the right leaf survives the repair.\<close>

definition five :: "addr tree" where
  "five = Node (Node (Node Leaf 1 Leaf) 2 (Node Leaf 3 Leaf)) 4 (Node Leaf 5 Leaf)"

definition five_heap :: avlheap where
  "five_heap =
     [1 \<mapsto> \<lparr>av_height = 0, av_cnt = 1, av_left = None, av_right = None, av_parent = Some 2\<rparr>,
      2 \<mapsto> \<lparr>av_height = 1, av_cnt = 3, av_left = Some 1, av_right = Some 3, av_parent = Some 4\<rparr>,
      3 \<mapsto> \<lparr>av_height = 0, av_cnt = 1, av_left = None, av_right = None, av_parent = Some 2\<rparr>,
      4 \<mapsto> \<lparr>av_height = 2, av_cnt = 5, av_left = Some 2, av_right = Some 5, av_parent = None\<rparr>,
      5 \<mapsto> \<lparr>av_height = 0, av_cnt = 1, av_left = None, av_right = None, av_parent = Some 4\<rparr>]"

lemma five_at: "tree_at five_heap (Some 4) None five"
  by (simp add: five_def five_heap_def max_u32_def)

text \<open>
  C36.  \<open>avl_del\<close>, exactly, for any node of any well-formed tree: the tree afterwards is the
  one the algebraic \<open>remove\<close> gives, with all pointers and fields in place, its in-order
  sequence is the old one without the node, and the root is what is returned;
  NULL is dereferenced exactly when \<open>remove\<close> is undefined.  A node with a right child is
  replaced by its successor, which may again have to be replaced, and so on.
\<close>

theorem avl_del_exact:
  assumes "root_at h a par l r" and "ctx_at h (Some a) par c"
    and "distinct (inorder (Node l a r) @ ctx_nodes c)"
    and "length (ctx_nodes c) + size l + 2 * size r < fuel"
  shows "case remove l a r c of
      None \<Rightarrow> avl_del fuel h a = Inl NullDeref
    | Some T \<Rightarrow> inorder T = filter (\<lambda>x. x \<noteq> a) (inorder (fill (Node l a r) c))
        \<and> (\<exists>h' p. avl_del fuel h a = Inr (h', p) \<and> tree_at h' p None T)"
  using avl_del_remove [OF assms] remove_inorder [of l a r c, OF _ assms(3)]
  by (auto split: option.splits)

theorem avl_del_exact_witness:
  "\<exists>h' p. avl_del 20 five_heap 4 = Inr (h', p)
     \<and> tree_at h' p None (Node (Node Leaf 1 Leaf) 2 (Node (Node Leaf 3 Leaf) 5 Leaf))"
proof -
  let ?l = "Node (Node Leaf 1 Leaf) 2 (Node Leaf 3 Leaf) :: addr tree" and ?r = "Node Leaf 5 Leaf :: addr tree"
  have r: "remove ?l 4 ?r [] = Some (Node (Node Leaf 1 Leaf) 2 (Node (Node Leaf 3 Leaf) 5 Leaf))"
    by (simp add: max_u32_def)
  have "root_at five_heap 4 None ?l ?r"
    using tree_at_root [OF five_at [unfolded five_def]] .
  from avl_del_exact [OF this, of "[]" 20] r show ?thesis
    by (auto simp del: avl_del.simps)
qed

section \<open>Sorted sets\<close>

lemma first_not_over_full: "\<not> over_full (push_bucket [] 0 (str_hash name))"
proof -
  have "length (concat (push_bucket [] 0 (str_hash name))) = 1"
    using arg_cong [OF push_bucket_facts(1), of size "[]" 0 "str_hash name"] by (simp only: size_mset) simp
  then show ?thesis by (simp add: over_full_def push_bucket_facts(2) table_of_def)
qed

lemma zset_lookup_keeps:
  assumes "zset_lookup z name = Inr (z0, r)"
  shows "zs_tree z0 = zs_tree z \<and> zs_avl z0 = zs_avl z \<and> zs_data z0 = zs_data z \<and> zs_next z \<le> zs_next z0"
  using assms by (auto simp: zset_lookup_def stack_hkey_def drop_hkey_def Let_def rbind_eq_Inr split: if_splits)

lemma zset_add_fails:
  assumes t: "tree_at (zs_avl z) (zs_tree z) None T" and below: "\<forall>a \<in> set_tree T. a < zs_next z"
    and data: "zs_data z (zs_next z) = None"
  shows "zset_add fuel z name score \<noteq> Inr r"
proof
  assume "zset_add fuel z name score = Inr r"
  then obtain z0 found where lk: "zset_lookup z name = Inr (z0, found)"
    and rest: "(case found of
       Some a \<Rightarrow> rbind (zset_update fuel (Some z0) a score) (\<lambda>z1. Inr (the z1, False))
     | None \<Rightarrow>
         rbind (znode_new name score z0) (\<lambda>(node, z1).
         rbind (hm_insert (zs_nodes z1) (zs_hmap z1) node) (\<lambda>(h, m).
         rbind (tree_add fuel (z1\<lparr>zs_nodes := h, zs_hmap := m\<rparr>) node) (\<lambda>z2.
           Inr (z2, True))))) = Inr r"
    by (auto simp: zset_add_def rbind_eq_Inr)
  have none: "found = None" by (rule zset_lookup_misses [OF data lk])
  from rest none obtain node z1 h m z2 where new: "znode_new name score z0 = Inr (node, z1)"
    and add: "tree_add fuel (z1\<lparr>zs_nodes := h, zs_hmap := m\<rparr>) node = Inr z2"
    by (auto simp: rbind_eq_Inr)
  note keep = zset_lookup_keeps [OF lk]
  from new obtain n where n: "node = zs_next z0" "zs_tree z1 = zs_tree z0" "zs_avl z1 = (zs_avl z0)(node \<mapsto> n)"
    "av_left n = None" "av_right n = None"
    by (auto simp: znode_new_def avl_init_def upd_def Let_def)
  have out: "node \<notin> set_tree T" using below keep n(1) by auto
  then have "tree_at (zs_avl z1) (zs_tree z1) None T"
    using t keep n by simp
  then show False
    using tree_add_fails [of "z1\<lparr>zs_nodes := h, zs_hmap := m\<rparr>" T node n fuel z2] out n(3-5) add by simp
qed

text \<open>Without any fuel bound: no element is found, and \<open>zset_add\<close> does not return.\<close>

lemma zset_add_never_returns:
  assumes "tree_at (zs_avl z) (zs_tree z) None T" and "\<forall>a \<in> set_tree T. a < zs_next z"
    and "zs_data z (zs_next z) = None"
  shows "zset_add fuel z name score \<noteq> Inr r \<and> (zset_lookup z name = Inr (z', found) \<longrightarrow> found = None)"
  using zset_add_fails [OF assms] zset_lookup_misses [OF assms(3)] by blast

text \<open>
  C38.  What the lookups of a sorted set find, exactly: never an element.  \<open>h_lookup\<close>
  calls \<open>eq(key, cur)\<close> while \<open>hcmp\<close> takes the element first and the key second.
  So on every well-formed set \<open>zset_lookup\<close> and \<open>zset_pop\<close> read the key on the stack
  as an element when an element of the set has the name's hash, as the element asked for
  does; else they return NULL and change nothing.  On an empty set
  \<open>zset_lookup\<close> does not get that far.
\<close>

theorem zset_find_exact:
  assumes "zset_ok z T bss"
  shows "zset_lookup z name = (if T = Leaf then Inr (z, None) else if clash z name then Inl WildPtr
       else Inr (z\<lparr>zs_next := Suc (zs_next z)\<rparr>, None))
     \<and> zset_pop fuel z name = (if clash z name then Inl WildPtr
       else Inr (z\<lparr>zs_next := Suc (zs_next z)\<rparr>, None))
     \<and> (zs_data z a = Some d \<and> z_name d = name \<longrightarrow> clash z name)"
  using zset_find [OF assms] by (auto simp: clash_def)

text \<open>A set of one element, with the hash map as \<open>hm_insert\<close> builds it.\<close>

definition elem :: "bytes \<Rightarrow> zdata" where
  "elem name = \<lparr>z_score = Fin 1, z_len = length name, z_name = name\<rparr>"

lemma single:
  "\<exists>z bss. zset_ok z (Node Leaf 0 Leaf) bss \<and> zs_data z = [0 \<mapsto> elem name] \<and> length (concat bss) = 1"
proof -
  let ?nd = "\<lparr>hn_next = None, hn_hcode = str_hash name\<rparr>"
  let ?n = "\<lparr>av_height = 0, av_cnt = 1, av_left = None, av_right = None, av_parent = None\<rparr>"
  have "\<not> over_full (push_bucket [] 0 (str_hash name))" by (rule first_not_over_full)
  with hm_insert_correct [of "[0 \<mapsto> ?nd]" hmap_zero "[]" 0 ?nd, OF hm_idle_zero] obtain h m bss where
    ins: "hm_idle h m bss" "mset (concat bss) = {#0#}" "same_codes [0 \<mapsto> ?nd] h" by auto
  from ins(2) have c: "concat bss = [0]" by simp
  have codes: "map_option hn_hcode (h a) = map_option hn_hcode ([0 \<mapsto> ?nd] a)" for a
    using ins(3) by (simp add: same_codes_def)
  let ?z = "\<lparr>zs_tree = Some 0, zs_hmap = m, zs_avl = [0 \<mapsto> ?n], zs_nodes = h, zs_data = [0 \<mapsto> elem name],
     zs_keys = Map.empty, zs_next = 1\<rparr>"
  have "dom h = {0}" using same_codes_dom [OF ins(3)] by simp
  then have "zset_ok ?z (Node Leaf 0 Leaf) bss"
    using ins(1) codes [of 0] c by (simp add: zset_ok_def elem_def max_u32_def del: set_concat)
  moreover have "length (concat bss) = 1" using c by simp
  ultimately show ?thesis by (intro exI [of _ ?z] exI [of _ bss]) simp
qed

theorem zset_find_exact_witness:
  "\<exists>z. zs_data z = [0 \<mapsto> elem [97]] \<and> zset_lookup z [97] = Inl WildPtr
     \<and> zset_pop 5 z [98] = Inr (z\<lparr>zs_next := Suc (zs_next z)\<rparr>, None)"
proof -
  obtain z bss where z: "zset_ok z (Node Leaf 0 Leaf) bss" "zs_data z = [0 \<mapsto> elem [97]]"
    using single by blast
  then have "clash z [97]" "\<not> clash z [98]"
    by (simp_all add: clash_def elem_def str_hash_def)
  with zset_find_exact [OF z(1), of "[97]" 5] zset_find_exact [OF z(1), of "[98]" 5] z(2)
  show ?thesis by auto
qed

text \<open>
  C39.  Every write to a sorted set crashes: on a well-formed set \<open>zset_add\<close> ends, whatever
  the name and the score, in the stray read of its lookup when an element has the name's
  hash, and otherwise in a NULL dereference or in \<open>strcmp\<close> running off a name;
  \<open>zset_update\<close> returns when the score is the one the element has, changing nothing, and
  ends like \<open>zset_add\<close> when it is another.  \<open>tree_add\<close> calls \<open>avl_fix\<close> on the new leaf,
  which rotates towards a child that a leaf does not have.  Fuel of three times the size
  of the set is enough, so no loop is to blame.
\<close>

theorem zset_writes_crash:
  assumes "zset_ok z T bss" and "length (concat bss) + 1 < 2 ^ 60" and "3 * size T < fuel"
  shows "(\<exists>f. zset_add fuel z name score = Inl f
       \<and> (if T \<noteq> Leaf \<and> clash z name then f = WildPtr else f = NullDeref \<or> f = OutOfBounds))
     \<and> (zs_data z a = Some d \<longrightarrow>
         (if flt_eq (z_score d) score then zset_update fuel (Some z) a score = Inr (Some z)
          else \<exists>f. zset_update fuel (Some z) a score = Inl f \<and> (f = NullDeref \<or> f = OutOfBounds)))"
proof (intro conjI impI)
  show "\<exists>f. zset_add fuel z name score = Inl f
       \<and> (if T \<noteq> Leaf \<and> clash z name then f = WildPtr else f = NullDeref \<or> f = OutOfBounds)"
    by (rule zset_add_ends [OF assms(1,2)]) (use assms(3) in simp)
next
  assume "zs_data z a = Some d"
  then show "if flt_eq (z_score d) score then zset_update fuel (Some z) a score = Inr (Some z)
      else \<exists>f. zset_update fuel (Some z) a score = Inl f \<and> (f = NullDeref \<or> f = OutOfBounds)"
    using zset_update_ends [OF assms(1) _ assms(3)] by (simp add: zset_update_def load_def)
qed

theorem zset_writes_crash_witness:
  "\<exists>z. zs_data z = [0 \<mapsto> elem [97]] \<and> zset_add 9 z [97] (Fin 2) = Inl WildPtr
     \<and> zset_update 9 (Some z) 0 (Fin 1) = Inr (Some z) \<and> (\<exists>f. zset_update 9 (Some z) 0 (Fin 2) = Inl f)"
proof -
  obtain z bss where z: "zset_ok z (Node Leaf 0 Leaf) bss" "zs_data z = [0 \<mapsto> elem [97]]" "length (concat bss) = 1"
    using single by blast
  have c: "clash z [97]" using z(2) by (simp add: clash_def elem_def)
  have "length (concat bss) + 1 < 2 ^ 60" "3 * size (Node Leaf (0 :: addr) Leaf) < 9" using z(3) by simp_all
  note w = zset_writes_crash [OF z(1) this, of "[97]" _ 0 "elem [97]"]
  have "zset_update 9 (Some z) 0 (Fin 1) = Inr (Some z)"
    using w [of "Fin 1"] z(2) by (simp add: elem_def flt_eq_def)
  moreover have "zset_add 9 z [97] (Fin 2) = Inl WildPtr \<and> (\<exists>f. zset_update 9 (Some z) 0 (Fin 2) = Inl f)"
    using w [of "Fin 2"] z(2) c by (auto simp: elem_def flt_eq_def)
  ultimately show ?thesis using z(2) by blast
qed

text \<open>
  On an empty set the fault is a NULL dereference, at the very first element.
\<close>

lemma first_zadd_crashes:
  "zset_add (Suc fuel) zset_empty name score = Inl NullDeref"
proof -
  let ?nd = "\<lparr>hn_next = None, hn_hcode = str_hash name\<rparr>"
  note first_not_over_full [of name]
  with hm_insert_correct [of "[0 \<mapsto> ?nd]" hmap_zero "[]" 0 ?nd, OF hm_idle_zero]
  obtain h m where ins: "hm_insert [0 \<mapsto> ?nd] hmap_zero 0 = Inr (h, m)" by auto
  let ?n = "\<lparr>av_height = 0, av_cnt = 1, av_left = None, av_right = None, av_parent = None\<rparr>"
  have stuck: "avl_fix (Suc fuel) [0 \<mapsto> ?n] 0 = Inl NullDeref"
  proof -
    have "root_at [0 \<mapsto> ?n] 0 None Leaf Leaf" by (simp add: root_at_def)
    from avl_fix_refines [OF this, of "[]" "Suc fuel"] climb_leaf [of 0 "[]"] show ?thesis
      by (simp add: refines_tree_def)
  qed
  have look: "zset_lookup zset_empty name = Inr (zset_empty, None)"
    by (simp add: zset_lookup_def zset_empty_def)
  show ?thesis
    using ins stuck unfolding zset_add_def look
    by (simp add: znode_new_def avl_init_def upd_def Let_def zset_empty_def tree_add_def tslot_get_def
        tslot_set_def del: avl_fix.simps)
qed

end
