(* ===== verification/Client.thy ===== *)
theory Client
  imports Codec
begin

text \<open>
  The command-line client, \<open>src/client.cpp\<close>: \<open>send_req\<close>, \<open>read_res\<close>,
  \<open>on_response\<close> and \<open>main\<close>.
\<close>

section \<open>Sending the request\<close>

definition req_len :: "bytes list \<Rightarrow> u32" where
  "req_len cmd = fold (\<lambda>s len. len + of_nat (4 + length s)) cmd 4"

text \<open>The second loop of \<open>send_req\<close>: each argument behind its length.\<close>

fun put_args :: "bytes \<Rightarrow> nat \<Rightarrow> bytes list \<Rightarrow> bytes res" where
  "put_args wbuf cur [] = Inr wbuf"
| "put_args wbuf cur (s # cmd) =
     rbind (blit wbuf cur (le32 (of_nat (length s)))) (\<lambda>wbuf1.
     rbind (blit wbuf1 (cur + 4) s) (\<lambda>wbuf2.
       put_args wbuf2 (cur + (4 + length s)) cmd))"

text \<open>\<open>wbuf0\<close> is what the stack buffer \<open>wbuf\<close> happens to hold.\<close>

definition send_req :: "bytes \<Rightarrow> int \<Rightarrow> bytes list \<Rightarrow> io \<Rightarrow> (int \<times> io) res" where
  "send_req wbuf0 fd cmd w =
     (let len = req_len cmd in
      if k_max_msg < unat len then Inr (-1, w)
      else
        rbind (blit wbuf0 0 (le32 len)) (\<lambda>b1.
        rbind (blit b1 4 (le32 (of_nat (length cmd)))) (\<lambda>b2.
        rbind (put_args b2 8 cmd) (\<lambda>b3.
        rbind (slice b3 0 (unat (4 + len))) (\<lambda>bs.
          write_all w fd bs)))))"

section \<open>Reading the response\<close>

text \<open>What the client prints; \<open>%.*s\<close> stops at a NUL byte.\<close>

datatype shown = ShownNil | ShownErr u32 bytes | ShownInt u32 | ShownStr u32 bytes | ShownArr u32

definition byte_at :: "bytes \<Rightarrow> nat \<Rightarrow> byte res" where
  "byte_at data i = (if i < length data then Inr (data ! i) else Inl OutOfBounds)"

text \<open>
  \<open>on_response\<close> and the loop over the entries of an array, where \<open>5 + k\<close> is
  \<open>parsed_bytes\<close>.  Every entry takes at least one byte, so the loop ends after at most
  \<open>size\<close> rounds and none of the 32-bit counters overflows.
\<close>

function (sequential) on_response :: "bytes \<Rightarrow> nat \<Rightarrow> (int \<times> shown list) res"
  and arr_entries :: "bytes \<Rightarrow> nat \<Rightarrow> nat \<Rightarrow> nat \<Rightarrow> (int \<times> shown list) res" where
  "on_response data sz =
     (if sz < 1 then Inr (-1, [])
      else rbind (byte_at data 0) (\<lambda>tag.
        if tag = SER_NIL then Inr (1, [ShownNil])
        else if tag = SER_ERR then
          (if sz - 1 < 8 then Inr (-1, [])
           else rbind (rd32 data 1) (\<lambda>err_code. rbind (rd32 data (1 + 4)) (\<lambda>msg_len.
             if sz - 9 < unat msg_len then Inr (-1, [])
             else rbind (slice data (1 + 4 + 4) (unat msg_len)) (\<lambda>m.
               Inr (int (9 + unat msg_len), [ShownErr err_code (c_str m)])))))
        else if tag = SER_INT then
          (if sz - 1 < 4 then Inr (-1, [])
           else rbind (rd32 data 1) (\<lambda>val. Inr (5, [ShownInt val])))
        else if tag = SER_STR then
          (if sz - 1 < 4 then Inr (-1, [])
           else rbind (rd32 data 1) (\<lambda>msg_len.
             if sz - 5 < unat msg_len then Inr (-1, [])
             else rbind (slice data 5 (unat msg_len)) (\<lambda>m.
               Inr (int (5 + unat msg_len), [ShownStr msg_len (c_str m)]))))
        else if tag = SER_ARR then
          (if sz - 1 < 4 then Inr (-1, [])
           else rbind (rd32 data 1) (\<lambda>arr_len.
             rbind (arr_entries data sz (unat arr_len) 0) (\<lambda>(rv, ps). Inr (rv, ShownArr arr_len # ps))))
        else Inr (-1, [])))"
| "arr_entries data sz 0 k = Inr (int (5 + k), [])"
| "arr_entries data sz (Suc n) k =
     (if sz < 5 + k then Inr (-1, [])
      else rbind (on_response (drop (5 + k) data) (sz - (5 + k))) (\<lambda>(pass_bytes, ps).
        if pass_bytes < 0 then Inr (-1, ps)
        else rbind (arr_entries data sz n (k + nat pass_bytes)) (\<lambda>(rv, qs). Inr (rv, ps @ qs))))"
  by pat_completeness auto
termination
  by (relation "measures [\<lambda>x. case x of Inl (d, sz) \<Rightarrow> sz | Inr (d, sz, n, k) \<Rightarrow> sz,
        \<lambda>x. case x of Inl _ \<Rightarrow> 1 | Inr _ \<Rightarrow> 0, \<lambda>x. case x of Inl _ \<Rightarrow> 0 | Inr (d, sz, n, k) \<Rightarrow> n]") auto

declare on_response.simps [simp del]

text \<open>\<open>rbuf0\<close> is what the stack buffer holds, one byte longer than the server's.\<close>

definition read_res :: "bytes \<Rightarrow> io \<Rightarrow> (int \<times> shown list \<times> io) res" where
  "read_res rbuf0 w =
     rbind (read_full w 4 []) (\<lambda>(err, hd, w1).
     if err \<noteq> 0 then Inr (err, [], w1)
     else rbind (blit rbuf0 0 hd) (\<lambda>rbuf1.
     rbind (rd32 rbuf1 0) (\<lambda>len.
     if k_max_msg < unat len then Inr (-1, [], w1)
     else rbind (read_full w1 (unat len) []) (\<lambda>(err, body, w2).
     if err \<noteq> 0 then Inr (err, [], w2)
     else rbind (blit rbuf1 4 body) (\<lambda>rbuf2.
     rbind (on_response (drop 4 rbuf2) (unat len)) (\<lambda>(rv, ps).
       Inr (if 0 < rv \<and> rv \<noteq> int (unat len) then -1 else rv, ps, w2)))))))"

text \<open>\<open>main\<close>: the results of \<open>socket\<close> and \<open>connect\<close>, and the arguments.\<close>

definition client_main :: "bytes \<Rightarrow> bytes \<Rightarrow> int \<Rightarrow> int \<Rightarrow> bytes list \<Rightarrow> io \<Rightarrow> (int \<times> shown list \<times> io) res" where
  "client_main wbuf0 rbuf0 fd connect_rv cmd w =
     (if fd < 0 then die ''fail to create socket''
      else if connect_rv < 0 then die ''fail to connect()''
      else
        rbind (send_req wbuf0 fd cmd w) (\<lambda>(err, w1).
        rbind (if err \<noteq> 0 then Inr (err, [], w1) else read_res rbuf0 w1) (\<lambda>(err, ps, w2).
          Inr (0, ps, log_call (Close fd) w2))))"

section \<open>The parser is safe\<close>

lemma on_response_safe:
  shows "sz \<le> length data \<Longrightarrow> \<exists>rv ps. on_response data sz = Inr (rv, ps) \<and> (rv = -1 \<or> 1 \<le> rv \<and> rv \<le> int sz)"
    and "sz \<le> length data \<Longrightarrow> 5 + k \<le> sz \<Longrightarrow>
      \<exists>rv ps. arr_entries data sz n k = Inr (rv, ps) \<and> (rv = -1 \<or> 1 \<le> rv \<and> rv \<le> int sz)"
proof (induction data sz and data sz n k rule: on_response_arr_entries.induct)
  case (1 data sz)
  show ?case
  proof (cases "sz < 1")
    case True
    then have "on_response data sz = Inr (-1, [])" by (subst on_response.simps) simp
    then show ?thesis by simp
  next
    case False
    then have b: "byte_at data 0 = Inr (data ! 0)"
      using "1.prems" by (auto simp: byte_at_def)
    have rd: "rd32 data 1 = Inr (dec32 (take 4 (drop 1 data)))" if "\<not> sz - 1 < 4"
      using that "1.prems" by (simp add: rd32_in)
    consider "data ! 0 = SER_NIL" | "data ! 0 = SER_ERR" | "data ! 0 = SER_INT" | "data ! 0 = SER_STR"
      | "data ! 0 = SER_ARR" | "data ! 0 \<notin> {SER_NIL, SER_ERR, SER_INT, SER_STR, SER_ARR}" by blast
    then show ?thesis
    proof cases
      case 2
      let ?m = "dec32 (take 4 (drop 5 data))"
      show ?thesis
      proof (cases "sz - 1 < 8 \<or> sz - 9 < unat ?m")
        case True
        then show ?thesis
          using 2 False b rd "1.prems"
          by (auto simp: on_response.simps [of data sz] ser_defs rd32_in)
      next
        case ok: False
        then have le: "9 + unat ?m \<le> sz" by linarith
        then have "on_response data sz = Inr (int (9 + unat ?m),
            [ShownErr (dec32 (take 4 (drop 1 data))) (c_str (take (unat ?m) (drop 9 data)))])"
          using ok 2 False b "1.prems"
          by (simp add: on_response.simps [of data sz] ser_defs rd32_in slice_def del: of_nat_add)
        moreover have "int (9 + unat ?m) \<le> int sz"
          using le by (simp only: of_nat_le_iff)
        moreover have "(1 :: int) \<le> int (9 + unat ?m)" by linarith
        ultimately show ?thesis by blast
      qed
    next
      case 5
      show ?thesis
      proof (cases "sz - 1 < 4")
        case True
        with 5 False b show ?thesis by (simp add: on_response.simps [of data sz] ser_defs)
      next
        case four: False
        then have "5 \<le> sz" by linarith
        with "1.IH" [OF False b] four 5 rd [OF four] "1.prems" obtain rv ps where
          "arr_entries data sz (unat (dec32 (take 4 (drop 1 data)))) 0 = Inr (rv, ps)"
          "rv = -1 \<or> 1 \<le> rv \<and> rv \<le> int sz"
          by (auto simp: ser_defs)
        with 5 False b rd [OF four] four show ?thesis
          by (simp add: on_response.simps [of data sz] ser_defs)
      qed
    next
      case 4
      let ?m = "dec32 (take 4 (drop 1 data))"
      show ?thesis
      proof (cases "sz - 1 < 4 \<or> sz - 5 < unat ?m")
        case True
        then show ?thesis
          using 4 False b rd by (auto simp: on_response.simps [of data sz] ser_defs)
      next
        case ok: False
        then have le: "5 + unat ?m \<le> sz" by linarith
        then have "on_response data sz = Inr (int (5 + unat ?m), [ShownStr ?m (c_str (take (unat ?m) (drop 5 data)))])"
          using ok 4 False b rd "1.prems"
          by (simp add: on_response.simps [of data sz] ser_defs slice_def del: of_nat_add)
        moreover have "int (5 + unat ?m) \<le> int sz"
          using le by (simp only: of_nat_le_iff)
        moreover have "(1 :: int) \<le> int (5 + unat ?m)" by linarith
        ultimately show ?thesis by blast
      qed
    next
      case 3
      then show ?thesis
        using False b rd "1.prems"
        by (cases "sz - 1 < 4") (auto simp: on_response.simps [of data sz] ser_defs)
    qed (use False b in \<open>simp_all add: on_response.simps [of data sz] ser_defs\<close>)
  qed
next
  case (2 data sz k)
  then show ?case by auto
next
  case (3 data sz n k)
  have "\<not> sz < 5 + k" "sz - (5 + k) \<le> length (drop (5 + k) data)"
    using "3.prems" by simp_all
  from "3.IH"(1) [OF this] obtain rv ps where
    r: "on_response (drop (5 + k) data) (sz - (5 + k)) = Inr (rv, ps)"
    "rv = -1 \<or> 1 \<le> rv \<and> rv \<le> int (sz - (5 + k))" by auto
  show ?case
  proof (cases "rv = -1")
    case False
    with r(2) "3.prems" have "5 + (k + nat rv) \<le> sz" "\<not> rv < 0" by auto
    with "3.IH"(2) [OF _ r(1) refl] "3.prems" r(1) show ?thesis by fastforce
  qed (use r(1) "3.prems" in simp)
qed

section \<open>What goes out\<close>

lemma write_all_Inr:
  "write_all w fd bs = Inr (rv, w') \<Longrightarrow>
     (rv = 0 \<and> written fd (trace w') = written fd (trace w) @ bs)
     \<or> (rv = -1 \<and> (\<exists>n. written fd (trace w') = written fd (trace w) @ take n bs))"
proof (induction w fd bs rule: write_all.induct)
  case (1 w fd bs)
  show ?case
  proof (cases "bs = []")
    case True
    with "1.prems" show ?thesis by (simp add: write_all.simps [of w fd "[]"])
  next
    case False
    with "1.prems" obtain r w1 where r: "sys_write fd bs w = Inr (r, w1)"
      "(case r of WrErr e \<Rightarrow> Inr (-1, w1) | WrN n \<Rightarrow> if n = 0 then Inr (-1, w1)
        else rbind (assert_that (n \<le> length bs)) (\<lambda>_. write_all w1 fd (drop n bs))) = Inr (rv, w')"
      by (auto simp: write_all.simps [of w fd bs] rbind_eq_Inr)
    show ?thesis
    proof (cases r)
      case (WrErr e)
      with r sys_write_Inr(4) [OF r(1)] show ?thesis by (auto intro: exI [of _ 0])
    next
      case (WrN n)
      note wn = sys_write_Inr(3) [OF r(1) WrN]
      show ?thesis
      proof (cases "n = 0")
        case True
        with r WrN wn show ?thesis by (auto intro: exI [of _ 0])
      next
        case n0: False
        with r WrN have rec: "write_all w1 fd (drop n bs) = Inr (rv, w')" by (auto simp: rbind_eq_Inr)
        have "assert_that (n \<le> length bs) = Inr ()" using wn by simp
        from "1.IH" [OF False r(1) refl WrN n0 this rec] show ?thesis
        proof (elim disjE conjE exE)
          fix k assume "rv = -1" "written fd (trace w') = written fd (trace w1) @ take k (drop n bs)"
          then show ?thesis
            using wn take_add [of n k bs] by (auto intro: exI [of _ "n + k"])
        qed (use wn in simp_all)
      qed
    qed
  qed
qed

lemma blit_append:
  "length pre = off \<Longrightarrow> length bs \<le> length junk \<Longrightarrow>
     blit (pre @ junk) off bs = Inr (pre @ bs @ drop (length bs) junk)"
  by (simp add: blit_def)

lemma put_args_ok:
  "length pre = cur \<Longrightarrow> length (concat (map enc_arg cmd)) \<le> length junk \<Longrightarrow>
     put_args (pre @ junk) cur cmd
       = Inr (pre @ concat (map enc_arg cmd) @ drop (length (concat (map enc_arg cmd))) junk)"
proof (induction cmd arbitrary: pre junk cur)
  case Nil
  then show ?case by simp
next
  case (Cons s cmd)
  let ?len = "le32 (of_nat (length s))"
  have "blit (pre @ junk) cur ?len = Inr ((pre @ ?len) @ drop 4 junk)"
    using Cons.prems blit_append [of pre cur ?len junk] by simp
  moreover have "blit ((pre @ ?len) @ drop 4 junk) (cur + 4) s = Inr ((pre @ enc_arg s) @ drop (4 + length s) junk)"
    using Cons.prems blit_append [of "pre @ ?len" "cur + 4" s "drop 4 junk"] by (simp add: enc_arg_def add.commute)
  moreover have "put_args ((pre @ enc_arg s) @ drop (4 + length s) junk) (cur + (4 + length s)) cmd
      = Inr ((pre @ enc_arg s) @ concat (map enc_arg cmd)
          @ drop (length (concat (map enc_arg cmd))) (drop (4 + length s) junk))"
    by (rule Cons.IH) (use Cons.prems in simp_all)
  ultimately show ?case
    by (simp add: add.commute add.left_commute del: append_assoc)
qed

lemma req_len_eq: "req_len cmd = of_nat (length (enc_req cmd))"
proof -
  have "fold (\<lambda>s len. len + of_nat (4 + length s)) cmd (l :: u32) = l + of_nat (\<Sum>s \<leftarrow> cmd. 4 + length s)" for l
    by (induction cmd arbitrary: l) (simp_all add: algebra_simps)
  then show ?thesis
    unfolding req_len_def length_enc_req by simp
qed

text \<open>Arguments a process can be started with: their total size is below \<open>2 ^ 32\<close>.\<close>

lemma send_req_eq:
  assumes junk: "length wbuf0 = 4 + k_max_msg" and small: "length (enc_req cmd) < 2 ^ 32"
  shows "send_req wbuf0 fd cmd w =
    (if k_max_msg < length (enc_req cmd) then Inr (-1, w)
     else write_all w fd (le32 (of_nat (length (enc_req cmd))) @ enc_req cmd))"
proof (cases "k_max_msg < length (enc_req cmd)")
  case True
  then show ?thesis
    using unat_of_nat_u32 [OF small] by (simp add: send_req_def req_len_eq)
next
  case False
  let ?L = "length (enc_req cmd)"
  let ?hd = "le32 (of_nat ?L)" and ?n = "le32 (of_nat (length cmd))"
  have len: "unat (of_nat ?L :: u32) = ?L" "unat (4 + of_nat ?L :: u32) = 4 + ?L"
    using False unat_of_nat_u32 [of ?L] unat_of_nat_u32 [of "4 + ?L"] by (simp_all add: k_max_msg_def)
  have body: "enc_req cmd = ?n @ concat (map enc_arg cmd)" "?L = 4 + length (concat (map enc_arg cmd))"
    by (simp_all add: enc_req_def)
  have "blit wbuf0 0 ?hd = Inr (?hd @ drop 4 wbuf0)"
    using junk by (simp add: blit_def)
  moreover have "blit (?hd @ drop 4 wbuf0) 4 ?n = Inr ((?hd @ ?n) @ drop 8 wbuf0)"
    using junk by (simp add: blit_def k_max_msg_def)
  moreover have "put_args ((?hd @ ?n) @ drop 8 wbuf0) 8 cmd = Inr ((?hd @ ?n) @ concat (map enc_arg cmd)
      @ drop (length (concat (map enc_arg cmd))) (drop 8 wbuf0))"
    by (rule put_args_ok) (use junk False body(2) in simp_all)
  moreover have "slice ((?hd @ ?n) @ concat (map enc_arg cmd)
      @ drop (length (concat (map enc_arg cmd))) (drop 8 wbuf0)) 0 (4 + ?L) = Inr (?hd @ enc_req cmd)"
    using junk False body by (simp add: slice_def)
  ultimately show ?thesis
    using False len by (simp add: send_req_def req_len_eq)
qed

section \<open>What the client makes of the replies\<close>

lemma rd32_Cons: "rd32 (t # le32 w @ xs) (Suc 0) = Inr w"
  using rd32_le32 [of "[t]" 1 w xs] by simp

lemma on_response_nil: "1 \<le> sz \<Longrightarrow> on_response (out_nil [] @ xs) sz = Inr (1, [ShownNil])"
  by (simp add: on_response.simps [of _ sz] byte_at_def out_nil_def)

lemma on_response_str:
  assumes "length v < 2 ^ 32" "5 + length v \<le> sz"
  shows "on_response (out_str [] v @ xs) sz = Inr (int (5 + length v), [ShownStr (of_nat (length v)) (c_str v)])"
proof -
  have "slice (SER_STR # le32 (of_nat (length v)) @ v @ xs) 5 (length v) = Inr v"
    by (simp add: slice_def)
  then show ?thesis
    using assms unat_of_nat_u32 [OF assms(1)]
    by (simp add: on_response.simps [of _ sz] byte_at_def out_str_def rd32_Cons ser_defs) linarith
qed

lemma take_le64: "take 4 (le64 i) = le32 (ucast i)"
proof -
  have "(ucast (drop_bit n (ucast i :: u32)) :: byte) = ucast (drop_bit n i)" if "n \<le> 24" for n
    using that by (intro bit_eqI) (auto simp: bit_simps)
  from this [of 0] this [of 8] this [of 16] this [of 24] show ?thesis
    by (simp add: le64_def le32_def)
qed

text \<open>\<open>out_int\<close> writes eight bytes of value; the client takes four.\<close>

lemma on_response_int:
  "9 \<le> sz \<Longrightarrow> on_response (out_int [] i @ xs) sz = Inr (5, [ShownInt (ucast i)])"
proof -
  assume sz: "9 \<le> sz"
  have "le64 i = le32 (ucast i) @ drop 4 (le64 i)"
    by (metis append_take_drop_id take_le64)
  then have "rd32 (SER_INT # le64 i @ xs) (Suc 0) = Inr (ucast i)"
    by (metis append.assoc rd32_Cons)
  then show ?thesis
    using sz by (simp add: on_response.simps [of _ sz] byte_at_def out_int_def ser_defs)
qed

text \<open>The length \<open>out_err\<close> writes into an empty buffer is 5, whatever the message.\<close>

lemma on_response_err:
  assumes "9 + length m \<le> sz" "5 \<le> length m"
  shows "on_response (out_err [] code m @ xs) sz = Inr (14, [ShownErr code (c_str (take 5 m))])"
proof -
  have "out_err [] code m @ xs = SER_ERR # le32 code @ le32 5 @ m @ xs"
    by (simp add: out_err_def Let_def)
  moreover have "rd32 (SER_ERR # le32 code @ le32 5 @ m @ xs) 5 = Inr 5"
    using rd32_le32 [of "SER_ERR # le32 code" 5 5 "m @ xs"] by simp
  moreover have "slice (SER_ERR # le32 code @ le32 5 @ m @ xs) 9 5 = Inr (take 5 m)"
    using assms(2) by (simp add: slice_def)
  ultimately show ?thesis
    using assms by (simp add: on_response.simps [of _ sz] byte_at_def rd32_Cons ser_defs) linarith
qed

lemma arr_entries_strs:
  "\<lbrakk>length pre = 5 + k; \<forall>v \<in> set vs. length v < 2 ^ 32; 5 + k + length (concat (map (out_str []) vs)) \<le> sz\<rbrakk> \<Longrightarrow>
   arr_entries (pre @ concat (map (out_str []) vs) @ xs) sz (length vs) k
     = Inr (int (5 + k + length (concat (map (out_str []) vs))),
            map (\<lambda>v. ShownStr (of_nat (length v)) (c_str v)) vs)"
proof (induction vs arbitrary: pre k)
  case Nil
  then show ?case by simp
next
  case (Cons v vs)
  let ?rest = "concat (map (out_str []) vs) @ xs"
  have "on_response (out_str [] v @ ?rest) (sz - (5 + k)) = Inr (int (5 + length v), [ShownStr (of_nat (length v)) (c_str v)])"
    by (rule on_response_str) (use Cons.prems in auto)
  moreover have "arr_entries ((pre @ out_str [] v) @ ?rest) sz (length vs) (k + (5 + length v))
      = Inr (int (5 + (k + (5 + length v)) + length (concat (map (out_str []) vs))),
             map (\<lambda>v. ShownStr (of_nat (length v)) (c_str v)) vs)"
    by (rule Cons.IH) (use Cons.prems in auto)
  ultimately show ?case
    using Cons.prems by (simp add: nat_add_distrib)
qed

lemma on_response_arr:
  assumes "length ks < 2 ^ 32" "\<forall>v \<in> set ks. length v < 2 ^ 32"
  defines "out \<equiv> out_arr [] (of_nat (length ks)) @ concat (map (out_str []) ks)"
  shows "on_response (out @ xs) (length out)
    = Inr (int (length out), ShownArr (of_nat (length ks)) # map (\<lambda>v. ShownStr (of_nat (length v)) (c_str v)) ks)"
proof -
  have "arr_entries ((out_arr [] (of_nat (length ks))) @ concat (map (out_str []) ks) @ xs) (length out) (length ks) 0
      = Inr (int (5 + 0 + length (concat (map (out_str []) ks))),
             map (\<lambda>v. ShownStr (of_nat (length v)) (c_str v)) ks)"
    by (rule arr_entries_strs) (use assms(2) in \<open>simp_all add: out_def\<close>)
  moreover have "out @ xs = SER_ARR # le32 (of_nat (length ks)) @ concat (map (out_str []) ks) @ xs"
    by (simp add: out_def out_arr_def)
  ultimately show ?thesis
    using unat_of_nat_u32 [OF assms(1)]
    by (subst on_response.simps) (simp add: byte_at_def rd32_Cons ser_defs out_def out_arr_def)
qed

end
