(* ===== verification/ClientProps.thy ===== *)
theory ClientProps
  imports Client ConnCases
begin

text \<open>
  The properties of the client, and of the client and the server together: which requests
  reach the server, and what the client makes of each kind of reply.
\<close>

section \<open>The socket helpers\<close>

text \<open>
  C33.  The socket helpers of the client against any answers of the kernel.
  \<open>read_full\<close>: status 0 means that exactly the \<open>n\<close> next bytes of the stream were stored,
  in order, however they were fragmented; status \<open>-1\<close> that the stream broke off, with the
  bytes before that stored; no byte is skipped.  \<open>write_all\<close>: status 0 means that exactly
  the given bytes went out, in order; status \<open>-1\<close> that a prefix of them did.
\<close>

theorem socket_helpers_exact:
  "(\<forall>rv out w'. read_full w n buf = Inr (rv, out, w') \<longrightarrow>
      (\<exists>bs. out = buf @ bs \<and> rd_bytes (rd_script w) = bs @ rd_bytes (rd_script w')
         \<and> (rv = 0 \<and> length bs = n \<or> rv = -1 \<and> length bs < n)))
   \<and> (\<forall>rv w'. write_all w fd bytes = Inr (rv, w') \<longrightarrow>
      rv = 0 \<and> written fd (trace w') = written fd (trace w) @ bytes
      \<or> rv = -1 \<and> (\<exists>k. written fd (trace w') = written fd (trace w) @ take k bytes))"
  using read_full_Inr [of w n buf] write_all_Inr [of w fd bytes] by blast

theorem socket_helpers_exact_witness:
  "\<exists>w'. read_full \<lparr>rd_script = [RdData [1], RdData [2], RdData [3]], wr_script = [], trace = []\<rparr> 2 [] = Inr (0, [1, 2], w')
     \<and> rd_bytes [RdData [1], RdData [2], RdData [3]] = [1, 2] @ rd_bytes (rd_script w')"
proof -
  let ?w = "\<lparr>rd_script = [RdData [1], RdData [2], RdData [3]], wr_script = [], trace = []\<rparr>"
  have r: "read_full ?w 2 [] = Inr (0, [1, 2], ?w\<lparr>rd_script := [RdData [3]]\<rparr>)"
    using read_full_pieces [of "[[1], [2]]" ?w "[RdData [3]]" "[]"] by (simp add: numeral_2_eq_2)
  with socket_helpers_exact [of ?w 2 "[]" 0 "[]"] show ?thesis by auto
qed

section \<open>Requests\<close>

text \<open>
  C29.  What the client sends is what the server parses: when \<open>send_req\<close> reports success,
  the bytes it wrote are one frame, and the server's framing and parser read the same list
  of strings back from it; a list that is too long is refused before anything is sent.
\<close>

theorem request_reaches_server:
  assumes "length wbuf0 = 4 + k_max_msg" and "length (enc_req cmd) < 2 ^ 32"
    and "send_req wbuf0 fd cmd w = Inr (rv, w')"
  shows "(rv = 0 \<longrightarrow> written fd (trace w') = written fd (trace w) @ frame (enc_req cmd)
            \<and> next_frame (frame (enc_req cmd)) = Request cmd [])
     \<and> (k_max_msg < length (enc_req cmd) \<longrightarrow> rv = -1 \<and> w' = w)"
proof (cases "k_max_msg < length (enc_req cmd)")
  case True
  with send_req_eq [OF assms(1,2), of fd w] assms(3) show ?thesis by simp
next
  case False
  with send_req_eq [OF assms(1,2), of fd w] assms(3)
  have "write_all w fd (frame (enc_req cmd)) = Inr (rv, w')" by (simp add: frame_def)
  with write_all_Inr [OF this] next_frame_framed [of cmd "[]"] False show ?thesis by auto
qed

theorem request_reaches_server_witness:
  "\<exists>w'. send_req (replicate (4 + k_max_msg) 0) 3 [ascii ''keys''] \<lparr>rd_script = [], wr_script = [WrN 16], trace = []\<rparr>
       = Inr (0, w') \<and> next_frame (written 3 (trace w')) = Request [ascii ''keys''] []"
proof -
  let ?w = "\<lparr>rd_script = [], wr_script = [WrN 16], trace = []\<rparr>"
  let ?b = "replicate (4 + k_max_msg) 0 :: bytes"
  have l: "length (enc_req [ascii ''keys'']) = 12" by (simp add: length_enc_req ascii_def)
  have lf: "length (frame (enc_req [ascii ''keys''])) = 16" using l by simp
  have "send_req ?b 3 [ascii ''keys''] ?w = write_all ?w 3 (frame (enc_req [ascii ''keys'']))"
    using send_req_eq [of ?b "[ascii ''keys'']" 3 ?w] l by (simp add: frame_def k_max_msg_def)
  moreover have "\<exists>w'. write_all ?w 3 (frame (enc_req [ascii ''keys''])) = Inr (0, w')"
    by (simp add: write_all.simps [of ?w] write_all.simps [of _ _ "[]"] sys_write_def log_call_def lf l)
  ultimately obtain w' where r: "send_req ?b 3 [ascii ''keys''] ?w = Inr (0, w')" by auto
  have "length ?b = 4 + k_max_msg" "length (enc_req [ascii ''keys'']) < 2 ^ 32" using l by simp_all
  from request_reaches_server [OF this r] r show ?thesis by simp
qed

section \<open>Replies\<close>

text \<open>
  C32.  Memory safety of the client's parser: on any bytes a server may send,
  \<open>on_response\<close> and its loop over array entries, nested to any depth, end, read only the
  \<open>size\<close> bytes they were given, and return \<open>-1\<close> or the number of bytes used.
\<close>

theorem response_parser_safe:
  assumes "sz \<le> length data"
  shows "\<exists>rv ps. on_response data sz = Inr (rv, ps) \<and> (rv = -1 \<or> 1 \<le> rv \<and> rv \<le> int sz)"
  by (rule on_response_safe(1) [OF assms])

theorem response_parser_safe_witness:
  "\<exists>rv ps. on_response [4, 255, 255, 255, 255, 4, 1, 0, 0] 9 = Inr (rv, ps) \<and> (rv = -1 \<or> 1 \<le> rv \<and> rv \<le> 9)"
  using response_parser_safe [of 9 "[4, 255, 255, 255, 255, 4, 1, 0, 0]"] by simp

text \<open>A frame that arrives in pieces, its header and then its body.\<close>

definition arrives :: "bytes \<Rightarrow> io \<Rightarrow> bool" where
  "arrives out w \<longleftrightarrow> (\<exists>bss css rs. rd_script w = map RdData bss @ map RdData css @ rs
     \<and> [] \<notin> set (bss @ css) \<and> concat bss = le32 (of_nat (length out)) \<and> concat css = out)"

lemma read_res_arrives:
  assumes "arrives out w" and "length out \<le> k_max_msg" and "length rbuf0 = 4 + k_max_msg + 1"
  shows "\<exists>junk w'. read_res rbuf0 w = rbind (on_response (out @ junk) (length out)) (\<lambda>(rv, ps).
     Inr (if 0 < rv \<and> rv \<noteq> int (length out) then -1 else rv, ps, w'))"
proof -
  from assms(1) obtain bss css rs where a: "rd_script w = map RdData bss @ map RdData css @ rs"
    "[] \<notin> set (bss @ css)" "concat bss = le32 (of_nat (length out))" "concat css = out"
    by (auto simp: arrives_def)
  let ?hd = "le32 (of_nat (length out))" and ?w1 = "w\<lparr>rd_script := map RdData css @ rs\<rparr>"
  have l4: "length (concat bss) = 4" using a(3) by simp
  have 1: "read_full w 4 [] = Inr (0, ?hd, ?w1)"
    using read_full_pieces [of bss w "map RdData css @ rs" "[]"] a by (auto simp: l4)
  have 2: "read_full ?w1 (length out) [] = Inr (0, out, ?w1\<lparr>rd_script := rs\<rparr>)"
    using read_full_pieces [of css ?w1 rs "[]"] a by auto
  have b1: "blit rbuf0 0 ?hd = Inr (?hd @ drop 4 rbuf0)"
    using assms(3) by (simp add: blit_def)
  have b2: "blit (?hd @ drop 4 rbuf0) 4 out = Inr (?hd @ out @ drop (4 + length out) rbuf0)"
    using assms(2,3) by (simp add: blit_def add.commute)
  have n: "unat (of_nat (length out) :: u32) = length out"
    using assms(2) by (intro unat_of_nat_u32) (simp add: k_max_msg_def)
  have rd: "rd32 (?hd @ drop 4 rbuf0) 0 = Inr (of_nat (length out))"
    using rd32_le32 [of "[]" 0] by simp
  show ?thesis
    using assms(2) by (intro exI [of _ "drop (4 + length out) rbuf0"] exI [of _ "?w1\<lparr>rd_script := rs\<rparr>"])
      (simp add: read_res_def 1 2 b1 b2 rd n)
qed

text \<open>How the client shows the reply to a \<open>GET\<close>.\<close>

definition shown_lookup :: "bytes option \<Rightarrow> shown list" where
  "shown_lookup r = (case r of None \<Rightarrow> [ShownNil] | Some v \<Rightarrow> [ShownStr (of_nat (length v)) (c_str v)])"

lemma on_response_lookup:
  assumes "length (enc_lookup [] r) \<le> k_max_msg"
  shows "on_response (enc_lookup [] r @ xs) (length (enc_lookup [] r))
       = Inr (int (length (enc_lookup [] r)), shown_lookup r)"
  using assms on_response_nil [of 1 xs] on_response_str [of "the r" "5 + length (the r)" xs]
  by (cases r) (simp_all add: enc_lookup_def shown_lookup_def k_max_msg_def)

text \<open>
  C30.  The replies the client understands: a nil, a string, and the list of keys that
  \<open>KEYS\<close> sends are accepted in full and shown as what the server meant, each string up to
  its first NUL byte; the frame may arrive in any pieces.
\<close>

theorem replies_understood:
  assumes "length rbuf0 = 4 + k_max_msg + 1" and "arrives out w" and "length out \<le> k_max_msg"
  shows "(out = enc_lookup [] r \<longrightarrow>
            (\<exists>w'. read_res rbuf0 w = Inr (int (length out), shown_lookup r, w')))
     \<and> (out = out_arr [] (of_nat (length ks)) @ concat (map (out_str []) ks) \<longrightarrow>
            (\<exists>w'. read_res rbuf0 w = Inr (int (length out),
               ShownArr (of_nat (length ks)) # map (\<lambda>v. ShownStr (of_nat (length v)) (c_str v)) ks, w')))"
proof (intro conjI impI)
  obtain junk w' where run: "read_res rbuf0 w = rbind (on_response (out @ junk) (length out)) (\<lambda>(rv, ps).
     Inr (if 0 < rv \<and> rv \<noteq> int (length out) then -1 else rv, ps, w'))"
    using read_res_arrives [OF assms(2,3,1)] by blast
  show "\<exists>w'. read_res rbuf0 w = Inr (int (length out), shown_lookup r, w')" if "out = enc_lookup [] r"
    using run on_response_lookup [of r junk] assms(3) that by simp
  assume o: "out = out_arr [] (of_nat (length ks)) @ concat (map (out_str []) ks)"
  have "5 + (\<Sum>v \<leftarrow> ks. 5 + length v) \<le> k_max_msg"
    using assms(3) unfolding o by (simp add: length_concat comp_def)
  moreover have "length ks \<le> (\<Sum>v \<leftarrow> ks. 5 + length v)" "v \<in> set ks \<Longrightarrow> length v \<le> (\<Sum>v \<leftarrow> ks. 5 + length v)" for v
    by (induction ks) auto
  ultimately have "length ks < 2 ^ 32" "\<forall>v \<in> set ks. length v < 2 ^ 32"
    by (fastforce simp: k_max_msg_def)+
  from on_response_arr [OF this, of junk, folded o] run
  show "\<exists>w'. read_res rbuf0 w = Inr (int (length out),
      ShownArr (of_nat (length ks)) # map (\<lambda>v. ShownStr (of_nat (length v)) (c_str v)) ks, w')" by simp
qed

lemma arrives_two: "out \<noteq> [] \<Longrightarrow> arrives out \<lparr>rd_script = [RdData (le32 (of_nat (length out))), RdData out],
    wr_script = [], trace = []\<rparr>"
  unfolding arrives_def
  by (rule exI [of _ "[le32 (of_nat (length out))]"], rule exI [of _ "[out]"], rule exI [of _ "[]"])
    (auto simp: le32_def)

theorem replies_understood_witness:
  "\<exists>w'. read_res (replicate (4 + k_max_msg + 1) 0)
     \<lparr>rd_script = [RdData (le32 6), RdData (out_str [] [97])], wr_script = [], trace = []\<rparr>
       = Inr (6, [ShownStr 1 [97]], w')"
proof -
  have "arrives (out_str [] [97]) \<lparr>rd_script = [RdData (le32 6), RdData (out_str [] [97])], wr_script = [], trace = []\<rparr>"
    using arrives_two [of "out_str [] [97]"] by (simp add: out_str_def)
  from replies_understood [OF _ this, of "replicate (4 + k_max_msg + 1) 0" "Some [97]"] show ?thesis
    by (simp add: k_max_msg_def enc_lookup_def shown_lookup_def c_str_def)
qed

text \<open>
  C31.  The replies the client rejects: the integer that answers a \<open>DEL\<close> takes nine bytes
  on the wire, of which the client counts five, and the length field of an error is not the
  length of its message; in both cases the client shows something and then returns
  \<open>-1\<close>, as for a broken connection.
\<close>

theorem replies_rejected:
  assumes "length rbuf0 = 4 + k_max_msg + 1" and "arrives out w"
    and "out = out_int [] i \<or> out = out_err [] code m \<and> 5 < length m \<and> 9 + length m \<le> k_max_msg"
  shows "\<exists>ps w'. read_res rbuf0 w = Inr (-1, ps, w')"
proof -
  have len: "length out \<le> k_max_msg" using assms(3) by (auto simp: k_max_msg_def)
  obtain junk w' where run: "read_res rbuf0 w = rbind (on_response (out @ junk) (length out)) (\<lambda>(rv, ps).
     Inr (if 0 < rv \<and> rv \<noteq> int (length out) then -1 else rv, ps, w'))"
    using read_res_arrives [OF assms(2) len assms(1)] by blast
  from assms(3) show ?thesis
  proof (elim disjE conjE)
    assume "out = out_int [] i"
    with run on_response_int [of 9 i junk] show ?thesis by simp
  next
    assume "out = out_err [] code m" "5 < length m"
    with run on_response_err [of m "9 + length m" code junk] show ?thesis by simp
  qed
qed

theorem replies_rejected_witness:
  "\<exists>ps w'. read_res (replicate (4 + k_max_msg + 1) 0)
     \<lparr>rd_script = [RdData (le32 9), RdData (out_int [] 1)], wr_script = [], trace = []\<rparr> = Inr (-1, ps, w')"
proof -
  have "arrives (out_int [] 1) \<lparr>rd_script = [RdData (le32 9), RdData (out_int [] 1)], wr_script = [], trace = []\<rparr>"
    using arrives_two [of "out_int [] 1"] by (simp add: out_int_def)
  from replies_rejected [OF _ this, of "replicate (4 + k_max_msg + 1) 0" 1] show ?thesis by simp
qed

end
