(* ===== verification/CompilerId.thy ===== *)
theory CompilerId
  imports Main "HOL-Library.Word"
begin

text \<open>
  The compiler probe CMake keeps in the build tree,
  \<open>cmake-build-debug/CMakeFiles/3.28.1/CompilerIdC/CMakeCCompilerId.c\<close>: the
  preprocessor chains that name the compiler, the platform and the architecture, the
  digit macros \<open>DEC\<close> and \<open>HEX\<close>, the strings built from them, and \<open>main\<close>.
  Each chain is a function from the macros the compiler predefines to the list of
  \<open>#define\<close>s the preprocessor executes, in order.
\<close>

unbundle bit_operations_syntax

section \<open>The preprocessor\<close>

text \<open>
  The predefined macros: those with an integer value, and those with a string literal.
  All integers are version numbers, so not negative.
\<close>

record penv =
  pnum :: "string \<rightharpoonup> nat"
  pstr :: "string \<rightharpoonup> string"

definition defd :: "penv \<Rightarrow> string \<Rightarrow> bool" where
  "defd p m \<longleftrightarrow> pnum p m \<noteq> None \<or> pstr p m \<noteq> None"

text \<open>An identifier in an \<open>#if\<close> counts 0 when undefined; in code it must be defined.\<close>

definition pval :: "penv \<Rightarrow> string \<Rightarrow> nat" where
  "pval p m = (case pnum p m of None \<Rightarrow> 0 | Some n \<Rightarrow> n)"

definition puse :: "penv \<Rightarrow> string \<Rightarrow> nat option" where
  "puse p m = pnum p m"

text \<open>
  The characters a macro contributes to the strings below; \<open>None\<close> when its expansion
  does not compile.  A list of definitions; a later one replaces an earlier one.
\<close>

type_synonym mdef = "string option"
type_synonym mdefs = "(string \<times> mdef) list"

definition mac :: "mdefs \<Rightarrow> string \<Rightarrow> mdef option" where
  "mac ds m = map_of (rev ds) m"

definition Text :: "string \<Rightarrow> mdef" where
  "Text s = Some s"

definition TextMacro :: "penv \<Rightarrow> string \<Rightarrow> mdef" where
  "TextMacro p m = pstr p m"

section \<open>\<open>DEC\<close> and \<open>HEX\<close>\<close>

definition digit :: "nat \<Rightarrow> char" where
  "digit d = char_of (48 + d)"

definition dec_digits :: "nat \<Rightarrow> string" where
  "dec_digits n =
     [digit ((n div 10000000) mod 10), digit ((n div 1000000) mod 10),
      digit ((n div 100000) mod 10), digit ((n div 10000) mod 10),
      digit ((n div 1000) mod 10), digit ((n div 100) mod 10),
      digit ((n div 10) mod 10), digit (n mod 10)]"

definition hex_digits :: "nat \<Rightarrow> string" where
  "hex_digits n =
     [digit (drop_bit 28 n AND 15), digit (drop_bit 24 n AND 15),
      digit (drop_bit 20 n AND 15), digit (drop_bit 16 n AND 15),
      digit (drop_bit 12 n AND 15), digit (drop_bit 8 n AND 15),
      digit (drop_bit 4 n AND 15), digit (n AND 15)]"

definition DEC :: "nat option \<Rightarrow> mdef" where
  "DEC e = map_option dec_digits e"

definition HEX :: "nat option \<Rightarrow> mdef" where
  "HEX e = map_option hex_digits e"

text \<open>\<open>STRINGIFY\<close> of an integer macro, behind a literal.\<close>

fun decimal :: "nat \<Rightarrow> string" where
  "decimal n = (if n < 10 then [digit n] else decimal (n div 10) @ [digit (n mod 10)])"

declare decimal.simps [simp del]

definition TextNum :: "string \<Rightarrow> nat option \<Rightarrow> mdef" where
  "TextNum s e = map_option (\<lambda>n. s @ decimal n) e"

section \<open>The compiler\<close>

text \<open>The chain from the last branch to the first; \<open>compiler_ids\<close> is the whole.\<close>

definition ids_vendor4 :: "penv \<Rightarrow> mdefs" where
  "ids_vendor4 p =
    (if defd p ''__GNUC__''
       then [(''COMPILER_ID'', Text ''GNU''),
             (''COMPILER_VERSION_MAJOR'', DEC (puse p ''__GNUC__''))]
            @ (if defd p ''__GNUC_MINOR__''
               then [(''COMPILER_VERSION_MINOR'', DEC (puse p ''__GNUC_MINOR__''))] else [])
            @ (if defd p ''__GNUC_PATCHLEVEL__''
               then [(''COMPILER_VERSION_PATCH'', DEC (puse p ''__GNUC_PATCHLEVEL__''))] else [])
     else if defd p ''_MSC_VER''
       then [(''COMPILER_ID'', Text ''MSVC''),
             (''COMPILER_VERSION_MAJOR'', DEC (map_option (\<lambda>x. x div 100) (puse p ''_MSC_VER''))),
             (''COMPILER_VERSION_MINOR'', DEC (map_option (\<lambda>x. x mod 100) (puse p ''_MSC_VER'')))]
            @ (if defd p ''_MSC_FULL_VER''
               then (if 1400 \<le> pval p ''_MSC_VER''
                       then [(''COMPILER_VERSION_PATCH'', DEC (map_option (\<lambda>x. x mod 100000) (puse p ''_MSC_FULL_VER'')))]
                     else [(''COMPILER_VERSION_PATCH'', DEC (map_option (\<lambda>x. x mod 10000) (puse p ''_MSC_FULL_VER'')))]) else [])
            @ (if defd p ''_MSC_BUILD''
               then [(''COMPILER_VERSION_TWEAK'', DEC (puse p ''_MSC_BUILD''))] else [])
     else if defd p ''_ADI_COMPILER''
       then [(''COMPILER_ID'', Text ''ADSP'')]
            @ (if defd p ''__VERSIONNUM__''
               then [(''COMPILER_VERSION_MAJOR'', DEC (map_option (\<lambda>x. drop_bit 24 x AND 255) (puse p ''__VERSIONNUM__''))),
                     (''COMPILER_VERSION_MINOR'', DEC (map_option (\<lambda>x. drop_bit 16 x AND 255) (puse p ''__VERSIONNUM__''))),
                     (''COMPILER_VERSION_PATCH'', DEC (map_option (\<lambda>x. drop_bit 8 x AND 255) (puse p ''__VERSIONNUM__''))),
                     (''COMPILER_VERSION_TWEAK'', DEC (map_option (\<lambda>x. x AND 255) (puse p ''__VERSIONNUM__'')))] else [])
     else if defd p ''__IAR_SYSTEMS_ICC__'' \<or> defd p ''__IAR_SYSTEMS_ICC''
       then [(''COMPILER_ID'', Text ''IAR'')]
            @ (if defd p ''__VER__'' \<and> defd p ''__ICCARM__''
               then [(''COMPILER_VERSION_MAJOR'', DEC (map_option (\<lambda>x. x div 1000000) (puse p ''__VER__''))),
                     (''COMPILER_VERSION_MINOR'', DEC (map_option (\<lambda>x. x div 1000 mod 1000) (puse p ''__VER__''))),
                     (''COMPILER_VERSION_PATCH'', DEC (map_option (\<lambda>x. x mod 1000) (puse p ''__VER__''))),
                     (''COMPILER_VERSION_INTERNAL'', DEC (puse p ''__IAR_SYSTEMS_ICC__''))]
             else if defd p ''__VER__'' \<and> (defd p ''__ICCAVR__'' \<or> defd p ''__ICCRX__'' \<or> defd p ''__ICCRH850__'' \<or> defd p ''__ICCRL78__'' \<or> defd p ''__ICC430__'' \<or> defd p ''__ICCRISCV__'' \<or> defd p ''__ICCV850__'' \<or> defd p ''__ICC8051__'' \<or> defd p ''__ICCSTM8__'')
               then [(''COMPILER_VERSION_MAJOR'', DEC (map_option (\<lambda>x. x div 100) (puse p ''__VER__''))),
                     (''COMPILER_VERSION_MINOR'', DEC (map_option (\<lambda>x. x - x div 100 * 100) (puse p ''__VER__''))),
                     (''COMPILER_VERSION_PATCH'', DEC (puse p ''__SUBVERSION__'')),
                     (''COMPILER_VERSION_INTERNAL'', DEC (puse p ''__IAR_SYSTEMS_ICC__''))] else [])
     else if defd p ''__SDCC_VERSION_MAJOR'' \<or> defd p ''SDCC''
       then [(''COMPILER_ID'', Text ''SDCC'')]
            @ (if defd p ''__SDCC_VERSION_MAJOR''
               then [(''COMPILER_VERSION_MAJOR'', DEC (puse p ''__SDCC_VERSION_MAJOR'')),
                     (''COMPILER_VERSION_MINOR'', DEC (puse p ''__SDCC_VERSION_MINOR'')),
                     (''COMPILER_VERSION_PATCH'', DEC (puse p ''__SDCC_VERSION_PATCH''))]
             else [(''COMPILER_VERSION_MAJOR'', DEC (map_option (\<lambda>x. x div 100) (puse p ''SDCC''))),
                (''COMPILER_VERSION_MINOR'', DEC (map_option (\<lambda>x. x div 10 mod 10) (puse p ''SDCC''))),
                (''COMPILER_VERSION_PATCH'', DEC (map_option (\<lambda>x. x mod 10) (puse p ''SDCC'')))])
     else if defd p ''__hpux'' \<or> defd p ''__hpua''
       then [(''COMPILER_ID'', Text ''HP'')]
     else [(''COMPILER_ID'', Text '''')])"

definition ids_vendor3 :: "penv \<Rightarrow> mdefs" where
  "ids_vendor3 p =
    (if defd p ''__ARMCC_VERSION'' \<and> \<not> defd p ''__clang__''
       then [(''COMPILER_ID'', Text ''ARMCC'')]
            @ (if 1000000 \<le> pval p ''__ARMCC_VERSION''
               then [(''COMPILER_VERSION_MAJOR'', DEC (map_option (\<lambda>x. x div 1000000) (puse p ''__ARMCC_VERSION''))),
                     (''COMPILER_VERSION_MINOR'', DEC (map_option (\<lambda>x. x div 10000 mod 100) (puse p ''__ARMCC_VERSION''))),
                     (''COMPILER_VERSION_PATCH'', DEC (map_option (\<lambda>x. x mod 10000) (puse p ''__ARMCC_VERSION'')))]
             else [(''COMPILER_VERSION_MAJOR'', DEC (map_option (\<lambda>x. x div 100000) (puse p ''__ARMCC_VERSION''))),
                (''COMPILER_VERSION_MINOR'', DEC (map_option (\<lambda>x. x div 10000 mod 10) (puse p ''__ARMCC_VERSION''))),
                (''COMPILER_VERSION_PATCH'', DEC (map_option (\<lambda>x. x mod 10000) (puse p ''__ARMCC_VERSION'')))])
     else if defd p ''__clang__'' \<and> defd p ''__apple_build_version__''
       then [(''COMPILER_ID'', Text ''AppleClang'')]
            @ (if defd p ''_MSC_VER''
               then [(''SIMULATE_ID'', Text ''MSVC'')] else [])
            @ [(''COMPILER_VERSION_MAJOR'', DEC (puse p ''__clang_major__'')),
             (''COMPILER_VERSION_MINOR'', DEC (puse p ''__clang_minor__'')),
             (''COMPILER_VERSION_PATCH'', DEC (puse p ''__clang_patchlevel__''))]
            @ (if defd p ''_MSC_VER''
               then [(''SIMULATE_VERSION_MAJOR'', DEC (map_option (\<lambda>x. x div 100) (puse p ''_MSC_VER''))),
                     (''SIMULATE_VERSION_MINOR'', DEC (map_option (\<lambda>x. x mod 100) (puse p ''_MSC_VER'')))] else [])
            @ [(''COMPILER_VERSION_TWEAK'', DEC (puse p ''__apple_build_version__''))]
     else if defd p ''__clang__'' \<and> defd p ''__ARMCOMPILER_VERSION''
       then [(''COMPILER_ID'', Text ''ARMClang''),
             (''COMPILER_VERSION_MAJOR'', DEC (map_option (\<lambda>x. x div 1000000) (puse p ''__ARMCOMPILER_VERSION''))),
             (''COMPILER_VERSION_MINOR'', DEC (map_option (\<lambda>x. x div 10000 mod 100) (puse p ''__ARMCOMPILER_VERSION''))),
             (''COMPILER_VERSION_PATCH'', DEC (map_option (\<lambda>x. x div 100 mod 100) (puse p ''__ARMCOMPILER_VERSION''))),
             (''COMPILER_VERSION_INTERNAL'', DEC (puse p ''__ARMCOMPILER_VERSION''))]
     else if defd p ''__clang__''
       then [(''COMPILER_ID'', Text ''Clang'')]
            @ (if defd p ''_MSC_VER''
               then [(''SIMULATE_ID'', Text ''MSVC'')] else [])
            @ [(''COMPILER_VERSION_MAJOR'', DEC (puse p ''__clang_major__'')),
             (''COMPILER_VERSION_MINOR'', DEC (puse p ''__clang_minor__'')),
             (''COMPILER_VERSION_PATCH'', DEC (puse p ''__clang_patchlevel__''))]
            @ (if defd p ''_MSC_VER''
               then [(''SIMULATE_VERSION_MAJOR'', DEC (map_option (\<lambda>x. x div 100) (puse p ''_MSC_VER''))),
                     (''SIMULATE_VERSION_MINOR'', DEC (map_option (\<lambda>x. x mod 100) (puse p ''_MSC_VER'')))] else [])
     else if defd p ''__LCC__'' \<and> (defd p ''__GNUC__'' \<or> defd p ''__GNUG__'' \<or> defd p ''__MCST__'')
       then [(''COMPILER_ID'', Text ''LCC''),
             (''COMPILER_VERSION_MAJOR'', DEC (map_option (\<lambda>x. x div 100) (puse p ''__LCC__''))),
             (''COMPILER_VERSION_MINOR'', DEC (map_option (\<lambda>x. x mod 100) (puse p ''__LCC__'')))]
            @ (if defd p ''__LCC_MINOR__''
               then [(''COMPILER_VERSION_PATCH'', DEC (puse p ''__LCC_MINOR__''))] else [])
            @ (if defd p ''__GNUC__'' \<and> defd p ''__GNUC_MINOR__''
               then [(''SIMULATE_ID'', Text ''GNU''),
                     (''SIMULATE_VERSION_MAJOR'', DEC (puse p ''__GNUC__'')),
                     (''SIMULATE_VERSION_MINOR'', DEC (puse p ''__GNUC_MINOR__''))]
                    @ (if defd p ''__GNUC_PATCHLEVEL__''
                       then [(''SIMULATE_VERSION_PATCH'', DEC (puse p ''__GNUC_PATCHLEVEL__''))] else []) else [])
     else ids_vendor4 p)"

definition ids_vendor2 :: "penv \<Rightarrow> mdefs" where
  "ids_vendor2 p =
    (if defd p ''__NVCOMPILER''
       then [(''COMPILER_ID'', Text ''NVHPC''),
             (''COMPILER_VERSION_MAJOR'', DEC (puse p ''__NVCOMPILER_MAJOR__'')),
             (''COMPILER_VERSION_MINOR'', DEC (puse p ''__NVCOMPILER_MINOR__''))]
            @ (if defd p ''__NVCOMPILER_PATCHLEVEL__''
               then [(''COMPILER_VERSION_PATCH'', DEC (puse p ''__NVCOMPILER_PATCHLEVEL__''))] else [])
     else if defd p ''__PGI''
       then [(''COMPILER_ID'', Text ''PGI''),
             (''COMPILER_VERSION_MAJOR'', DEC (puse p ''__PGIC__'')),
             (''COMPILER_VERSION_MINOR'', DEC (puse p ''__PGIC_MINOR__''))]
            @ (if defd p ''__PGIC_PATCHLEVEL__''
               then [(''COMPILER_VERSION_PATCH'', DEC (puse p ''__PGIC_PATCHLEVEL__''))] else [])
     else if defd p ''__clang__'' \<and> defd p ''__cray__''
       then [(''COMPILER_ID'', Text ''CrayClang''),
             (''COMPILER_VERSION_MAJOR'', DEC (puse p ''__cray_major__'')),
             (''COMPILER_VERSION_MINOR'', DEC (puse p ''__cray_minor__'')),
             (''COMPILER_VERSION_PATCH'', DEC (puse p ''__cray_patchlevel__'')),
             (''COMPILER_VERSION_INTERNAL_STR'', TextMacro p ''__clang_version__'')]
     else if defd p ''_CRAYC''
       then [(''COMPILER_ID'', Text ''Cray''),
             (''COMPILER_VERSION_MAJOR'', DEC (puse p ''_RELEASE_MAJOR'')),
             (''COMPILER_VERSION_MINOR'', DEC (puse p ''_RELEASE_MINOR''))]
     else if defd p ''__TI_COMPILER_VERSION__''
       then [(''COMPILER_ID'', Text ''TI''),
             (''COMPILER_VERSION_MAJOR'', DEC (map_option (\<lambda>x. x div 1000000) (puse p ''__TI_COMPILER_VERSION__''))),
             (''COMPILER_VERSION_MINOR'', DEC (map_option (\<lambda>x. x div 1000 mod 1000) (puse p ''__TI_COMPILER_VERSION__''))),
             (''COMPILER_VERSION_PATCH'', DEC (map_option (\<lambda>x. x mod 1000) (puse p ''__TI_COMPILER_VERSION__'')))]
     else if defd p ''__CLANG_FUJITSU''
       then [(''COMPILER_ID'', Text ''FujitsuClang''),
             (''COMPILER_VERSION_MAJOR'', DEC (puse p ''__FCC_major__'')),
             (''COMPILER_VERSION_MINOR'', DEC (puse p ''__FCC_minor__'')),
             (''COMPILER_VERSION_PATCH'', DEC (puse p ''__FCC_patchlevel__'')),
             (''COMPILER_VERSION_INTERNAL_STR'', TextMacro p ''__clang_version__'')]
     else if defd p ''__FUJITSU''
       then [(''COMPILER_ID'', Text ''Fujitsu'')]
            @ (if defd p ''__FCC_version__''
               then [(''COMPILER_VERSION'', TextMacro p ''__FCC_version__'')]
             else if defd p ''__FCC_major__''
               then [(''COMPILER_VERSION_MAJOR'', DEC (puse p ''__FCC_major__'')),
                     (''COMPILER_VERSION_MINOR'', DEC (puse p ''__FCC_minor__'')),
                     (''COMPILER_VERSION_PATCH'', DEC (puse p ''__FCC_patchlevel__''))] else [])
            @ (if defd p ''__fcc_version''
               then [(''COMPILER_VERSION_INTERNAL'', DEC (puse p ''__fcc_version''))]
             else if defd p ''__FCC_VERSION''
               then [(''COMPILER_VERSION_INTERNAL'', DEC (puse p ''__FCC_VERSION''))] else [])
     else if defd p ''__ghs__''
       then [(''COMPILER_ID'', Text ''GHS'')]
            @ (if defd p ''__GHS_VERSION_NUMBER''
               then [(''COMPILER_VERSION_MAJOR'', DEC (map_option (\<lambda>x. x div 100) (puse p ''__GHS_VERSION_NUMBER''))),
                     (''COMPILER_VERSION_MINOR'', DEC (map_option (\<lambda>x. x div 10 mod 10) (puse p ''__GHS_VERSION_NUMBER''))),
                     (''COMPILER_VERSION_PATCH'', DEC (map_option (\<lambda>x. x mod 10) (puse p ''__GHS_VERSION_NUMBER'')))] else [])
     else if defd p ''__TASKING__''
       then [(''COMPILER_ID'', Text ''Tasking''),
             (''COMPILER_VERSION_MAJOR'', DEC (map_option (\<lambda>x. x div 1000) (puse p ''__VERSION__''))),
             (''COMPILER_VERSION_MINOR'', DEC (map_option (\<lambda>x. x mod 100) (puse p ''__VERSION__''))),
             (''COMPILER_VERSION_INTERNAL'', DEC (puse p ''__VERSION__''))]
     else if defd p ''__ORANGEC__''
       then [(''COMPILER_ID'', Text ''OrangeC''),
             (''COMPILER_VERSION_MAJOR'', DEC (puse p ''__ORANGEC_MAJOR__'')),
             (''COMPILER_VERSION_MINOR'', DEC (puse p ''__ORANGEC_MINOR__'')),
             (''COMPILER_VERSION_PATCH'', DEC (puse p ''__ORANGEC_PATCHLEVEL__''))]
     else if defd p ''__TINYC__''
       then [(''COMPILER_ID'', Text ''TinyCC'')]
     else if defd p ''__BCC__''
       then [(''COMPILER_ID'', Text ''Bruce'')]
     else if defd p ''__SCO_VERSION__''
       then [(''COMPILER_ID'', Text ''SCO'')]
     else ids_vendor3 p)"

definition ids_vendor1 :: "penv \<Rightarrow> mdefs" where
  "ids_vendor1 p =
    (if defd p ''__PATHCC__''
       then [(''COMPILER_ID'', Text ''PathScale''),
             (''COMPILER_VERSION_MAJOR'', DEC (puse p ''__PATHCC__'')),
             (''COMPILER_VERSION_MINOR'', DEC (puse p ''__PATHCC_MINOR__''))]
            @ (if defd p ''__PATHCC_PATCHLEVEL__''
               then [(''COMPILER_VERSION_PATCH'', DEC (puse p ''__PATHCC_PATCHLEVEL__''))] else [])
     else if defd p ''__BORLANDC__'' \<and> defd p ''__CODEGEARC_VERSION__''
       then [(''COMPILER_ID'', Text ''Embarcadero''),
             (''COMPILER_VERSION_MAJOR'', HEX (map_option (\<lambda>x. drop_bit 24 x AND 255) (puse p ''__CODEGEARC_VERSION__''))),
             (''COMPILER_VERSION_MINOR'', HEX (map_option (\<lambda>x. drop_bit 16 x AND 255) (puse p ''__CODEGEARC_VERSION__''))),
             (''COMPILER_VERSION_PATCH'', DEC (map_option (\<lambda>x. x AND 65535) (puse p ''__CODEGEARC_VERSION__'')))]
     else if defd p ''__BORLANDC__''
       then [(''COMPILER_ID'', Text ''Borland''),
             (''COMPILER_VERSION_MAJOR'', HEX (map_option (\<lambda>x. drop_bit 8 x) (puse p ''__BORLANDC__''))),
             (''COMPILER_VERSION_MINOR'', HEX (map_option (\<lambda>x. x AND 255) (puse p ''__BORLANDC__'')))]
     else if defd p ''__WATCOMC__'' \<and> pval p ''__WATCOMC__'' < 1200
       then [(''COMPILER_ID'', Text ''Watcom''),
             (''COMPILER_VERSION_MAJOR'', DEC (map_option (\<lambda>x. x div 100) (puse p ''__WATCOMC__''))),
             (''COMPILER_VERSION_MINOR'', DEC (map_option (\<lambda>x. x div 10 mod 10) (puse p ''__WATCOMC__'')))]
            @ (if 0 < pval p ''__WATCOMC__'' mod 10
               then [(''COMPILER_VERSION_PATCH'', DEC (map_option (\<lambda>x. x mod 10) (puse p ''__WATCOMC__'')))] else [])
     else if defd p ''__WATCOMC__''
       then [(''COMPILER_ID'', Text ''OpenWatcom''),
             (''COMPILER_VERSION_MAJOR'', DEC (map_option (\<lambda>x. (x - 1100) div 100) (puse p ''__WATCOMC__''))),
             (''COMPILER_VERSION_MINOR'', DEC (map_option (\<lambda>x. x div 10 mod 10) (puse p ''__WATCOMC__'')))]
            @ (if 0 < pval p ''__WATCOMC__'' mod 10
               then [(''COMPILER_VERSION_PATCH'', DEC (map_option (\<lambda>x. x mod 10) (puse p ''__WATCOMC__'')))] else [])
     else if defd p ''__SUNPRO_C''
       then [(''COMPILER_ID'', Text ''SunPro'')]
            @ (if 20736 \<le> pval p ''__SUNPRO_C''
               then [(''COMPILER_VERSION_MAJOR'', HEX (map_option (\<lambda>x. drop_bit 12 x) (puse p ''__SUNPRO_C''))),
                     (''COMPILER_VERSION_MINOR'', HEX (map_option (\<lambda>x. drop_bit 4 x AND 255) (puse p ''__SUNPRO_C''))),
                     (''COMPILER_VERSION_PATCH'', HEX (map_option (\<lambda>x. x AND 15) (puse p ''__SUNPRO_C'')))]
             else [(''COMPILER_VERSION_MAJOR'', HEX (map_option (\<lambda>x. drop_bit 8 x) (puse p ''__SUNPRO_C''))),
                (''COMPILER_VERSION_MINOR'', HEX (map_option (\<lambda>x. drop_bit 4 x AND 15) (puse p ''__SUNPRO_C''))),
                (''COMPILER_VERSION_PATCH'', HEX (map_option (\<lambda>x. x AND 15) (puse p ''__SUNPRO_C'')))])
     else if defd p ''__HP_cc''
       then [(''COMPILER_ID'', Text ''HP''),
             (''COMPILER_VERSION_MAJOR'', DEC (map_option (\<lambda>x. x div 10000) (puse p ''__HP_cc''))),
             (''COMPILER_VERSION_MINOR'', DEC (map_option (\<lambda>x. x div 100 mod 100) (puse p ''__HP_cc''))),
             (''COMPILER_VERSION_PATCH'', DEC (map_option (\<lambda>x. x mod 100) (puse p ''__HP_cc'')))]
     else if defd p ''__DECC''
       then [(''COMPILER_ID'', Text ''Compaq''),
             (''COMPILER_VERSION_MAJOR'', DEC (map_option (\<lambda>x. x div 10000000) (puse p ''__DECC_VER''))),
             (''COMPILER_VERSION_MINOR'', DEC (map_option (\<lambda>x. x div 100000 mod 100) (puse p ''__DECC_VER''))),
             (''COMPILER_VERSION_PATCH'', DEC (map_option (\<lambda>x. x mod 10000) (puse p ''__DECC_VER'')))]
     else if defd p ''__IBMC__'' \<and> defd p ''__COMPILER_VER__''
       then [(''COMPILER_ID'', Text ''zOS''),
             (''COMPILER_VERSION_MAJOR'', DEC (map_option (\<lambda>x. x div 100) (puse p ''__IBMC__''))),
             (''COMPILER_VERSION_MINOR'', DEC (map_option (\<lambda>x. x div 10 mod 10) (puse p ''__IBMC__''))),
             (''COMPILER_VERSION_PATCH'', DEC (map_option (\<lambda>x. x mod 10) (puse p ''__IBMC__'')))]
     else if defd p ''__open_xl__'' \<and> defd p ''__clang__''
       then [(''COMPILER_ID'', Text ''IBMClang''),
             (''COMPILER_VERSION_MAJOR'', DEC (puse p ''__open_xl_version__'')),
             (''COMPILER_VERSION_MINOR'', DEC (puse p ''__open_xl_release__'')),
             (''COMPILER_VERSION_PATCH'', DEC (puse p ''__open_xl_modification__'')),
             (''COMPILER_VERSION_TWEAK'', DEC (puse p ''__open_xl_ptf_fix_level__''))]
     else if defd p ''__ibmxl__'' \<and> defd p ''__clang__''
       then [(''COMPILER_ID'', Text ''XLClang''),
             (''COMPILER_VERSION_MAJOR'', DEC (puse p ''__ibmxl_version__'')),
             (''COMPILER_VERSION_MINOR'', DEC (puse p ''__ibmxl_release__'')),
             (''COMPILER_VERSION_PATCH'', DEC (puse p ''__ibmxl_modification__'')),
             (''COMPILER_VERSION_TWEAK'', DEC (puse p ''__ibmxl_ptf_fix_level__''))]
     else if defd p ''__IBMC__'' \<and> \<not> defd p ''__COMPILER_VER__'' \<and> 800 \<le> pval p ''__IBMC__''
       then [(''COMPILER_ID'', Text ''XL''),
             (''COMPILER_VERSION_MAJOR'', DEC (map_option (\<lambda>x. x div 100) (puse p ''__IBMC__''))),
             (''COMPILER_VERSION_MINOR'', DEC (map_option (\<lambda>x. x div 10 mod 10) (puse p ''__IBMC__''))),
             (''COMPILER_VERSION_PATCH'', DEC (map_option (\<lambda>x. x mod 10) (puse p ''__IBMC__'')))]
     else if defd p ''__IBMC__'' \<and> \<not> defd p ''__COMPILER_VER__'' \<and> pval p ''__IBMC__'' < 800
       then [(''COMPILER_ID'', Text ''VisualAge''),
             (''COMPILER_VERSION_MAJOR'', DEC (map_option (\<lambda>x. x div 100) (puse p ''__IBMC__''))),
             (''COMPILER_VERSION_MINOR'', DEC (map_option (\<lambda>x. x div 10 mod 10) (puse p ''__IBMC__''))),
             (''COMPILER_VERSION_PATCH'', DEC (map_option (\<lambda>x. x mod 10) (puse p ''__IBMC__'')))]
     else ids_vendor2 p)"

definition compiler_ids :: "penv \<Rightarrow> mdefs" where
  "compiler_ids p =
    (if defd p ''__INTEL_COMPILER'' \<or> defd p ''__ICC''
       then [(''COMPILER_ID'', Text ''Intel'')]
            @ (if defd p ''_MSC_VER''
               then [(''SIMULATE_ID'', Text ''MSVC'')] else [])
            @ (if defd p ''__GNUC__''
               then [(''SIMULATE_ID'', Text ''GNU'')] else [])
            @ (if pval p ''__INTEL_COMPILER'' < 2021 \<or> pval p ''__INTEL_COMPILER'' = 202110 \<or> pval p ''__INTEL_COMPILER'' = 202111
               then [(''COMPILER_VERSION_MAJOR'', DEC (map_option (\<lambda>x. x div 100) (puse p ''__INTEL_COMPILER''))),
                     (''COMPILER_VERSION_MINOR'', DEC (map_option (\<lambda>x. x div 10 mod 10) (puse p ''__INTEL_COMPILER'')))]
                    @ (if defd p ''__INTEL_COMPILER_UPDATE''
                       then [(''COMPILER_VERSION_PATCH'', DEC (puse p ''__INTEL_COMPILER_UPDATE''))]
                     else [(''COMPILER_VERSION_PATCH'', DEC (map_option (\<lambda>x. x mod 10) (puse p ''__INTEL_COMPILER'')))])
             else [(''COMPILER_VERSION_MAJOR'', DEC (puse p ''__INTEL_COMPILER'')),
                (''COMPILER_VERSION_MINOR'', DEC (puse p ''__INTEL_COMPILER_UPDATE'')),
                (''COMPILER_VERSION_PATCH'', DEC (Some 0))])
            @ (if defd p ''__INTEL_COMPILER_BUILD_DATE''
               then [(''COMPILER_VERSION_TWEAK'', DEC (puse p ''__INTEL_COMPILER_BUILD_DATE''))] else [])
            @ (if defd p ''_MSC_VER''
               then [(''SIMULATE_VERSION_MAJOR'', DEC (map_option (\<lambda>x. x div 100) (puse p ''_MSC_VER''))),
                     (''SIMULATE_VERSION_MINOR'', DEC (map_option (\<lambda>x. x mod 100) (puse p ''_MSC_VER'')))] else [])
            @ (if defd p ''__GNUC__''
               then [(''SIMULATE_VERSION_MAJOR'', DEC (puse p ''__GNUC__''))]
             else if defd p ''__GNUG__''
               then [(''SIMULATE_VERSION_MAJOR'', DEC (puse p ''__GNUG__''))] else [])
            @ (if defd p ''__GNUC_MINOR__''
               then [(''SIMULATE_VERSION_MINOR'', DEC (puse p ''__GNUC_MINOR__''))] else [])
            @ (if defd p ''__GNUC_PATCHLEVEL__''
               then [(''SIMULATE_VERSION_PATCH'', DEC (puse p ''__GNUC_PATCHLEVEL__''))] else [])
     else if defd p ''__clang__'' \<and> defd p ''__INTEL_CLANG_COMPILER'' \<or> defd p ''__INTEL_LLVM_COMPILER''
       then [(''COMPILER_ID'', Text ''IntelLLVM'')]
            @ (if defd p ''_MSC_VER''
               then [(''SIMULATE_ID'', Text ''MSVC'')] else [])
            @ (if defd p ''__GNUC__''
               then [(''SIMULATE_ID'', Text ''GNU'')] else [])
            @ (if pval p ''__INTEL_LLVM_COMPILER'' < 1000000
               then [(''COMPILER_VERSION_MAJOR'', DEC (map_option (\<lambda>x. x div 100) (puse p ''__INTEL_LLVM_COMPILER''))),
                     (''COMPILER_VERSION_MINOR'', DEC (map_option (\<lambda>x. x div 10 mod 10) (puse p ''__INTEL_LLVM_COMPILER''))),
                     (''COMPILER_VERSION_PATCH'', DEC (map_option (\<lambda>x. x mod 10) (puse p ''__INTEL_LLVM_COMPILER'')))]
             else [(''COMPILER_VERSION_MAJOR'', DEC (map_option (\<lambda>x. x div 10000) (puse p ''__INTEL_LLVM_COMPILER''))),
                (''COMPILER_VERSION_MINOR'', DEC (map_option (\<lambda>x. x div 100 mod 100) (puse p ''__INTEL_LLVM_COMPILER''))),
                (''COMPILER_VERSION_PATCH'', DEC (map_option (\<lambda>x. x mod 100) (puse p ''__INTEL_LLVM_COMPILER'')))])
            @ (if defd p ''_MSC_VER''
               then [(''SIMULATE_VERSION_MAJOR'', DEC (map_option (\<lambda>x. x div 100) (puse p ''_MSC_VER''))),
                     (''SIMULATE_VERSION_MINOR'', DEC (map_option (\<lambda>x. x mod 100) (puse p ''_MSC_VER'')))] else [])
            @ (if defd p ''__GNUC__''
               then [(''SIMULATE_VERSION_MAJOR'', DEC (puse p ''__GNUC__''))]
             else if defd p ''__GNUG__''
               then [(''SIMULATE_VERSION_MAJOR'', DEC (puse p ''__GNUG__''))] else [])
            @ (if defd p ''__GNUC_MINOR__''
               then [(''SIMULATE_VERSION_MINOR'', DEC (puse p ''__GNUC_MINOR__''))] else [])
            @ (if defd p ''__GNUC_PATCHLEVEL__''
               then [(''SIMULATE_VERSION_PATCH'', DEC (puse p ''__GNUC_PATCHLEVEL__''))] else [])
     else ids_vendor1 p)"

section \<open>The platform and the architecture\<close>

definition platform_ids :: "penv \<Rightarrow> mdefs" where
  "platform_ids p =
    (if defd p ''__linux'' \<or> defd p ''__linux__'' \<or> defd p ''linux''
       then [(''PLATFORM_ID'', Text ''Linux'')]
     else if defd p ''__MSYS__''
       then [(''PLATFORM_ID'', Text ''MSYS'')]
     else if defd p ''__CYGWIN__''
       then [(''PLATFORM_ID'', Text ''Cygwin'')]
     else if defd p ''__MINGW32__''
       then [(''PLATFORM_ID'', Text ''MinGW'')]
     else if defd p ''__APPLE__''
       then [(''PLATFORM_ID'', Text ''Darwin'')]
     else if defd p ''_WIN32'' \<or> defd p ''__WIN32__'' \<or> defd p ''WIN32''
       then [(''PLATFORM_ID'', Text ''Windows'')]
     else if defd p ''__FreeBSD__'' \<or> defd p ''__FreeBSD''
       then [(''PLATFORM_ID'', Text ''FreeBSD'')]
     else if defd p ''__NetBSD__'' \<or> defd p ''__NetBSD''
       then [(''PLATFORM_ID'', Text ''NetBSD'')]
     else if defd p ''__OpenBSD__'' \<or> defd p ''__OPENBSD''
       then [(''PLATFORM_ID'', Text ''OpenBSD'')]
     else if defd p ''__sun'' \<or> defd p ''sun''
       then [(''PLATFORM_ID'', Text ''SunOS'')]
     else if defd p ''_AIX'' \<or> defd p ''__AIX'' \<or> defd p ''__AIX__'' \<or> defd p ''__aix'' \<or> defd p ''__aix__''
       then [(''PLATFORM_ID'', Text ''AIX'')]
     else if defd p ''__hpux'' \<or> defd p ''__hpux__''
       then [(''PLATFORM_ID'', Text ''HP-UX'')]
     else if defd p ''__HAIKU__''
       then [(''PLATFORM_ID'', Text ''Haiku'')]
     else if defd p ''__BeOS'' \<or> defd p ''__BEOS__'' \<or> defd p ''_BEOS''
       then [(''PLATFORM_ID'', Text ''BeOS'')]
     else if defd p ''__QNX__'' \<or> defd p ''__QNXNTO__''
       then [(''PLATFORM_ID'', Text ''QNX'')]
     else if defd p ''__tru64'' \<or> defd p ''_tru64'' \<or> defd p ''__TRU64__''
       then [(''PLATFORM_ID'', Text ''Tru64'')]
     else if defd p ''__riscos'' \<or> defd p ''__riscos__''
       then [(''PLATFORM_ID'', Text ''RISCos'')]
     else if defd p ''__sinix'' \<or> defd p ''__sinix__'' \<or> defd p ''__SINIX__''
       then [(''PLATFORM_ID'', Text ''SINIX'')]
     else if defd p ''__UNIX_SV__''
       then [(''PLATFORM_ID'', Text ''UNIX_SV'')]
     else if defd p ''__bsdos__''
       then [(''PLATFORM_ID'', Text ''BSDOS'')]
     else if defd p ''_MPRAS'' \<or> defd p ''MPRAS''
       then [(''PLATFORM_ID'', Text ''MP-RAS'')]
     else if defd p ''__osf'' \<or> defd p ''__osf__''
       then [(''PLATFORM_ID'', Text ''OSF1'')]
     else if defd p ''_SCO_SV'' \<or> defd p ''SCO_SV'' \<or> defd p ''sco_sv''
       then [(''PLATFORM_ID'', Text ''SCO_SV'')]
     else if defd p ''__ultrix'' \<or> defd p ''__ultrix__'' \<or> defd p ''_ULTRIX''
       then [(''PLATFORM_ID'', Text ''ULTRIX'')]
     else if defd p ''__XENIX__'' \<or> defd p ''_XENIX'' \<or> defd p ''XENIX''
       then [(''PLATFORM_ID'', Text ''Xenix'')]
     else if defd p ''__WATCOMC__''
       then (if defd p ''__LINUX__''
               then [(''PLATFORM_ID'', Text ''Linux'')]
             else if defd p ''__DOS__''
               then [(''PLATFORM_ID'', Text ''DOS'')]
             else if defd p ''__OS2__''
               then [(''PLATFORM_ID'', Text ''OS2'')]
             else if defd p ''__WINDOWS__''
               then [(''PLATFORM_ID'', Text ''Windows3x'')]
             else if defd p ''__VXWORKS__''
               then [(''PLATFORM_ID'', Text ''VxWorks'')]
             else [(''PLATFORM_ID'', Text '''')])
     else if defd p ''__INTEGRITY''
       then (if defd p ''INT_178B''
               then [(''PLATFORM_ID'', Text ''Integrity178'')]
             else [(''PLATFORM_ID'', Text ''Integrity'')])
     else if defd p ''_ADI_COMPILER''
       then [(''PLATFORM_ID'', Text ''ADSP'')]
     else [(''PLATFORM_ID'', Text '''')])"

definition arch_ids2 :: "penv \<Rightarrow> mdefs" where
  "arch_ids2 p =
    (if defd p ''__ghs__''
       then (if defd p ''__PPC64__''
               then [(''ARCHITECTURE_ID'', Text ''PPC64'')]
             else if defd p ''__ppc__''
               then [(''ARCHITECTURE_ID'', Text ''PPC'')]
             else if defd p ''__ARM__''
               then [(''ARCHITECTURE_ID'', Text ''ARM'')]
             else if defd p ''__x86_64__''
               then [(''ARCHITECTURE_ID'', Text ''x64'')]
             else if defd p ''__i386__''
               then [(''ARCHITECTURE_ID'', Text ''X86'')]
             else [(''ARCHITECTURE_ID'', Text '''')])
     else if defd p ''__TI_COMPILER_VERSION__''
       then (if defd p ''__TI_ARM__''
               then [(''ARCHITECTURE_ID'', Text ''ARM'')]
             else if defd p ''__MSP430__''
               then [(''ARCHITECTURE_ID'', Text ''MSP430'')]
             else if defd p ''__TMS320C28XX__''
               then [(''ARCHITECTURE_ID'', Text ''TMS320C28x'')]
             else if defd p ''__TMS320C6X__'' \<or> defd p ''_TMS320C6X''
               then [(''ARCHITECTURE_ID'', Text ''TMS320C6x'')]
             else [(''ARCHITECTURE_ID'', Text '''')])
     else if defd p ''__ADSPSHARC__''
       then [(''ARCHITECTURE_ID'', Text ''SHARC'')]
     else if defd p ''__ADSPBLACKFIN__''
       then [(''ARCHITECTURE_ID'', Text ''Blackfin'')]
     else if defd p ''__TASKING__''
       then (if defd p ''__CTC__'' \<or> defd p ''__CPTC__''
               then [(''ARCHITECTURE_ID'', Text ''TriCore'')]
             else if defd p ''__CMCS__''
               then [(''ARCHITECTURE_ID'', Text ''MCS'')]
             else if defd p ''__CARM__''
               then [(''ARCHITECTURE_ID'', Text ''ARM'')]
             else if defd p ''__CARC__''
               then [(''ARCHITECTURE_ID'', Text ''ARC'')]
             else if defd p ''__C51__''
               then [(''ARCHITECTURE_ID'', Text ''8051'')]
             else if defd p ''__CPCP__''
               then [(''ARCHITECTURE_ID'', Text ''PCP'')]
             else [(''ARCHITECTURE_ID'', Text '''')])
     else [(''ARCHITECTURE_ID'', Text '''')])"

definition arch_ids :: "penv \<Rightarrow> mdefs" where
  "arch_ids p =
    (if defd p ''_WIN32'' \<and> defd p ''_MSC_VER''
       then (if defd p ''_M_IA64''
               then [(''ARCHITECTURE_ID'', Text ''IA64'')]
             else if defd p ''_M_ARM64EC''
               then [(''ARCHITECTURE_ID'', Text ''ARM64EC'')]
             else if defd p ''_M_X64'' \<or> defd p ''_M_AMD64''
               then [(''ARCHITECTURE_ID'', Text ''x64'')]
             else if defd p ''_M_IX86''
               then [(''ARCHITECTURE_ID'', Text ''X86'')]
             else if defd p ''_M_ARM64''
               then [(''ARCHITECTURE_ID'', Text ''ARM64'')]
             else if defd p ''_M_ARM''
               then (if pval p ''_M_ARM'' = 4
                       then [(''ARCHITECTURE_ID'', Text ''ARMV4I'')]
                     else if pval p ''_M_ARM'' = 5
                       then [(''ARCHITECTURE_ID'', Text ''ARMV5I'')]
                     else [(''ARCHITECTURE_ID'', TextNum ''ARMV'' (puse p ''_M_ARM''))])
             else if defd p ''_M_MIPS''
               then [(''ARCHITECTURE_ID'', Text ''MIPS'')]
             else if defd p ''_M_SH''
               then [(''ARCHITECTURE_ID'', Text ''SHx'')]
             else [(''ARCHITECTURE_ID'', Text '''')])
     else if defd p ''__WATCOMC__''
       then (if defd p ''_M_I86''
               then [(''ARCHITECTURE_ID'', Text ''I86'')]
             else if defd p ''_M_IX86''
               then [(''ARCHITECTURE_ID'', Text ''X86'')]
             else [(''ARCHITECTURE_ID'', Text '''')])
     else if defd p ''__IAR_SYSTEMS_ICC__'' \<or> defd p ''__IAR_SYSTEMS_ICC''
       then (if defd p ''__ICCARM__''
               then [(''ARCHITECTURE_ID'', Text ''ARM'')]
             else if defd p ''__ICCRX__''
               then [(''ARCHITECTURE_ID'', Text ''RX'')]
             else if defd p ''__ICCRH850__''
               then [(''ARCHITECTURE_ID'', Text ''RH850'')]
             else if defd p ''__ICCRL78__''
               then [(''ARCHITECTURE_ID'', Text ''RL78'')]
             else if defd p ''__ICCRISCV__''
               then [(''ARCHITECTURE_ID'', Text ''RISCV'')]
             else if defd p ''__ICCAVR__''
               then [(''ARCHITECTURE_ID'', Text ''AVR'')]
             else if defd p ''__ICC430__''
               then [(''ARCHITECTURE_ID'', Text ''MSP430'')]
             else if defd p ''__ICCV850__''
               then [(''ARCHITECTURE_ID'', Text ''V850'')]
             else if defd p ''__ICC8051__''
               then [(''ARCHITECTURE_ID'', Text ''8051'')]
             else if defd p ''__ICCSTM8__''
               then [(''ARCHITECTURE_ID'', Text ''STM8'')]
             else [(''ARCHITECTURE_ID'', Text '''')])
     else arch_ids2 p)"

section \<open>The strings\<close>

fun cat :: "mdef list \<Rightarrow> mdef" where
  "cat [] = Some []"
| "cat (x # xs) = (case x of None \<Rightarrow> None | Some a \<Rightarrow> map_option (\<lambda>b. a @ b) (cat xs))"

definition nul :: string where "nul = [char_of (0 :: nat)]"

text \<open>A bracketed string literal with its terminator.\<close>

definition info :: "string \<Rightarrow> mdef \<Rightarrow> mdef" where
  "info label v = cat [Some (''INFO:'' @ label @ ''[''), v, Some '']'', Some nul]"

definition info_compiler :: "penv \<Rightarrow> mdef" where
  "info_compiler p = info ''compiler'' (the (mac (compiler_ids p) ''COMPILER_ID''))"

definition info_simulate :: "penv \<Rightarrow> mdef option" where
  "info_simulate p = map_option (info ''simulate'') (mac (compiler_ids p) ''SIMULATE_ID'')"

definition info_platform :: "penv \<Rightarrow> mdef" where
  "info_platform p = info ''platform'' (the (mac (platform_ids p) ''PLATFORM_ID''))"

definition info_arch :: "penv \<Rightarrow> mdef" where
  "info_arch p = info ''arch'' (the (mac (arch_ids p) ''ARCHITECTURE_ID''))"

text \<open>
  The version arrays: the components that are defined, up to the first that is not, between
  dots, and nothing when there is no major version.
\<close>

definition dotted :: "string \<Rightarrow> string \<Rightarrow> mdefs \<Rightarrow> mdef option" where
  "dotted label pre ds = (case mac ds (pre @ ''_MAJOR'') of
       None \<Rightarrow> None
     | Some major \<Rightarrow> Some (cat ([Some (''INFO:'' @ label @ ''[''), major]
         @ (case mac ds (pre @ ''_MINOR'') of None \<Rightarrow> [] | Some minor \<Rightarrow> [Some ''.'', minor]
         @ (case mac ds (pre @ ''_PATCH'') of None \<Rightarrow> [] | Some patch \<Rightarrow> [Some ''.'', patch]
         @ (case mac ds (pre @ ''_TWEAK'') of None \<Rightarrow> [] | Some tweak \<Rightarrow> [Some ''.'', tweak])))
         @ [Some '']'', Some nul])))"

definition info_version :: "penv \<Rightarrow> mdef option" where
  "info_version p = (case mac (compiler_ids p) ''COMPILER_VERSION'' of
       Some v \<Rightarrow> Some (info ''compiler_version'' v)
     | None \<Rightarrow> dotted ''compiler_version'' ''COMPILER_VERSION'' (compiler_ids p))"

definition info_version_internal :: "penv \<Rightarrow> mdef option" where
  "info_version_internal p = (case mac (compiler_ids p) ''COMPILER_VERSION_INTERNAL'' of
       Some v \<Rightarrow> Some (info ''compiler_version_internal'' v)
     | None \<Rightarrow> map_option (info ''compiler_version_internal'')
         (mac (compiler_ids p) ''COMPILER_VERSION_INTERNAL_STR''))"

definition info_simulate_version :: "penv \<Rightarrow> mdef option" where
  "info_simulate_version p = dotted ''simulate_version'' ''SIMULATE_VERSION'' (compiler_ids p)"

definition c_version :: "penv \<Rightarrow> string" where
  "c_version p =
     (if \<not> defd p ''__STDC__'' \<and> \<not> defd p ''__clang__''
      then (if defd p ''_MSC_VER'' \<or> defd p ''__ibmxl__'' \<or> defd p ''__IBMC__'' then ''90'' else '''')
      else if 201710 < pval p ''__STDC_VERSION__'' then ''23''
      else if 201710 \<le> pval p ''__STDC_VERSION__'' then ''17''
      else if 201000 \<le> pval p ''__STDC_VERSION__'' then ''11''
      else if 199901 \<le> pval p ''__STDC_VERSION__'' then ''99''
      else ''90'')"

definition info_language_standard_default :: "penv \<Rightarrow> mdef" where
  "info_language_standard_default p = info ''standard_default'' (Some (c_version p))"

definition info_language_extensions_default :: "penv \<Rightarrow> mdef" where
  "info_language_extensions_default p = info ''extensions_default''
     (if (defd p ''__clang__'' \<or> defd p ''__GNUC__'' \<or> defd p ''__xlC__'' \<or> defd p ''__TI_COMPILER_VERSION__'')
         \<and> \<not> defd p ''__STRICT_ANSI__'' then Some ''ON'' else Some ''OFF'')"

definition qnxnto :: "penv \<Rightarrow> mdef option" where
  "qnxnto p = (if defd p ''__QNXNTO__'' then Some (info ''qnxnto'' (Some '''')) else None)"

definition info_cray :: "penv \<Rightarrow> mdef option" where
  "info_cray p = (if defd p ''__CRAYXT_COMPUTE_LINUX_TARGET''
     then Some (info ''compiler_wrapper'' (Some ''CrayPrgEnv'')) else None)"

section \<open>\<open>main\<close>\<close>

text \<open>
  The references of \<open>main\<close>, in order, and the sum it returns: the characters at index
  \<open>argc\<close>.  \<open>None\<close> when the file does not compile or an index is out of range.
\<close>

definition char_at :: "mdef \<Rightarrow> nat \<Rightarrow> int option" where
  "char_at s i = (case s of None \<Rightarrow> None | Some cs \<Rightarrow> if i < length cs then Some (int (of_char (cs ! i))) else None)"

fun sum_at :: "mdef list \<Rightarrow> nat \<Rightarrow> int option" where
  "sum_at [] i = Some 0"
| "sum_at (s # ss) i = (case (char_at s i, sum_at ss i) of (Some a, Some b) \<Rightarrow> Some (a + b) | _ \<Rightarrow> None)"

definition opt :: "mdef option \<Rightarrow> mdef list" where
  "opt x = (case x of None \<Rightarrow> [] | Some s \<Rightarrow> [s])"

definition main_refs :: "penv \<Rightarrow> mdef list" where
  "main_refs p =
     [info_compiler p, info_platform p, info_arch p]
     @ (if mac (compiler_ids p) ''COMPILER_VERSION_MAJOR'' \<noteq> None then opt (info_version p) else [])
     @ (if mac (compiler_ids p) ''COMPILER_VERSION_INTERNAL'' \<noteq> None then opt (info_version_internal p) else [])
     @ opt (info_simulate p)
     @ opt (info_simulate_version p)
     @ opt (info_cray p)
     @ [info_language_standard_default p, info_language_extensions_default p]"

text \<open>
  How a probe ends: it is refused by the compiler or reads outside a string; or \<open>main\<close>
  returns a status; or \<open>main\<close> is the empty \<open>void\<close> function, whose status C leaves
  open.  The K\&R heading under \<open>__CLASSIC_C__\<close>, where \<open>const\<close> and
  \<open>volatile\<close> are defined away, declares the same function.
\<close>

datatype ending = Fails | Status int | Unspecified

definition ending_of :: "int option \<Rightarrow> ending" where
  "ending_of x = (case x of None \<Rightarrow> Fails | Some s \<Rightarrow> Status s)"

definition wrong_language :: "penv \<Rightarrow> bool" where
  "wrong_language p \<longleftrightarrow> defd p ''__cplusplus''"

definition id_void_main :: "penv \<Rightarrow> bool" where
  "id_void_main p \<longleftrightarrow> defd p ''__18CXX''"

definition probe_main :: "penv \<Rightarrow> nat \<Rightarrow> ending" where
  "probe_main p argc =
     (if wrong_language p then Fails
      else if id_void_main p then Unspecified
      else ending_of (sum_at (main_refs p) argc))"

end
