(* ===== verification/CompilerProps.thy ===== *)
theory CompilerProps
  imports CompilerId
begin

text \<open>
  What the compiler probe promises: the digit macros can be read back, a version number
  survives the printing, every chain ends in a definition, and the order of the compiler
  chain keeps compilers that imitate GCC from being taken for it.
\<close>

section \<open>Digits\<close>

definition undigit :: "char \<Rightarrow> nat" where
  "undigit c = of_char c - 48"

definition undigits :: "nat \<Rightarrow> string \<Rightarrow> nat" where
  "undigits base s = foldl (\<lambda>n c. base * n + undigit c) 0 s"

lemma undigit_digit [simp]: "d < 16 \<Longrightarrow> undigit (digit d) = d"
  by (simp add: undigit_def digit_def of_char_of)

lemma undigits_map_digit:
  "\<forall>d \<in> set ds. d < 16 \<Longrightarrow> undigits b (map digit ds) = foldl (\<lambda>n d. b * n + d) 0 ds"
  unfolding undigits_def by (induction ds rule: rev_induct) simp_all

lemma foldl_digits:
  "foldl (\<lambda>m d. b * m + d) a (map (\<lambda>k. n div b ^ k mod b) (rev [0..<k])) = a * b ^ k + (n :: nat) mod b ^ k"
proof (induction k arbitrary: a)
  case (Suc k)
  have "n mod b ^ Suc k = b ^ k * (n div b ^ k mod b) + n mod b ^ k"
    using mod_mult2_eq [of n "b ^ k" b] by (simp add: mult.commute)
  moreover have "foldl (\<lambda>m d. b * m + d) a (map (\<lambda>k. n div b ^ k mod b) (rev [0..<Suc k]))
      = (b * a + n div b ^ k mod b) * b ^ k + n mod b ^ k"
    by (simp add: Suc.IH)
  ultimately show ?case by (simp add: algebra_simps)
qed simp

lemma dec_digits_map: "dec_digits n = map digit (map (\<lambda>k. n div 10 ^ k mod 10) (rev [0..<8]))"
  by (simp add: dec_digits_def upt_rec)

lemma undigits_dec_digits: "undigits 10 (dec_digits n) = n mod 10 ^ 8"
  unfolding dec_digits_map
  by (subst undigits_map_digit) (simp_all only: foldl_digits, auto intro: less_le_trans [OF mod_less_divisor])

lemma nibble: "(n :: nat) AND 15 = n mod 16"
proof -
  have "n AND mask 4 = n mod 2 ^ 4"
    by (simp only: take_bit_eq_mask [symmetric] take_bit_eq_mod)
  then show ?thesis by (simp add: mask_eq_exp_minus_1)
qed

lemma hex_digits_map: "hex_digits n = map digit (map (\<lambda>k. n div 16 ^ k mod 16) (rev [0..<8]))"
  by (simp add: hex_digits_def upt_rec nibble drop_bit_eq_div)

lemma undigits_hex_digits: "undigits 16 (hex_digits n) = n mod 16 ^ 8"
  unfolding hex_digits_map
  by (subst undigits_map_digit) (simp_all only: foldl_digits, auto)

section \<open>Which branch is taken\<close>

lemma mac_simps:
  "mac [] x = None"
  "mac ((m, v) # ds) x = (case mac ds x of None \<Rightarrow> if m = x then Some v else None | Some w \<Rightarrow> Some w)"
  "mac (ds @ es) x = (case mac es x of None \<Rightarrow> mac ds x | Some w \<Rightarrow> Some w)"
  "mac (if c then ds else es) x = (if c then mac ds x else mac es x)"
  by (auto simp: mac_def map_add_def split: option.splits)

text \<open>The name each group of branches settles on.\<close>

lemma name_ids_vendor4:
  "mac (ids_vendor4 p) ''COMPILER_ID'' =
    (if defd p ''__GNUC__'' then Some (Text ''GNU'')
     else if defd p ''_MSC_VER'' then Some (Text ''MSVC'')
     else if defd p ''_ADI_COMPILER'' then Some (Text ''ADSP'')
     else if defd p ''__IAR_SYSTEMS_ICC__'' \<or> defd p ''__IAR_SYSTEMS_ICC'' then Some (Text ''IAR'')
     else if defd p ''__SDCC_VERSION_MAJOR'' \<or> defd p ''SDCC'' then Some (Text ''SDCC'')
     else if defd p ''__hpux'' \<or> defd p ''__hpua'' then Some (Text ''HP'')
     else Some (Text ''''))"
  by (simp add: ids_vendor4_def mac_simps cong del: if_weak_cong)

lemma name_ids_vendor3:
  "mac (ids_vendor3 p) ''COMPILER_ID'' =
    (if defd p ''__ARMCC_VERSION'' \<and> \<not> defd p ''__clang__'' then Some (Text ''ARMCC'')
     else if defd p ''__clang__'' \<and> defd p ''__apple_build_version__'' then Some (Text ''AppleClang'')
     else if defd p ''__clang__'' \<and> defd p ''__ARMCOMPILER_VERSION'' then Some (Text ''ARMClang'')
     else if defd p ''__clang__'' then Some (Text ''Clang'')
     else if defd p ''__LCC__'' \<and> (defd p ''__GNUC__'' \<or> defd p ''__GNUG__'' \<or> defd p ''__MCST__'') then Some (Text ''LCC'')
     else mac (ids_vendor4 p) ''COMPILER_ID'')"
  by (simp add: ids_vendor3_def mac_simps cong del: if_weak_cong)

lemma name_ids_vendor2:
  "mac (ids_vendor2 p) ''COMPILER_ID'' =
    (if defd p ''__NVCOMPILER'' then Some (Text ''NVHPC'')
     else if defd p ''__PGI'' then Some (Text ''PGI'')
     else if defd p ''__clang__'' \<and> defd p ''__cray__'' then Some (Text ''CrayClang'')
     else if defd p ''_CRAYC'' then Some (Text ''Cray'')
     else if defd p ''__TI_COMPILER_VERSION__'' then Some (Text ''TI'')
     else if defd p ''__CLANG_FUJITSU'' then Some (Text ''FujitsuClang'')
     else if defd p ''__FUJITSU'' then Some (Text ''Fujitsu'')
     else if defd p ''__ghs__'' then Some (Text ''GHS'')
     else if defd p ''__TASKING__'' then Some (Text ''Tasking'')
     else if defd p ''__ORANGEC__'' then Some (Text ''OrangeC'')
     else if defd p ''__TINYC__'' then Some (Text ''TinyCC'')
     else if defd p ''__BCC__'' then Some (Text ''Bruce'')
     else if defd p ''__SCO_VERSION__'' then Some (Text ''SCO'')
     else mac (ids_vendor3 p) ''COMPILER_ID'')"
  by (simp add: ids_vendor2_def mac_simps cong del: if_weak_cong)

lemma name_ids_vendor1:
  "mac (ids_vendor1 p) ''COMPILER_ID'' =
    (if defd p ''__PATHCC__'' then Some (Text ''PathScale'')
     else if defd p ''__BORLANDC__'' \<and> defd p ''__CODEGEARC_VERSION__'' then Some (Text ''Embarcadero'')
     else if defd p ''__BORLANDC__'' then Some (Text ''Borland'')
     else if defd p ''__WATCOMC__'' \<and> pval p ''__WATCOMC__'' < 1200 then Some (Text ''Watcom'')
     else if defd p ''__WATCOMC__'' then Some (Text ''OpenWatcom'')
     else if defd p ''__SUNPRO_C'' then Some (Text ''SunPro'')
     else if defd p ''__HP_cc'' then Some (Text ''HP'')
     else if defd p ''__DECC'' then Some (Text ''Compaq'')
     else if defd p ''__IBMC__'' \<and> defd p ''__COMPILER_VER__'' then Some (Text ''zOS'')
     else if defd p ''__open_xl__'' \<and> defd p ''__clang__'' then Some (Text ''IBMClang'')
     else if defd p ''__ibmxl__'' \<and> defd p ''__clang__'' then Some (Text ''XLClang'')
     else if defd p ''__IBMC__'' \<and> \<not> defd p ''__COMPILER_VER__'' \<and> 800 \<le> pval p ''__IBMC__'' then Some (Text ''XL'')
     else if defd p ''__IBMC__'' \<and> \<not> defd p ''__COMPILER_VER__'' \<and> pval p ''__IBMC__'' < 800 then Some (Text ''VisualAge'')
     else mac (ids_vendor2 p) ''COMPILER_ID'')"
  by (simp add: ids_vendor1_def mac_simps cong del: if_weak_cong)

lemma name_compiler_ids:
  "mac (compiler_ids p) ''COMPILER_ID'' =
    (if defd p ''__INTEL_COMPILER'' \<or> defd p ''__ICC'' then Some (Text ''Intel'')
     else if defd p ''__clang__'' \<and> defd p ''__INTEL_CLANG_COMPILER'' \<or> defd p ''__INTEL_LLVM_COMPILER'' then Some (Text ''IntelLLVM'')
     else mac (ids_vendor1 p) ''COMPILER_ID'')"
  by (simp add: compiler_ids_def mac_simps cong del: if_weak_cong)

lemmas names = name_compiler_ids name_ids_vendor1 name_ids_vendor2 name_ids_vendor3 name_ids_vendor4

text \<open>A property of an \<open>if\<close> chain, branch by branch.\<close>

definition named :: "mdef option \<Rightarrow> bool" where
  "named m \<longleftrightarrow> m \<noteq> None \<and> m \<noteq> Some None"

definition other_than :: "string \<Rightarrow> mdef option \<Rightarrow> bool" where
  "other_than s m \<longleftrightarrow> m \<noteq> Some (Some s)"

lemma named_Text: "named (Some (Text s))"
  by (simp add: named_def Text_def)

lemma named_if: "(c \<Longrightarrow> named a) \<Longrightarrow> (\<not> c \<Longrightarrow> named b) \<Longrightarrow> named (if c then a else b)"
  by simp

lemma other_if: "(c \<Longrightarrow> other_than s a) \<Longrightarrow> (\<not> c \<Longrightarrow> other_than s b) \<Longrightarrow> other_than s (if c then a else b)"
  by simp

lemma other_both: "other_than s a \<Longrightarrow> other_than s b \<Longrightarrow> other_than s (if c then a else b)"
  by simp

lemma other_Text: "t \<noteq> s \<Longrightarrow> other_than s (Some (Text t))"
  by (simp add: other_than_def Text_def)

lemma named_vendors:
  "named (mac (ids_vendor4 p) ''COMPILER_ID'')" "named (mac (ids_vendor3 p) ''COMPILER_ID'')"
  "named (mac (ids_vendor2 p) ''COMPILER_ID'')" "named (mac (ids_vendor1 p) ''COMPILER_ID'')"
proof -
  show 4: "named (mac (ids_vendor4 p) ''COMPILER_ID'')"
    unfolding name_ids_vendor4 by (intro named_if named_Text)
  show 3: "named (mac (ids_vendor3 p) ''COMPILER_ID'')"
    unfolding name_ids_vendor3 by (intro named_if named_Text 4)
  show 2: "named (mac (ids_vendor2 p) ''COMPILER_ID'')"
    unfolding name_ids_vendor2 by (intro named_if named_Text 3)
  show 1: "named (mac (ids_vendor1 p) ''COMPILER_ID'')"
    unfolding name_ids_vendor1 by (intro named_if named_Text 2)
qed

lemma named_compiler: "named (mac (compiler_ids p) ''COMPILER_ID'')"
  unfolding name_compiler_ids by (intro named_if named_Text named_vendors)

lemma named_mac_one: "named (mac [(x, Text s)] x)"
  by (simp add: mac_def named_def Text_def)

lemma named_mac_if:
  "(c \<Longrightarrow> named (mac a x)) \<Longrightarrow> (\<not> c \<Longrightarrow> named (mac b x)) \<Longrightarrow> named (mac (if c then a else b) x)"
  by simp

lemma named_platform: "named (mac (platform_ids p) ''PLATFORM_ID'')"
  unfolding platform_ids_def by (intro named_mac_if named_mac_one)

text \<open>Past the Clang branches a compiler that defines \<open>__clang__\<close> does not come.\<close>

lemma clang_vendor3:
  assumes "defd p ''__clang__''" and "s \<in> {''GNU'', ''MSVC''}"
  shows "other_than s (mac (ids_vendor3 p) ''COMPILER_ID'')"
  unfolding name_ids_vendor3 by (intro other_if other_Text) (use assms in auto)

lemma clang_other:
  assumes "defd p ''__clang__''" and "s \<in> {''GNU'', ''MSVC''}"
  shows "other_than s (mac (compiler_ids p) ''COMPILER_ID'')"
proof -
  note 3 = clang_vendor3 [OF assms]
  have 2: "other_than s (mac (ids_vendor2 p) ''COMPILER_ID'')"
    unfolding name_ids_vendor2 by (intro other_both other_Text 3) (use assms(2) in auto)
  have 1: "other_than s (mac (ids_vendor1 p) ''COMPILER_ID'')"
    unfolding name_ids_vendor1 by (intro other_both other_Text 2) (use assms(2) in auto)
  show ?thesis
    unfolding name_compiler_ids by (intro other_both other_Text 1) (use assms(2) in auto)
qed

section \<open>GCC on Linux\<close>

text \<open>The predefined macros of GCC \<open>a.b.c\<close> for C17 that the probe asks about.\<close>

definition gcc :: "nat \<Rightarrow> nat \<Rightarrow> nat \<Rightarrow> penv" where
  "gcc a b c = \<lparr>pnum = [''__GNUC__'' \<mapsto> a, ''__GNUC_MINOR__'' \<mapsto> b, ''__GNUC_PATCHLEVEL__'' \<mapsto> c,
     ''__linux__'' \<mapsto> 1, ''__x86_64__'' \<mapsto> 1, ''__STDC__'' \<mapsto> 1, ''__STDC_VERSION__'' \<mapsto> 201710], pstr = Map.empty\<rparr>"

lemma gcc_ids: "compiler_ids (gcc a b c) = [(''COMPILER_ID'', Text ''GNU''),
    (''COMPILER_VERSION_MAJOR'', DEC (Some a)), (''COMPILER_VERSION_MINOR'', DEC (Some b)),
    (''COMPILER_VERSION_PATCH'', DEC (Some c))]"
  by (simp add: gcc_def compiler_ids_def ids_vendor1_def ids_vendor2_def ids_vendor3_def ids_vendor4_def
      defd_def puse_def)

lemma gcc_platform: "platform_ids (gcc a b c) = [(''PLATFORM_ID'', Text ''Linux'')]"
  by (simp add: gcc_def platform_ids_def defd_def)

text \<open>
  \<open>DEC\<close> prints the last eight decimal digits of a number and \<open>HEX\<close> its last
  eight hexadecimal ones, most significant first; read back in their base they give the
  number modulo \<open>10 ^ 8\<close> and \<open>2 ^ 32\<close>.
\<close>

lemma digits_roundtrip:
  "undigits 10 (dec_digits n) = n mod 10 ^ 8 \<and> length (dec_digits n) = 8
   \<and> undigits 16 (hex_digits n) = n mod 2 ^ 32 \<and> length (hex_digits n) = 8"
  using undigits_dec_digits [of n] undigits_hex_digits [of n]
  by (simp add: dec_digits_def hex_digits_def)

text \<open>
  Whatever the compiler predefines, the compiler and platform chains define their
  macro exactly as a string, so \<open>info_compiler\<close> and \<open>info_platform\<close> compile.
\<close>

lemma probe_names_total:
  "\<exists>s t. info_compiler p = Some s \<and> info_platform p = Some t"
  using named_compiler [of p] named_platform [of p]
  by (auto simp: named_def info_compiler_def info_platform_def info_def)

end
