(* ===== verification/CompilerIdCxx22.thy ===== *)
theory CompilerIdCxx22
  imports CompilerId
begin

text \<open>
  The C++ probe of CMake 3.22.1, which an older build tree keeps,
  \<open>build/CMakeFiles/3.22.1/CompilerIdCXX/\<close>
  \<open>CMakeCXXCompilerId.cpp\<close>, over the preprocessor of \<open>CompilerId\<close>.
  Its \<open>main\<close> does not refer to \<open>info_arch\<close>.
\<close>

section \<open>The compiler\<close>

definition ids_vendor4_cxx22 :: "penv \<Rightarrow> mdefs" where
  "ids_vendor4_cxx22 p =
    (if defd p ''__GNUC__'' \<or> defd p ''__GNUG__''
       then [(''COMPILER_ID'', Text ''GNU'')]
            @ (if defd p ''__GNUC__''
               then [(''COMPILER_VERSION_MAJOR'', DEC (puse p ''__GNUC__''))]
             else [(''COMPILER_VERSION_MAJOR'', DEC (puse p ''__GNUG__''))])
            @ (if defd p ''__GNUC_MINOR__''
               then [(''COMPILER_VERSION_MINOR'', DEC (puse p ''__GNUC_MINOR__''))] else [])
            @ (if defd p ''__GNUC_PATCHLEVEL__''
               then [(''COMPILER_VERSION_PATCH'', DEC (puse p ''__GNUC_PATCHLEVEL__''))] else [])
     else if defd p ''_MSC_VER''
       then [(''COMPILER_ID'', Text ''MSVC''),
             (''COMPILER_VERSION_MAJOR'', DEC (map_option (\<lambda>x. x div 100) (puse p ''_MSC_VER''))),
             (''COMPILER_VERSION_MINOR'', DEC (map_option (\<lambda>x. x mod 100) (puse p ''_MSC_VER'')))]
            @ (if defd p ''_MSC_FULL_VER''
               then (if 1400 \<le> pval p ''_MSC_VER''
                       then [(''COMPILER_VERSION_PATCH'', DEC (map_option (\<lambda>x. x mod 100000) (puse p ''_MSC_FULL_VER'')))]
                     else [(''COMPILER_VERSION_PATCH'', DEC (map_option (\<lambda>x. x mod 10000) (puse p ''_MSC_FULL_VER'')))]) else [])
            @ (if defd p ''_MSC_BUILD''
               then [(''COMPILER_VERSION_TWEAK'', DEC (puse p ''_MSC_BUILD''))] else [])
     else if defd p ''__VISUALDSPVERSION__'' \<or> defd p ''__ADSPBLACKFIN__'' \<or> defd p ''__ADSPTS__'' \<or> defd p ''__ADSP21000__''
       then [(''COMPILER_ID'', Text ''ADSP'')]
            @ (if defd p ''__VISUALDSPVERSION__''
               then [(''COMPILER_VERSION_MAJOR'', HEX (map_option (\<lambda>x. drop_bit 24 x) (puse p ''__VISUALDSPVERSION__''))),
                     (''COMPILER_VERSION_MINOR'', HEX (map_option (\<lambda>x. drop_bit 16 x AND 255) (puse p ''__VISUALDSPVERSION__''))),
                     (''COMPILER_VERSION_PATCH'', HEX (map_option (\<lambda>x. drop_bit 8 x AND 255) (puse p ''__VISUALDSPVERSION__'')))] else [])
     else if defd p ''__IAR_SYSTEMS_ICC__'' \<or> defd p ''__IAR_SYSTEMS_ICC''
       then [(''COMPILER_ID'', Text ''IAR'')]
            @ (if defd p ''__VER__'' \<and> defd p ''__ICCARM__''
               then [(''COMPILER_VERSION_MAJOR'', DEC (map_option (\<lambda>x. x div 1000000) (puse p ''__VER__''))),
                     (''COMPILER_VERSION_MINOR'', DEC (map_option (\<lambda>x. x div 1000 mod 1000) (puse p ''__VER__''))),
                     (''COMPILER_VERSION_PATCH'', DEC (map_option (\<lambda>x. x mod 1000) (puse p ''__VER__''))),
                     (''COMPILER_VERSION_INTERNAL'', DEC (puse p ''__IAR_SYSTEMS_ICC__''))]
             else if defd p ''__VER__'' \<and> (defd p ''__ICCAVR__'' \<or> defd p ''__ICCRX__'' \<or> defd p ''__ICCRH850__'' \<or> defd p ''__ICCRL78__'' \<or> defd p ''__ICC430__'' \<or> defd p ''__ICCRISCV__'' \<or> defd p ''__ICCV850__'' \<or> defd p ''__ICC8051__'' \<or> defd p ''__ICCSTM8__'')
               then [(''COMPILER_VERSION_MAJOR'', DEC (map_option (\<lambda>x. x div 100) (puse p ''__VER__''))),
                     (''COMPILER_VERSION_MINOR'', DEC (map_option (\<lambda>x. x - x div 100 * 100) (puse p ''__VER__''))),
                     (''COMPILER_VERSION_PATCH'', DEC (puse p ''__SUBVERSION__'')),
                     (''COMPILER_VERSION_INTERNAL'', DEC (puse p ''__IAR_SYSTEMS_ICC__''))] else [])
     else if defd p ''__hpux'' \<or> defd p ''__hpua''
       then [(''COMPILER_ID'', Text ''HP'')]
     else [(''COMPILER_ID'', Text '''')])"

definition ids_vendor3_cxx22 :: "penv \<Rightarrow> mdefs" where
  "ids_vendor3_cxx22 p =
    (if defd p ''__ARMCC_VERSION'' \<and> \<not> defd p ''__clang__''
       then [(''COMPILER_ID'', Text ''ARMCC'')]
            @ (if 1000000 \<le> pval p ''__ARMCC_VERSION''
               then [(''COMPILER_VERSION_MAJOR'', DEC (map_option (\<lambda>x. x div 1000000) (puse p ''__ARMCC_VERSION''))),
                     (''COMPILER_VERSION_MINOR'', DEC (map_option (\<lambda>x. x div 10000 mod 100) (puse p ''__ARMCC_VERSION''))),
                     (''COMPILER_VERSION_PATCH'', DEC (map_option (\<lambda>x. x mod 10000) (puse p ''__ARMCC_VERSION'')))]
             else [(''COMPILER_VERSION_MAJOR'', DEC (map_option (\<lambda>x. x div 100000) (puse p ''__ARMCC_VERSION''))),
                (''COMPILER_VERSION_MINOR'', DEC (map_option (\<lambda>x. x div 10000 mod 10) (puse p ''__ARMCC_VERSION''))),
                (''COMPILER_VERSION_PATCH'', DEC (map_option (\<lambda>x. x mod 10000) (puse p ''__ARMCC_VERSION'')))])
     else if defd p ''__clang__'' \<and> defd p ''__apple_build_version__''
       then [(''COMPILER_ID'', Text ''AppleClang'')]
            @ (if defd p ''_MSC_VER''
               then [(''SIMULATE_ID'', Text ''MSVC'')] else [])
            @ [(''COMPILER_VERSION_MAJOR'', DEC (puse p ''__clang_major__'')),
             (''COMPILER_VERSION_MINOR'', DEC (puse p ''__clang_minor__'')),
             (''COMPILER_VERSION_PATCH'', DEC (puse p ''__clang_patchlevel__''))]
            @ (if defd p ''_MSC_VER''
               then [(''SIMULATE_VERSION_MAJOR'', DEC (map_option (\<lambda>x. x div 100) (puse p ''_MSC_VER''))),
                     (''SIMULATE_VERSION_MINOR'', DEC (map_option (\<lambda>x. x mod 100) (puse p ''_MSC_VER'')))] else [])
            @ [(''COMPILER_VERSION_TWEAK'', DEC (puse p ''__apple_build_version__''))]
     else if defd p ''__clang__'' \<and> defd p ''__ARMCOMPILER_VERSION''
       then [(''COMPILER_ID'', Text ''ARMClang''),
             (''COMPILER_VERSION_MAJOR'', DEC (map_option (\<lambda>x. x div 1000000) (puse p ''__ARMCOMPILER_VERSION''))),
             (''COMPILER_VERSION_MINOR'', DEC (map_option (\<lambda>x. x div 10000 mod 100) (puse p ''__ARMCOMPILER_VERSION''))),
             (''COMPILER_VERSION_PATCH'', DEC (map_option (\<lambda>x. x mod 10000) (puse p ''__ARMCOMPILER_VERSION''))),
             (''COMPILER_VERSION_INTERNAL'', DEC (puse p ''__ARMCOMPILER_VERSION''))]
     else if defd p ''__clang__''
       then [(''COMPILER_ID'', Text ''Clang'')]
            @ (if defd p ''_MSC_VER''
               then [(''SIMULATE_ID'', Text ''MSVC'')] else [])
            @ [(''COMPILER_VERSION_MAJOR'', DEC (puse p ''__clang_major__'')),
             (''COMPILER_VERSION_MINOR'', DEC (puse p ''__clang_minor__'')),
             (''COMPILER_VERSION_PATCH'', DEC (puse p ''__clang_patchlevel__''))]
            @ (if defd p ''_MSC_VER''
               then [(''SIMULATE_VERSION_MAJOR'', DEC (map_option (\<lambda>x. x div 100) (puse p ''_MSC_VER''))),
                     (''SIMULATE_VERSION_MINOR'', DEC (map_option (\<lambda>x. x mod 100) (puse p ''_MSC_VER'')))] else [])
     else ids_vendor4_cxx22 p)"

definition ids_vendor2_cxx22 :: "penv \<Rightarrow> mdefs" where
  "ids_vendor2_cxx22 p =
    (if defd p ''__NVCOMPILER''
       then [(''COMPILER_ID'', Text ''NVHPC''),
             (''COMPILER_VERSION_MAJOR'', DEC (puse p ''__NVCOMPILER_MAJOR__'')),
             (''COMPILER_VERSION_MINOR'', DEC (puse p ''__NVCOMPILER_MINOR__''))]
            @ (if defd p ''__NVCOMPILER_PATCHLEVEL__''
               then [(''COMPILER_VERSION_PATCH'', DEC (puse p ''__NVCOMPILER_PATCHLEVEL__''))] else [])
     else if defd p ''__PGI''
       then [(''COMPILER_ID'', Text ''PGI''),
             (''COMPILER_VERSION_MAJOR'', DEC (puse p ''__PGIC__'')),
             (''COMPILER_VERSION_MINOR'', DEC (puse p ''__PGIC_MINOR__''))]
            @ (if defd p ''__PGIC_PATCHLEVEL__''
               then [(''COMPILER_VERSION_PATCH'', DEC (puse p ''__PGIC_PATCHLEVEL__''))] else [])
     else if defd p ''_CRAYC''
       then [(''COMPILER_ID'', Text ''Cray''),
             (''COMPILER_VERSION_MAJOR'', DEC (puse p ''_RELEASE_MAJOR'')),
             (''COMPILER_VERSION_MINOR'', DEC (puse p ''_RELEASE_MINOR''))]
     else if defd p ''__TI_COMPILER_VERSION__''
       then [(''COMPILER_ID'', Text ''TI''),
             (''COMPILER_VERSION_MAJOR'', DEC (map_option (\<lambda>x. x div 1000000) (puse p ''__TI_COMPILER_VERSION__''))),
             (''COMPILER_VERSION_MINOR'', DEC (map_option (\<lambda>x. x div 1000 mod 1000) (puse p ''__TI_COMPILER_VERSION__''))),
             (''COMPILER_VERSION_PATCH'', DEC (map_option (\<lambda>x. x mod 1000) (puse p ''__TI_COMPILER_VERSION__'')))]
     else if defd p ''__CLANG_FUJITSU''
       then [(''COMPILER_ID'', Text ''FujitsuClang''),
             (''COMPILER_VERSION_MAJOR'', DEC (puse p ''__FCC_major__'')),
             (''COMPILER_VERSION_MINOR'', DEC (puse p ''__FCC_minor__'')),
             (''COMPILER_VERSION_PATCH'', DEC (puse p ''__FCC_patchlevel__'')),
             (''COMPILER_VERSION_INTERNAL_STR'', TextMacro p ''__clang_version__'')]
     else if defd p ''__FUJITSU''
       then [(''COMPILER_ID'', Text ''Fujitsu'')]
            @ (if defd p ''__FCC_version__''
               then [(''COMPILER_VERSION'', TextMacro p ''__FCC_version__'')]
             else if defd p ''__FCC_major__''
               then [(''COMPILER_VERSION_MAJOR'', DEC (puse p ''__FCC_major__'')),
                     (''COMPILER_VERSION_MINOR'', DEC (puse p ''__FCC_minor__'')),
                     (''COMPILER_VERSION_PATCH'', DEC (puse p ''__FCC_patchlevel__''))] else [])
            @ (if defd p ''__fcc_version''
               then [(''COMPILER_VERSION_INTERNAL'', DEC (puse p ''__fcc_version''))]
             else if defd p ''__FCC_VERSION''
               then [(''COMPILER_VERSION_INTERNAL'', DEC (puse p ''__FCC_VERSION''))] else [])
     else if defd p ''__ghs__''
       then [(''COMPILER_ID'', Text ''GHS'')]
            @ (if defd p ''__GHS_VERSION_NUMBER''
               then [(''COMPILER_VERSION_MAJOR'', DEC (map_option (\<lambda>x. x div 100) (puse p ''__GHS_VERSION_NUMBER''))),
                     (''COMPILER_VERSION_MINOR'', DEC (map_option (\<lambda>x. x div 10 mod 10) (puse p ''__GHS_VERSION_NUMBER''))),
                     (''COMPILER_VERSION_PATCH'', DEC (map_option (\<lambda>x. x mod 10) (puse p ''__GHS_VERSION_NUMBER'')))] else [])
     else if defd p ''__SCO_VERSION__''
       then [(''COMPILER_ID'', Text ''SCO'')]
     else ids_vendor3_cxx22 p)"

definition ids_vendor1_cxx22 :: "penv \<Rightarrow> mdefs" where
  "ids_vendor1_cxx22 p =
    (if defd p ''__PATHCC__''
       then [(''COMPILER_ID'', Text ''PathScale''),
             (''COMPILER_VERSION_MAJOR'', DEC (puse p ''__PATHCC__'')),
             (''COMPILER_VERSION_MINOR'', DEC (puse p ''__PATHCC_MINOR__''))]
            @ (if defd p ''__PATHCC_PATCHLEVEL__''
               then [(''COMPILER_VERSION_PATCH'', DEC (puse p ''__PATHCC_PATCHLEVEL__''))] else [])
     else if defd p ''__BORLANDC__'' \<and> defd p ''__CODEGEARC_VERSION__''
       then [(''COMPILER_ID'', Text ''Embarcadero''),
             (''COMPILER_VERSION_MAJOR'', HEX (map_option (\<lambda>x. drop_bit 24 x AND 255) (puse p ''__CODEGEARC_VERSION__''))),
             (''COMPILER_VERSION_MINOR'', HEX (map_option (\<lambda>x. drop_bit 16 x AND 255) (puse p ''__CODEGEARC_VERSION__''))),
             (''COMPILER_VERSION_PATCH'', DEC (map_option (\<lambda>x. x AND 65535) (puse p ''__CODEGEARC_VERSION__'')))]
     else if defd p ''__BORLANDC__''
       then [(''COMPILER_ID'', Text ''Borland''),
             (''COMPILER_VERSION_MAJOR'', HEX (map_option (\<lambda>x. drop_bit 8 x) (puse p ''__BORLANDC__''))),
             (''COMPILER_VERSION_MINOR'', HEX (map_option (\<lambda>x. x AND 255) (puse p ''__BORLANDC__'')))]
     else if defd p ''__WATCOMC__'' \<and> pval p ''__WATCOMC__'' < 1200
       then [(''COMPILER_ID'', Text ''Watcom''),
             (''COMPILER_VERSION_MAJOR'', DEC (map_option (\<lambda>x. x div 100) (puse p ''__WATCOMC__''))),
             (''COMPILER_VERSION_MINOR'', DEC (map_option (\<lambda>x. x div 10 mod 10) (puse p ''__WATCOMC__'')))]
            @ (if 0 < pval p ''__WATCOMC__'' mod 10
               then [(''COMPILER_VERSION_PATCH'', DEC (map_option (\<lambda>x. x mod 10) (puse p ''__WATCOMC__'')))] else [])
     else if defd p ''__WATCOMC__''
       then [(''COMPILER_ID'', Text ''OpenWatcom''),
             (''COMPILER_VERSION_MAJOR'', DEC (map_option (\<lambda>x. (x - 1100) div 100) (puse p ''__WATCOMC__''))),
             (''COMPILER_VERSION_MINOR'', DEC (map_option (\<lambda>x. x div 10 mod 10) (puse p ''__WATCOMC__'')))]
            @ (if 0 < pval p ''__WATCOMC__'' mod 10
               then [(''COMPILER_VERSION_PATCH'', DEC (map_option (\<lambda>x. x mod 10) (puse p ''__WATCOMC__'')))] else [])
     else if defd p ''__SUNPRO_CC''
       then [(''COMPILER_ID'', Text ''SunPro'')]
            @ (if 20736 \<le> pval p ''__SUNPRO_CC''
               then [(''COMPILER_VERSION_MAJOR'', HEX (map_option (\<lambda>x. drop_bit 12 x) (puse p ''__SUNPRO_CC''))),
                     (''COMPILER_VERSION_MINOR'', HEX (map_option (\<lambda>x. drop_bit 4 x AND 255) (puse p ''__SUNPRO_CC''))),
                     (''COMPILER_VERSION_PATCH'', HEX (map_option (\<lambda>x. x AND 15) (puse p ''__SUNPRO_CC'')))]
             else [(''COMPILER_VERSION_MAJOR'', HEX (map_option (\<lambda>x. drop_bit 8 x) (puse p ''__SUNPRO_CC''))),
                (''COMPILER_VERSION_MINOR'', HEX (map_option (\<lambda>x. drop_bit 4 x AND 15) (puse p ''__SUNPRO_CC''))),
                (''COMPILER_VERSION_PATCH'', HEX (map_option (\<lambda>x. x AND 15) (puse p ''__SUNPRO_CC'')))])
     else if defd p ''__HP_aCC''
       then [(''COMPILER_ID'', Text ''HP''),
             (''COMPILER_VERSION_MAJOR'', DEC (map_option (\<lambda>x. x div 10000) (puse p ''__HP_aCC''))),
             (''COMPILER_VERSION_MINOR'', DEC (map_option (\<lambda>x. x div 100 mod 100) (puse p ''__HP_aCC''))),
             (''COMPILER_VERSION_PATCH'', DEC (map_option (\<lambda>x. x mod 100) (puse p ''__HP_aCC'')))]
     else if defd p ''__DECCXX''
       then [(''COMPILER_ID'', Text ''Compaq''),
             (''COMPILER_VERSION_MAJOR'', DEC (map_option (\<lambda>x. x div 10000000) (puse p ''__DECCXX_VER''))),
             (''COMPILER_VERSION_MINOR'', DEC (map_option (\<lambda>x. x div 100000 mod 100) (puse p ''__DECCXX_VER''))),
             (''COMPILER_VERSION_PATCH'', DEC (map_option (\<lambda>x. x mod 10000) (puse p ''__DECCXX_VER'')))]
     else if defd p ''__IBMCPP__'' \<and> defd p ''__COMPILER_VER__''
       then [(''COMPILER_ID'', Text ''zOS''),
             (''COMPILER_VERSION_MAJOR'', DEC (map_option (\<lambda>x. x div 100) (puse p ''__IBMCPP__''))),
             (''COMPILER_VERSION_MINOR'', DEC (map_option (\<lambda>x. x div 10 mod 10) (puse p ''__IBMCPP__''))),
             (''COMPILER_VERSION_PATCH'', DEC (map_option (\<lambda>x. x mod 10) (puse p ''__IBMCPP__'')))]
     else if defd p ''__ibmxl__'' \<and> defd p ''__clang__''
       then [(''COMPILER_ID'', Text ''XLClang''),
             (''COMPILER_VERSION_MAJOR'', DEC (puse p ''__ibmxl_version__'')),
             (''COMPILER_VERSION_MINOR'', DEC (puse p ''__ibmxl_release__'')),
             (''COMPILER_VERSION_PATCH'', DEC (puse p ''__ibmxl_modification__'')),
             (''COMPILER_VERSION_TWEAK'', DEC (puse p ''__ibmxl_ptf_fix_level__''))]
     else if defd p ''__IBMCPP__'' \<and> \<not> defd p ''__COMPILER_VER__'' \<and> 800 \<le> pval p ''__IBMCPP__''
       then [(''COMPILER_ID'', Text ''XL''),
             (''COMPILER_VERSION_MAJOR'', DEC (map_option (\<lambda>x. x div 100) (puse p ''__IBMCPP__''))),
             (''COMPILER_VERSION_MINOR'', DEC (map_option (\<lambda>x. x div 10 mod 10) (puse p ''__IBMCPP__''))),
             (''COMPILER_VERSION_PATCH'', DEC (map_option (\<lambda>x. x mod 10) (puse p ''__IBMCPP__'')))]
     else if defd p ''__IBMCPP__'' \<and> \<not> defd p ''__COMPILER_VER__'' \<and> pval p ''__IBMCPP__'' < 800
       then [(''COMPILER_ID'', Text ''VisualAge''),
             (''COMPILER_VERSION_MAJOR'', DEC (map_option (\<lambda>x. x div 100) (puse p ''__IBMCPP__''))),
             (''COMPILER_VERSION_MINOR'', DEC (map_option (\<lambda>x. x div 10 mod 10) (puse p ''__IBMCPP__''))),
             (''COMPILER_VERSION_PATCH'', DEC (map_option (\<lambda>x. x mod 10) (puse p ''__IBMCPP__'')))]
     else ids_vendor2_cxx22 p)"

definition compiler_ids_cxx22 :: "penv \<Rightarrow> mdefs" where
  "compiler_ids_cxx22 p =
    (if defd p ''__COMO__''
       then [(''COMPILER_ID'', Text ''Comeau''),
             (''COMPILER_VERSION_MAJOR'', DEC (map_option (\<lambda>x. x div 100) (puse p ''__COMO_VERSION__''))),
             (''COMPILER_VERSION_MINOR'', DEC (map_option (\<lambda>x. x mod 100) (puse p ''__COMO_VERSION__'')))]
     else if defd p ''__INTEL_COMPILER'' \<or> defd p ''__ICC''
       then [(''COMPILER_ID'', Text ''Intel'')]
            @ (if defd p ''_MSC_VER''
               then [(''SIMULATE_ID'', Text ''MSVC'')] else [])
            @ (if defd p ''__GNUC__''
               then [(''SIMULATE_ID'', Text ''GNU'')] else [])
            @ (if pval p ''__INTEL_COMPILER'' < 2021 \<or> pval p ''__INTEL_COMPILER'' = 202110 \<or> pval p ''__INTEL_COMPILER'' = 202111
               then [(''COMPILER_VERSION_MAJOR'', DEC (map_option (\<lambda>x. x div 100) (puse p ''__INTEL_COMPILER''))),
                     (''COMPILER_VERSION_MINOR'', DEC (map_option (\<lambda>x. x div 10 mod 10) (puse p ''__INTEL_COMPILER'')))]
                    @ (if defd p ''__INTEL_COMPILER_UPDATE''
                       then [(''COMPILER_VERSION_PATCH'', DEC (puse p ''__INTEL_COMPILER_UPDATE''))]
                     else [(''COMPILER_VERSION_PATCH'', DEC (map_option (\<lambda>x. x mod 10) (puse p ''__INTEL_COMPILER'')))])
             else [(''COMPILER_VERSION_MAJOR'', DEC (puse p ''__INTEL_COMPILER'')),
                (''COMPILER_VERSION_MINOR'', DEC (puse p ''__INTEL_COMPILER_UPDATE'')),
                (''COMPILER_VERSION_PATCH'', DEC (Some 0))])
            @ (if defd p ''__INTEL_COMPILER_BUILD_DATE''
               then [(''COMPILER_VERSION_TWEAK'', DEC (puse p ''__INTEL_COMPILER_BUILD_DATE''))] else [])
            @ (if defd p ''_MSC_VER''
               then [(''SIMULATE_VERSION_MAJOR'', DEC (map_option (\<lambda>x. x div 100) (puse p ''_MSC_VER''))),
                     (''SIMULATE_VERSION_MINOR'', DEC (map_option (\<lambda>x. x mod 100) (puse p ''_MSC_VER'')))] else [])
            @ (if defd p ''__GNUC__''
               then [(''SIMULATE_VERSION_MAJOR'', DEC (puse p ''__GNUC__''))]
             else if defd p ''__GNUG__''
               then [(''SIMULATE_VERSION_MAJOR'', DEC (puse p ''__GNUG__''))] else [])
            @ (if defd p ''__GNUC_MINOR__''
               then [(''SIMULATE_VERSION_MINOR'', DEC (puse p ''__GNUC_MINOR__''))] else [])
            @ (if defd p ''__GNUC_PATCHLEVEL__''
               then [(''SIMULATE_VERSION_PATCH'', DEC (puse p ''__GNUC_PATCHLEVEL__''))] else [])
     else if defd p ''__clang__'' \<and> defd p ''__INTEL_CLANG_COMPILER'' \<or> defd p ''__INTEL_LLVM_COMPILER''
       then [(''COMPILER_ID'', Text ''IntelLLVM'')]
            @ (if defd p ''_MSC_VER''
               then [(''SIMULATE_ID'', Text ''MSVC'')] else [])
            @ (if defd p ''__GNUC__''
               then [(''SIMULATE_ID'', Text ''GNU'')] else [])
            @ (if pval p ''__INTEL_LLVM_COMPILER'' < 1000000
               then [(''COMPILER_VERSION_MAJOR'', DEC (map_option (\<lambda>x. x div 100) (puse p ''__INTEL_LLVM_COMPILER''))),
                     (''COMPILER_VERSION_MINOR'', DEC (map_option (\<lambda>x. x div 10 mod 10) (puse p ''__INTEL_LLVM_COMPILER''))),
                     (''COMPILER_VERSION_PATCH'', DEC (map_option (\<lambda>x. x mod 10) (puse p ''__INTEL_LLVM_COMPILER'')))]
             else [(''COMPILER_VERSION_MAJOR'', DEC (map_option (\<lambda>x. x div 10000) (puse p ''__INTEL_LLVM_COMPILER''))),
                (''COMPILER_VERSION_MINOR'', DEC (map_option (\<lambda>x. x div 100 mod 100) (puse p ''__INTEL_LLVM_COMPILER''))),
                (''COMPILER_VERSION_PATCH'', DEC (map_option (\<lambda>x. x mod 100) (puse p ''__INTEL_LLVM_COMPILER'')))])
            @ (if defd p ''_MSC_VER''
               then [(''SIMULATE_VERSION_MAJOR'', DEC (map_option (\<lambda>x. x div 100) (puse p ''_MSC_VER''))),
                     (''SIMULATE_VERSION_MINOR'', DEC (map_option (\<lambda>x. x mod 100) (puse p ''_MSC_VER'')))] else [])
            @ (if defd p ''__GNUC__''
               then [(''SIMULATE_VERSION_MAJOR'', DEC (puse p ''__GNUC__''))]
             else if defd p ''__GNUG__''
               then [(''SIMULATE_VERSION_MAJOR'', DEC (puse p ''__GNUG__''))] else [])
            @ (if defd p ''__GNUC_MINOR__''
               then [(''SIMULATE_VERSION_MINOR'', DEC (puse p ''__GNUC_MINOR__''))] else [])
            @ (if defd p ''__GNUC_PATCHLEVEL__''
               then [(''SIMULATE_VERSION_PATCH'', DEC (puse p ''__GNUC_PATCHLEVEL__''))] else [])
     else ids_vendor1_cxx22 p)"

section \<open>The platform and the architecture\<close>

definition platform_ids_cxx22 :: "penv \<Rightarrow> mdefs" where
  "platform_ids_cxx22 p =
    (if defd p ''__linux'' \<or> defd p ''__linux__'' \<or> defd p ''linux''
       then [(''PLATFORM_ID'', Text ''Linux'')]
     else if defd p ''__MSYS__''
       then [(''PLATFORM_ID'', Text ''MSYS'')]
     else if defd p ''__CYGWIN__''
       then [(''PLATFORM_ID'', Text ''Cygwin'')]
     else if defd p ''__MINGW32__''
       then [(''PLATFORM_ID'', Text ''MinGW'')]
     else if defd p ''__APPLE__''
       then [(''PLATFORM_ID'', Text ''Darwin'')]
     else if defd p ''_WIN32'' \<or> defd p ''__WIN32__'' \<or> defd p ''WIN32''
       then [(''PLATFORM_ID'', Text ''Windows'')]
     else if defd p ''__FreeBSD__'' \<or> defd p ''__FreeBSD''
       then [(''PLATFORM_ID'', Text ''FreeBSD'')]
     else if defd p ''__NetBSD__'' \<or> defd p ''__NetBSD''
       then [(''PLATFORM_ID'', Text ''NetBSD'')]
     else if defd p ''__OpenBSD__'' \<or> defd p ''__OPENBSD''
       then [(''PLATFORM_ID'', Text ''OpenBSD'')]
     else if defd p ''__sun'' \<or> defd p ''sun''
       then [(''PLATFORM_ID'', Text ''SunOS'')]
     else if defd p ''_AIX'' \<or> defd p ''__AIX'' \<or> defd p ''__AIX__'' \<or> defd p ''__aix'' \<or> defd p ''__aix__''
       then [(''PLATFORM_ID'', Text ''AIX'')]
     else if defd p ''__hpux'' \<or> defd p ''__hpux__''
       then [(''PLATFORM_ID'', Text ''HP-UX'')]
     else if defd p ''__HAIKU__''
       then [(''PLATFORM_ID'', Text ''Haiku'')]
     else if defd p ''__BeOS'' \<or> defd p ''__BEOS__'' \<or> defd p ''_BEOS''
       then [(''PLATFORM_ID'', Text ''BeOS'')]
     else if defd p ''__QNX__'' \<or> defd p ''__QNXNTO__''
       then [(''PLATFORM_ID'', Text ''QNX'')]
     else if defd p ''__tru64'' \<or> defd p ''_tru64'' \<or> defd p ''__TRU64__''
       then [(''PLATFORM_ID'', Text ''Tru64'')]
     else if defd p ''__riscos'' \<or> defd p ''__riscos__''
       then [(''PLATFORM_ID'', Text ''RISCos'')]
     else if defd p ''__sinix'' \<or> defd p ''__sinix__'' \<or> defd p ''__SINIX__''
       then [(''PLATFORM_ID'', Text ''SINIX'')]
     else if defd p ''__UNIX_SV__''
       then [(''PLATFORM_ID'', Text ''UNIX_SV'')]
     else if defd p ''__bsdos__''
       then [(''PLATFORM_ID'', Text ''BSDOS'')]
     else if defd p ''_MPRAS'' \<or> defd p ''MPRAS''
       then [(''PLATFORM_ID'', Text ''MP-RAS'')]
     else if defd p ''__osf'' \<or> defd p ''__osf__''
       then [(''PLATFORM_ID'', Text ''OSF1'')]
     else if defd p ''_SCO_SV'' \<or> defd p ''SCO_SV'' \<or> defd p ''sco_sv''
       then [(''PLATFORM_ID'', Text ''SCO_SV'')]
     else if defd p ''__ultrix'' \<or> defd p ''__ultrix__'' \<or> defd p ''_ULTRIX''
       then [(''PLATFORM_ID'', Text ''ULTRIX'')]
     else if defd p ''__XENIX__'' \<or> defd p ''_XENIX'' \<or> defd p ''XENIX''
       then [(''PLATFORM_ID'', Text ''Xenix'')]
     else if defd p ''__WATCOMC__''
       then (if defd p ''__LINUX__''
               then [(''PLATFORM_ID'', Text ''Linux'')]
             else if defd p ''__DOS__''
               then [(''PLATFORM_ID'', Text ''DOS'')]
             else if defd p ''__OS2__''
               then [(''PLATFORM_ID'', Text ''OS2'')]
             else if defd p ''__WINDOWS__''
               then [(''PLATFORM_ID'', Text ''Windows3x'')]
             else if defd p ''__VXWORKS__''
               then [(''PLATFORM_ID'', Text ''VxWorks'')]
             else [(''PLATFORM_ID'', Text '''')])
     else if defd p ''__INTEGRITY''
       then (if defd p ''INT_178B''
               then [(''PLATFORM_ID'', Text ''Integrity178'')]
             else [(''PLATFORM_ID'', Text ''Integrity'')])
     else [(''PLATFORM_ID'', Text '''')])"

definition arch_ids2_cxx22 :: "penv \<Rightarrow> mdefs" where
  "arch_ids2_cxx22 p =
    (if defd p ''__ghs__''
       then (if defd p ''__PPC64__''
               then [(''ARCHITECTURE_ID'', Text ''PPC64'')]
             else if defd p ''__ppc__''
               then [(''ARCHITECTURE_ID'', Text ''PPC'')]
             else if defd p ''__ARM__''
               then [(''ARCHITECTURE_ID'', Text ''ARM'')]
             else if defd p ''__x86_64__''
               then [(''ARCHITECTURE_ID'', Text ''x64'')]
             else if defd p ''__i386__''
               then [(''ARCHITECTURE_ID'', Text ''X86'')]
             else [(''ARCHITECTURE_ID'', Text '''')])
     else if defd p ''__TI_COMPILER_VERSION__''
       then (if defd p ''__TI_ARM__''
               then [(''ARCHITECTURE_ID'', Text ''ARM'')]
             else if defd p ''__MSP430__''
               then [(''ARCHITECTURE_ID'', Text ''MSP430'')]
             else if defd p ''__TMS320C28XX__''
               then [(''ARCHITECTURE_ID'', Text ''TMS320C28x'')]
             else if defd p ''__TMS320C6X__'' \<or> defd p ''_TMS320C6X''
               then [(''ARCHITECTURE_ID'', Text ''TMS320C6x'')]
             else [(''ARCHITECTURE_ID'', Text '''')])
     else [(''ARCHITECTURE_ID'', Text '''')])"

definition arch_ids_cxx22 :: "penv \<Rightarrow> mdefs" where
  "arch_ids_cxx22 p =
    (if defd p ''_WIN32'' \<and> defd p ''_MSC_VER''
       then (if defd p ''_M_IA64''
               then [(''ARCHITECTURE_ID'', Text ''IA64'')]
             else if defd p ''_M_ARM64EC''
               then [(''ARCHITECTURE_ID'', Text ''ARM64EC'')]
             else if defd p ''_M_X64'' \<or> defd p ''_M_AMD64''
               then [(''ARCHITECTURE_ID'', Text ''x64'')]
             else if defd p ''_M_IX86''
               then [(''ARCHITECTURE_ID'', Text ''X86'')]
             else if defd p ''_M_ARM64''
               then [(''ARCHITECTURE_ID'', Text ''ARM64'')]
             else if defd p ''_M_ARM''
               then (if pval p ''_M_ARM'' = 4
                       then [(''ARCHITECTURE_ID'', Text ''ARMV4I'')]
                     else if pval p ''_M_ARM'' = 5
                       then [(''ARCHITECTURE_ID'', Text ''ARMV5I'')]
                     else [(''ARCHITECTURE_ID'', TextNum ''ARMV'' (puse p ''_M_ARM''))])
             else if defd p ''_M_MIPS''
               then [(''ARCHITECTURE_ID'', Text ''MIPS'')]
             else if defd p ''_M_SH''
               then [(''ARCHITECTURE_ID'', Text ''SHx'')]
             else [(''ARCHITECTURE_ID'', Text '''')])
     else if defd p ''__WATCOMC__''
       then (if defd p ''_M_I86''
               then [(''ARCHITECTURE_ID'', Text ''I86'')]
             else if defd p ''_M_IX86''
               then [(''ARCHITECTURE_ID'', Text ''X86'')]
             else [(''ARCHITECTURE_ID'', Text '''')])
     else if defd p ''__IAR_SYSTEMS_ICC__'' \<or> defd p ''__IAR_SYSTEMS_ICC''
       then (if defd p ''__ICCARM__''
               then [(''ARCHITECTURE_ID'', Text ''ARM'')]
             else if defd p ''__ICCRX__''
               then [(''ARCHITECTURE_ID'', Text ''RX'')]
             else if defd p ''__ICCRH850__''
               then [(''ARCHITECTURE_ID'', Text ''RH850'')]
             else if defd p ''__ICCRL78__''
               then [(''ARCHITECTURE_ID'', Text ''RL78'')]
             else if defd p ''__ICCRISCV__''
               then [(''ARCHITECTURE_ID'', Text ''RISCV'')]
             else if defd p ''__ICCAVR__''
               then [(''ARCHITECTURE_ID'', Text ''AVR'')]
             else if defd p ''__ICC430__''
               then [(''ARCHITECTURE_ID'', Text ''MSP430'')]
             else if defd p ''__ICCV850__''
               then [(''ARCHITECTURE_ID'', Text ''V850'')]
             else if defd p ''__ICC8051__''
               then [(''ARCHITECTURE_ID'', Text ''8051'')]
             else if defd p ''__ICCSTM8__''
               then [(''ARCHITECTURE_ID'', Text ''STM8'')]
             else [(''ARCHITECTURE_ID'', Text '''')])
     else arch_ids2_cxx22 p)"

section \<open>The strings and \<open>main\<close>\<close>

definition info_compiler_cxx22 :: "penv \<Rightarrow> mdef" where
  "info_compiler_cxx22 p = info ''compiler'' (the (mac (compiler_ids_cxx22 p) ''COMPILER_ID''))"

definition info_simulate_cxx22 :: "penv \<Rightarrow> mdef option" where
  "info_simulate_cxx22 p = map_option (info ''simulate'') (mac (compiler_ids_cxx22 p) ''SIMULATE_ID'')"

definition qnxnto_cxx22 :: "penv \<Rightarrow> mdef option" where
  "qnxnto_cxx22 p = (if defd p ''__QNXNTO__'' then Some (info ''qnxnto'' (Some '''')) else None)"

definition info_cray_cxx22 :: "penv \<Rightarrow> mdef option" where
  "info_cray_cxx22 p = (if defd p ''__CRAYXT_COMPUTE_LINUX_TARGET''
     then Some (info ''compiler_wrapper'' (Some ''CrayPrgEnv'')) else None)"

definition info_version_cxx22 :: "penv \<Rightarrow> mdef option" where
  "info_version_cxx22 p = (case mac (compiler_ids_cxx22 p) ''COMPILER_VERSION'' of
       Some v \<Rightarrow> Some (info ''compiler_version'' v)
     | None \<Rightarrow> dotted ''compiler_version'' ''COMPILER_VERSION'' (compiler_ids_cxx22 p))"

definition info_version_internal_cxx22 :: "penv \<Rightarrow> mdef option" where
  "info_version_internal_cxx22 p = (case mac (compiler_ids_cxx22 p) ''COMPILER_VERSION_INTERNAL'' of
       Some v \<Rightarrow> Some (info ''compiler_version_internal'' v)
     | None \<Rightarrow> map_option (info ''compiler_version_internal'')
         (mac (compiler_ids_cxx22 p) ''COMPILER_VERSION_INTERNAL_STR''))"

definition info_simulate_version_cxx22 :: "penv \<Rightarrow> mdef option" where
  "info_simulate_version_cxx22 p = dotted ''simulate_version'' ''SIMULATE_VERSION'' (compiler_ids_cxx22 p)"

definition info_platform_cxx22 :: "penv \<Rightarrow> mdef" where
  "info_platform_cxx22 p = info ''platform'' (the (mac (platform_ids_cxx22 p) ''PLATFORM_ID''))"

definition info_arch_cxx22 :: "penv \<Rightarrow> mdef" where
  "info_arch_cxx22 p = info ''arch'' (the (mac (arch_ids_cxx22 p) ''ARCHITECTURE_ID''))"

text \<open>\<open>CXX_STD\<close>; an undefined macro counts 0 in the comparisons that follow.\<close>

definition cxx_std_cxx22 :: "penv \<Rightarrow> nat" where
  "cxx_std_cxx22 p =
     (if defd p ''__INTEL_COMPILER'' \<and> defd p ''_MSVC_LANG'' \<and> pval p ''_MSVC_LANG'' < 201403
      then (if defd p ''__INTEL_CXX11_MODE__''
            then (if defd p ''__cpp_aggregate_nsdmi'' then 201402 else 201103)
            else 199711)
      else if defd p ''_MSC_VER'' \<and> defd p ''_MSVC_LANG'' then pval p ''_MSVC_LANG''
      else pval p ''__cplusplus'')"

definition info_language_standard_default_cxx22 :: "penv \<Rightarrow> mdef" where
  "info_language_standard_default_cxx22 p = info ''standard_default'' (Some
     (if 202002 < cxx_std_cxx22 p then ''23''
      else if 201703 < cxx_std_cxx22 p then ''20''
      else if 201703 \<le> cxx_std_cxx22 p then ''17''
      else if 201402 \<le> cxx_std_cxx22 p then ''14''
      else if 201103 \<le> cxx_std_cxx22 p then ''11''
      else ''98''))"

definition info_language_extensions_default_cxx22 :: "penv \<Rightarrow> mdef" where
  "info_language_extensions_default_cxx22 p = info ''extensions_default''
     (if (defd p ''__clang__'' \<or> defd p ''__GNUC__'' \<or> defd p ''__TI_COMPILER_VERSION__'')
         \<and> \<not> defd p ''__STRICT_ANSI__'' \<and> \<not> defd p ''_MSC_VER'' then Some ''ON'' else Some ''OFF'')"

definition main_refs_cxx22 :: "penv \<Rightarrow> mdef list" where
  "main_refs_cxx22 p =
     [info_compiler_cxx22 p, info_platform_cxx22 p]
     @ (if mac (compiler_ids_cxx22 p) ''COMPILER_VERSION_MAJOR'' \<noteq> None then opt (info_version_cxx22 p) else [])
     @ (if mac (compiler_ids_cxx22 p) ''COMPILER_VERSION_INTERNAL'' \<noteq> None then opt (info_version_internal_cxx22 p) else [])
     @ opt (info_simulate_cxx22 p)
     @ opt (info_simulate_version_cxx22 p)
     @ opt (info_cray_cxx22 p)
     @ [info_language_standard_default_cxx22 p, info_language_extensions_default_cxx22 p]"

definition wrong_language_cxx22 :: "penv \<Rightarrow> bool" where
  "wrong_language_cxx22 p \<longleftrightarrow> \<not> defd p ''__cplusplus''"

definition probe_main_cxx22 :: "penv \<Rightarrow> nat \<Rightarrow> ending" where
  "probe_main_cxx22 p argc =
     (if wrong_language_cxx22 p then Fails else ending_of (sum_at (main_refs_cxx22 p) argc))"

end
