(* ===== verification/ProbesAgree.thy ===== *)
theory ProbesAgree
  imports CompilerProps CompilerIdCxx CompilerId22 CompilerIdCxx22
begin

text \<open>
  The four probes side by side: the C and the C++ probe tell the same compiler, platform
  and architecture apart but for compilers of one language only, and the two generations of
  CMake differ only where the later one added or revised the test of a macro.
\<close>

section \<open>C and C++\<close>

text \<open>The macros by which a probe for one language knows a compiler the other does not.\<close>

definition one_language :: "string list" where
  "one_language = [''__COMO__'', ''__SUNPRO_C'', ''__SUNPRO_CC'', ''__HP_cc'', ''__HP_aCC'', ''__DECC'', ''__DECCXX'',
     ''__IBMC__'', ''__IBMCPP__'', ''__TINYC__'', ''__BCC__'', ''__SDCC_VERSION_MAJOR'', ''SDCC'']"

definition both_languages :: "penv \<Rightarrow> bool" where
  "both_languages p \<longleftrightarrow> list_all (\<lambda>m. \<not> defd p m) one_language \<and> (defd p ''__GNUG__'' \<longrightarrow> defd p ''__GNUC__'')"

lemma vendor4_cxx: "both_languages p \<Longrightarrow> ids_vendor4_cxx p = ids_vendor4 p"
  by (auto simp: both_languages_def one_language_def ids_vendor4_cxx_def ids_vendor4_def)

lemma vendor3_cxx: "both_languages p \<Longrightarrow> ids_vendor3_cxx p = ids_vendor3 p"
  by (simp add: ids_vendor3_cxx_def ids_vendor3_def vendor4_cxx cong del: if_weak_cong)

lemma vendor2_cxx: "both_languages p \<Longrightarrow> ids_vendor2_cxx p = ids_vendor2 p"
  by (simp add: both_languages_def one_language_def ids_vendor2_cxx_def ids_vendor2_def
      vendor3_cxx cong del: if_weak_cong)

lemma vendor1_cxx: "both_languages p \<Longrightarrow> ids_vendor1_cxx p = ids_vendor1 p"
  by (simp add: both_languages_def one_language_def ids_vendor1_cxx_def ids_vendor1_def
      vendor2_cxx cong del: if_weak_cong)

lemma compiler_cxx: "both_languages p \<Longrightarrow> compiler_ids_cxx p = compiler_ids p"
  by (simp add: both_languages_def one_language_def compiler_ids_cxx_def compiler_ids_def
      vendor1_cxx cong del: if_weak_cong)

lemma platform_cxx: "platform_ids_cxx p = platform_ids p"
  unfolding platform_ids_cxx_def platform_ids_def by (rule refl)

lemma arch_cxx: "arch_ids_cxx p = arch_ids p"
  unfolding arch_ids_cxx_def arch_ids_def arch_ids2_cxx_def arch_ids2_def by (rule refl)


text \<open>
  Two environments that differ in the macros of the language only: what a compiler
  predefines for C and what it predefines for C++.
\<close>

definition same_but :: "string list \<Rightarrow> penv \<Rightarrow> penv \<Rightarrow> bool" where
  "same_but ms p q \<longleftrightarrow> (\<forall>m. m \<notin> set ms \<longrightarrow> pnum q m = pnum p m \<and> pstr q m = pstr p m)"

definition language_macros :: "string list" where
  "language_macros = [''__cplusplus'', ''__STDC_VERSION__'', ''__GNUG__'']"

lemma same_but_reads:
  assumes "same_but ms p q" and "m \<notin> set ms"
  shows "defd q m = defd p m" "pval q m = pval p m" "puse q m = puse p m" "TextMacro q m = TextMacro p m"
  using assms by (simp_all add: same_but_def defd_def pval_def puse_def TextMacro_def)

lemma gnug_implied:
  "both_languages p \<Longrightarrow> defd p ''__GNUC__'' \<or> \<not> defd p ''__GNUG__''"
  by (auto simp: both_languages_def)

lemma same_ids:
  assumes "same_but language_macros p q" and "both_languages p" and "both_languages q"
  shows "ids_vendor4 q = ids_vendor4 p" "ids_vendor3 q = ids_vendor3 p" "ids_vendor2 q = ids_vendor2 p"
    "ids_vendor1 q = ids_vendor1 p" "compiler_ids q = compiler_ids p"
proof -
  note [simp] = same_but_reads [OF assms(1)] and [cong del] = if_weak_cong
  have [simp]: "set language_macros = {''__cplusplus'', ''__STDC_VERSION__'', ''__GNUG__''}"
    by (simp add: language_macros_def)
  have g: "defd p ''__GNUC__'' \<or> \<not> defd p ''__GNUG__'' \<and> \<not> defd q ''__GNUG__''"
    using gnug_implied [OF assms(2)] gnug_implied [OF assms(3)] by simp blast
  show 4 [simp]: "ids_vendor4 q = ids_vendor4 p" by (simp add: ids_vendor4_def)
  show 3 [simp]: "ids_vendor3 q = ids_vendor3 p" using g by (elim disjE) (simp_all add: ids_vendor3_def)
  show 2 [simp]: "ids_vendor2 q = ids_vendor2 p" by (simp add: ids_vendor2_def)
  show 1 [simp]: "ids_vendor1 q = ids_vendor1 p" by (simp add: ids_vendor1_def)
  show "compiler_ids q = compiler_ids p" using g by (elim disjE) (simp_all add: compiler_ids_def)
qed

lemma same_platform: "same_but language_macros p q \<Longrightarrow> platform_ids q = platform_ids p"
  by (simp add: platform_ids_def same_but_reads language_macros_def cong del: if_weak_cong)

lemma same_arch: "same_but language_macros p q \<Longrightarrow> arch_ids q = arch_ids p"
  by (simp add: arch_ids_def arch_ids2_def same_but_reads language_macros_def cong del: if_weak_cong)


section \<open>3.22.1 and 3.28.1\<close>

text \<open>
  The macros tested by the branches that 3.28.1 added to the detection of compiler, platform
  and architecture, or whose body or condition it changed: five new compilers; another patch
  level for ARMClang; and another test, another version macro and new platform and architecture
  names for the compilers of Analog Devices.  An environment is \<open>unrevised\<close> when it defines
  none of them.
\<close>

definition revised_macros :: "string list" where
  "revised_macros = [''__open_xl__'', ''__cray__'', ''__TASKING__'', ''__ORANGEC__'', ''__LCC__'', ''__ARMCOMPILER_VERSION'',
     ''_ADI_COMPILER'', ''__VISUALDSPVERSION__'', ''__ADSPBLACKFIN__'', ''__ADSPTS__'', ''__ADSP21000__'', ''__ADSPSHARC__'']"

definition unrevised :: "penv \<Rightarrow> bool" where
  "unrevised p \<longleftrightarrow> list_all (\<lambda>m. \<not> defd p m) revised_macros"

lemma early_ids:
  assumes "unrevised p"
  shows "compiler_ids_22 p = compiler_ids p" "compiler_ids_cxx22 p = compiler_ids_cxx p"
proof -
  note [simp] = assms [unfolded unrevised_def revised_macros_def, simplified] and [cong del] = if_weak_cong
  have [simp]: "ids_vendor4_22 p = ids_vendor4 p" by (simp add: ids_vendor4_def ids_vendor4_22_def)
  have [simp]: "ids_vendor3_22 p = ids_vendor3 p" by (simp add: ids_vendor3_def ids_vendor3_22_def)
  have [simp]: "ids_vendor2_22 p = ids_vendor2 p" by (simp add: ids_vendor2_def ids_vendor2_22_def)
  have [simp]: "ids_vendor1_22 p = ids_vendor1 p" by (simp add: ids_vendor1_def ids_vendor1_22_def)
  show "compiler_ids_22 p = compiler_ids p" by (simp add: compiler_ids_def compiler_ids_22_def)
  have [simp]: "ids_vendor4_cxx22 p = ids_vendor4_cxx p" by (simp add: ids_vendor4_cxx_def ids_vendor4_cxx22_def)
  have [simp]: "ids_vendor3_cxx22 p = ids_vendor3_cxx p" by (simp add: ids_vendor3_cxx_def ids_vendor3_cxx22_def)
  have [simp]: "ids_vendor2_cxx22 p = ids_vendor2_cxx p" by (simp add: ids_vendor2_cxx_def ids_vendor2_cxx22_def)
  have [simp]: "ids_vendor1_cxx22 p = ids_vendor1_cxx p" by (simp add: ids_vendor1_cxx_def ids_vendor1_cxx22_def)
  show "compiler_ids_cxx22 p = compiler_ids_cxx p" by (simp add: compiler_ids_cxx_def compiler_ids_cxx22_def)
qed

lemma early_platform:
  assumes "unrevised p"
  shows "platform_ids_22 p = platform_ids p" "platform_ids_cxx22 p = platform_ids_cxx p"
  using assms by (simp_all add: unrevised_def revised_macros_def platform_ids_def platform_ids_22_def
      platform_ids_cxx_def platform_ids_cxx22_def cong del: if_weak_cong)

lemma early_arch:
  assumes "unrevised p"
  shows "arch_ids_22 p = arch_ids p" "arch_ids_cxx22 p = arch_ids_cxx p"
  using assms by (simp_all add: unrevised_def revised_macros_def arch_ids_def arch_ids_22_def arch_ids2_def arch_ids2_22_def
      arch_ids_cxx_def arch_ids_cxx22_def arch_ids2_cxx_def arch_ids2_cxx22_def cong del: if_weak_cong)

text \<open>Two of the revised branches: the same compiler is described differently.\<close>

definition arm_clang :: "nat \<Rightarrow> penv" where
  "arm_clang v = \<lparr>pnum = [''__clang__'' \<mapsto> 1, ''__ARMCOMPILER_VERSION'' \<mapsto> v], pstr = Map.empty\<rparr>"

lemma revised_arm_clang:
  "mac (compiler_ids_22 (arm_clang 6160001)) ''COMPILER_VERSION_PATCH'' = Some (DEC (Some 1))"
  "mac (compiler_ids (arm_clang 6160001)) ''COMPILER_VERSION_PATCH'' = Some (DEC (Some 0))"
  by (simp_all add: arm_clang_def compiler_ids_def ids_vendor1_def ids_vendor2_def ids_vendor3_def
      compiler_ids_22_def ids_vendor1_22_def ids_vendor2_22_def ids_vendor3_22_def defd_def puse_def mac_simps)

lemma revised_blackfin:
  defines "p \<equiv> \<lparr>pnum = [''__ADSPBLACKFIN__'' \<mapsto> 1], pstr = Map.empty\<rparr>"
  shows "mac (compiler_ids_22 p) ''COMPILER_ID'' = Some (Text ''ADSP'')" "mac (compiler_ids p) ''COMPILER_ID'' = Some (Text '''')"
  by (simp_all add: p_def compiler_ids_def ids_vendor1_def ids_vendor2_def ids_vendor3_def ids_vendor4_def
      compiler_ids_22_def ids_vendor1_22_def ids_vendor2_22_def ids_vendor3_22_def ids_vendor4_22_def
      defd_def puse_def mac_simps)

text \<open>
  When the two generations report the same default for the language extensions: 3.22.1
  excludes environments with \<open>_MSC_VER\<close>, 3.28.1 does not, but counts IBM's \<open>xlC\<close> in.
\<close>

definition same_extensions :: "penv \<Rightarrow> bool" where
  "same_extensions p \<longleftrightarrow> defd p ''__STRICT_ANSI__''
     \<or> (if defd p ''__clang__'' \<or> defd p ''__GNUC__'' \<or> defd p ''__TI_COMPILER_VERSION__''
        then \<not> defd p ''_MSC_VER'' else \<not> defd p ''__xlC__'')"

lemma extensions_exact:
  "info_language_extensions_default_22 p = info_language_extensions_default p \<longleftrightarrow> same_extensions p"
  "info_language_extensions_default_cxx22 p = info_language_extensions_default_cxx p \<longleftrightarrow> same_extensions p"
proof -
  have "info ''extensions_default'' (Some ''ON'') \<noteq> info ''extensions_default'' (Some ''OFF'')"
    by (simp add: info_def)
  then show "info_language_extensions_default_22 p = info_language_extensions_default p \<longleftrightarrow> same_extensions p"
    "info_language_extensions_default_cxx22 p = info_language_extensions_default_cxx p \<longleftrightarrow> same_extensions p"
    unfolding info_language_extensions_default_22_def info_language_extensions_default_def
      info_language_extensions_default_cxx22_def info_language_extensions_default_cxx_def same_extensions_def
    by (auto split: if_splits)
qed

section \<open>Clang and GCC under every probe\<close>

lemma other_mac_if:
  "(c \<Longrightarrow> other_than s (mac a x)) \<Longrightarrow> (\<not> c \<Longrightarrow> other_than s (mac b x)) \<Longrightarrow> other_than s (mac (if c then a else b) x)"
  by simp

lemma other_mac_both:
  "other_than s (mac a x) \<Longrightarrow> other_than s (mac b x) \<Longrightarrow> other_than s (mac (if c then a else b) x)"
  by simp

lemma mac_undefined: "x \<notin> fst ` set ds \<Longrightarrow> mac ds x = None"
  by (simp add: mac_def map_of_eq_None_iff)

lemma other_leaf:
  "t \<noteq> s \<Longrightarrow> x \<notin> fst ` set ds \<Longrightarrow> other_than s (mac ((x, Text t) # ds) x)"
  "t \<noteq> s \<Longrightarrow> x \<notin> fst ` set ds \<Longrightarrow> x \<notin> fst ` set es \<Longrightarrow> other_than s (mac (((x, Text t) # ds) @ es) x)"
  by (simp_all add: mac_simps mac_undefined other_than_def Text_def)

lemma clang_other_22:
  assumes "defd p ''__clang__''" and "s = ''GNU'' \<or> s = ''MSVC''"
  shows "other_than s (mac (compiler_ids_22 p) ''COMPILER_ID'')"
proof -
  have 3: "other_than s (mac (ids_vendor3_22 p) ''COMPILER_ID'')"
    unfolding ids_vendor3_22_def by (intro other_mac_if other_leaf) (use assms in auto)
  have 2: "other_than s (mac (ids_vendor2_22 p) ''COMPILER_ID'')"
    unfolding ids_vendor2_22_def by (intro other_mac_both 3 other_leaf) (use assms(2) in auto)
  have 1: "other_than s (mac (ids_vendor1_22 p) ''COMPILER_ID'')"
    unfolding ids_vendor1_22_def by (intro other_mac_both 2 other_leaf) (use assms(2) in auto)
  show ?thesis
    unfolding compiler_ids_22_def by (intro other_mac_both 1 other_leaf) (use assms(2) in auto)
qed

lemma clang_other_cxx:
  assumes "defd p ''__clang__''" and "s = ''GNU'' \<or> s = ''MSVC''"
  shows "other_than s (mac (compiler_ids_cxx p) ''COMPILER_ID'')"
proof -
  have 3: "other_than s (mac (ids_vendor3_cxx p) ''COMPILER_ID'')"
    unfolding ids_vendor3_cxx_def by (intro other_mac_if other_leaf) (use assms in auto)
  have 2: "other_than s (mac (ids_vendor2_cxx p) ''COMPILER_ID'')"
    unfolding ids_vendor2_cxx_def by (intro other_mac_both 3 other_leaf) (use assms(2) in auto)
  have 1: "other_than s (mac (ids_vendor1_cxx p) ''COMPILER_ID'')"
    unfolding ids_vendor1_cxx_def by (intro other_mac_both 2 other_leaf) (use assms(2) in auto)
  show ?thesis
    unfolding compiler_ids_cxx_def by (intro other_mac_both 1 other_leaf) (use assms(2) in auto)
qed

lemma clang_other_cxx22:
  assumes "defd p ''__clang__''" and "s = ''GNU'' \<or> s = ''MSVC''"
  shows "other_than s (mac (compiler_ids_cxx22 p) ''COMPILER_ID'')"
proof -
  have 3: "other_than s (mac (ids_vendor3_cxx22 p) ''COMPILER_ID'')"
    unfolding ids_vendor3_cxx22_def by (intro other_mac_if other_leaf) (use assms in auto)
  have 2: "other_than s (mac (ids_vendor2_cxx22 p) ''COMPILER_ID'')"
    unfolding ids_vendor2_cxx22_def by (intro other_mac_both 3 other_leaf) (use assms(2) in auto)
  have 1: "other_than s (mac (ids_vendor1_cxx22 p) ''COMPILER_ID'')"
    unfolding ids_vendor1_cxx22_def by (intro other_mac_both 2 other_leaf) (use assms(2) in auto)
  show ?thesis
    unfolding compiler_ids_cxx22_def by (intro other_mac_both 1 other_leaf) (use assms(2) in auto)
qed

lemmas info_defs =
  info_compiler_def info_simulate_def info_version_def info_version_internal_def
  info_simulate_version_def info_platform_def info_arch_def info_cray_def
  info_language_standard_default_def info_language_extensions_default_def c_version_def

lemmas info_defs_22 =
  info_compiler_22_def info_simulate_22_def info_version_22_def info_version_internal_22_def
  info_simulate_version_22_def info_platform_22_def info_arch_22_def info_cray_22_def
  info_language_standard_default_22_def info_language_extensions_default_22_def c_version_22_def

lemmas info_defs_cxx =
  info_compiler_cxx_def info_simulate_cxx_def info_version_cxx_def info_version_internal_cxx_def
  info_simulate_version_cxx_def info_platform_cxx_def info_arch_cxx_def info_cray_cxx_def
  info_language_standard_default_cxx_def info_language_extensions_default_cxx_def cxx_std_cxx_def

lemmas info_defs_cxx22 =
  info_compiler_cxx22_def info_simulate_cxx22_def info_version_cxx22_def info_version_internal_cxx22_def
  info_simulate_version_cxx22_def info_platform_cxx22_def info_arch_cxx22_def info_cray_cxx22_def
  info_language_standard_default_cxx22_def info_language_extensions_default_cxx22_def cxx_std_cxx22_def

text \<open>The predefined macros of \<open>g++\<close>: those of \<open>gcc\<close> with those of C++.\<close>

definition gxx :: "nat \<Rightarrow> nat \<Rightarrow> nat \<Rightarrow> penv" where
  "gxx a b c = (gcc a b c)\<lparr>pnum := (pnum (gcc a b c))(''__cplusplus'' \<mapsto> 201703, ''__GNUG__'' \<mapsto> a)\<rparr>"

lemma gcc_gxx: "same_but language_macros (gcc a b c) (gxx a b c)"
  by (simp add: same_but_def gxx_def language_macros_def)

lemma gcc_both: "both_languages (gcc a b c)" "both_languages (gxx a b c)"
  by (simp_all add: both_languages_def one_language_def gcc_def gxx_def defd_def)

lemma gcc_early: "unrevised (gcc a b c)" "unrevised (gxx a b c)"
  by (simp_all add: unrevised_def revised_macros_def gcc_def gxx_def defd_def)

text \<open>
  The C and the C++ probe of CMake 3.28.1 describe a compiler alike: in environments
  that differ in the macros of the language only, and where no macro tells a compiler of
  one language, all strings of the two programs but the language standard are the same.
\<close>

lemma language_probes_agree:
  assumes "same_but language_macros p q" and "both_languages p" and "both_languages q"
  shows "info_compiler_cxx q = info_compiler p \<and> info_simulate_cxx q = info_simulate p
    \<and> info_version_cxx q = info_version p \<and> info_version_internal_cxx q = info_version_internal p
    \<and> info_simulate_version_cxx q = info_simulate_version p
    \<and> info_platform_cxx q = info_platform p \<and> info_arch_cxx q = info_arch p
    \<and> info_language_extensions_default_cxx q = info_language_extensions_default p"
proof -
  note same = compiler_cxx [OF assms(3)] same_ids(5) [OF assms]
    platform_cxx arch_cxx same_platform [OF assms(1)] same_arch [OF assms(1)]
  show ?thesis
    unfolding info_defs info_defs_cxx same by (simp add: same_but_reads [OF assms(1)] language_macros_def)
qed

text \<open>
  C40.  The probes of CMake 3.22.1 and 3.28.1 agree in every environment that defines no macro
  of a branch 3.28.1 added or revised (\<open>revised_macros\<close>, which ARMClang and the compilers of
  Analog Devices define), but for one string: the C programs refer to the same strings up to
  the last, the default of the language extensions, which is the same exactly under
  \<open>same_extensions\<close> (it fails for \<open>clang-cl\<close> and for \<open>xlC\<close>); where it is, they run alike.
  The earlier C++ program leaves out the architecture, and otherwise differs from the later
  one in that last string only, under the same condition.
\<close>

theorem generations_agree:
  assumes "unrevised p"
  shows "butlast (main_refs_22 p) = butlast (main_refs p)
    \<and> (main_refs_22 p = main_refs p \<longleftrightarrow> same_extensions p)
    \<and> (same_extensions p \<longrightarrow> probe_main_22 p argc = probe_main p argc)
    \<and> (\<exists>rest. main_refs_cxx p = [info_compiler_cxx p, info_platform_cxx p, info_arch_cxx p]
             @ rest @ [info_language_extensions_default_cxx p]
         \<and> main_refs_cxx22 p = [info_compiler_cxx p, info_platform_cxx p]
             @ rest @ [info_language_extensions_default_cxx22 p])
    \<and> (info_language_extensions_default_cxx22 p = info_language_extensions_default_cxx p \<longleftrightarrow> same_extensions p)"
proof -
  note same = early_ids [OF assms] early_platform [OF assms] early_arch [OF assms]
  obtain rest where c: "main_refs p = rest @ [info_language_extensions_default p]"
    "main_refs_22 p = rest @ [info_language_extensions_default_22 p]"
    unfolding main_refs_22_def main_refs_def info_compiler_22_def info_compiler_def info_simulate_22_def
      info_simulate_def info_version_22_def info_version_def info_version_internal_22_def info_version_internal_def
      info_simulate_version_22_def info_simulate_version_def info_platform_22_def info_platform_def
      info_arch_22_def info_arch_def info_cray_22_def info_cray_def info_language_standard_default_22_def
      info_language_standard_default_def c_version_22_def c_version_def same by simp
  define xs where "xs = drop 3 (butlast (main_refs_cxx p))"
  have x: "main_refs_cxx p = [info_compiler_cxx p, info_platform_cxx p, info_arch_cxx p]
             @ xs @ [info_language_extensions_default_cxx p]"
    by (simp add: xs_def main_refs_cxx_def butlast_append numeral_3_eq_3)
  moreover have "main_refs_cxx22 p = [info_compiler_cxx p, info_platform_cxx p]
             @ xs @ [info_language_extensions_default_cxx22 p]"
    unfolding xs_def main_refs_cxx22_def main_refs_cxx_def info_compiler_cxx22_def info_compiler_cxx_def
      info_simulate_cxx22_def info_simulate_cxx_def info_version_cxx22_def info_version_cxx_def
      info_version_internal_cxx22_def info_version_internal_cxx_def info_simulate_version_cxx22_def
      info_simulate_version_cxx_def info_platform_cxx22_def info_platform_cxx_def info_cray_cxx22_def info_cray_cxx_def
      info_language_standard_default_cxx22_def info_language_standard_default_cxx_def cxx_std_cxx22_def cxx_std_cxx_def same
    by (simp add: butlast_append numeral_3_eq_3)
  moreover have "probe_main_22 p argc = probe_main p argc" if "main_refs_22 p = main_refs p"
    using that by (simp add: probe_main_22_def probe_main_def wrong_language_def wrong_language_22_def
        id_void_main_def id_void_main_22_def)
  ultimately show ?thesis
    using extensions_exact [of p] c by auto
qed

text \<open>\<open>gcc\<close> and \<open>cl\<close> are described alike, \<open>clang-cl\<close> is not.\<close>

definition clang_cl :: "nat \<Rightarrow> penv" where
  "clang_cl v = \<lparr>pnum = [''__clang__'' \<mapsto> 1, ''_MSC_VER'' \<mapsto> v], pstr = Map.empty\<rparr>"

definition cl :: "nat \<Rightarrow> penv" where
  "cl v = \<lparr>pnum = [''_MSC_VER'' \<mapsto> v], pstr = Map.empty\<rparr>"

theorem generations_agree_witness:
  "probe_main_22 (gcc 11 4 0) 1 = probe_main (gcc 11 4 0) 1 \<and> main_refs_22 (cl 1930) = main_refs (cl 1930)
     \<and> main_refs_22 (clang_cl 1930) \<noteq> main_refs (clang_cl 1930)"
proof (intro conjI)
  show "probe_main_22 (gcc 11 4 0) 1 = probe_main (gcc 11 4 0) 1"
    using generations_agree [OF gcc_early(1), of 11 4 0] by (simp add: same_extensions_def gcc_def defd_def)
  have "unrevised (cl 1930)" "same_extensions (cl 1930)"
    by (simp_all add: unrevised_def revised_macros_def same_extensions_def cl_def defd_def)
  then show "main_refs_22 (cl 1930) = main_refs (cl 1930)"
    using generations_agree by blast
  have "unrevised (clang_cl 1930)" "\<not> same_extensions (clang_cl 1930)"
    by (simp_all add: unrevised_def revised_macros_def same_extensions_def clang_cl_def defd_def)
  then show "main_refs_22 (clang_cl 1930) \<noteq> main_refs (clang_cl 1930)"
    using generations_agree by blast
qed

text \<open>
  Every probe reports GCC of any version on Linux as it is: GNU, Linux and the
  version, in order; the C probes for the macros of \<open>gcc\<close>, the C++ ones for those of
  \<open>g++\<close>.
\<close>

lemma gcc_report:
  defines "version \<equiv> \<lambda>a b c. ''INFO:compiler_version['' @ dec_digits a @ ''.'' @ dec_digits b
     @ ''.'' @ dec_digits c @ '']'' @ nul"
  shows "info_compiler (gcc a b c) = Some (''INFO:compiler[GNU]'' @ nul)
   \<and> info_platform (gcc a b c) = Some (''INFO:platform[Linux]'' @ nul)
   \<and> info_version (gcc a b c) = Some (Some (version a b c))
   \<and> info_version_22 (gcc a b c) = Some (Some (version a b c))
   \<and> info_compiler_cxx (gxx a b c) = Some (''INFO:compiler[GNU]'' @ nul)
   \<and> info_version_cxx (gxx a b c) = Some (Some (version a b c))
   \<and> info_version_cxx22 (gxx a b c) = Some (Some (version a b c))
   \<and> info_simulate (gcc a b c) = None"
proof -
  have x: "compiler_ids_cxx (gxx a b c) = compiler_ids (gcc a b c)"
    using compiler_cxx [OF gcc_both(2)] same_ids(5) [OF gcc_gxx gcc_both] by simp
  show ?thesis
    unfolding info_defs info_defs_22 info_defs_cxx info_defs_cxx22 early_ids [OF gcc_early(1)]
      early_ids [OF gcc_early(2)] x gcc_ids gcc_platform
    by (simp add: version_def info_def dotted_def mac_simps DEC_def Text_def)
qed

text \<open>
  Under every probe, a compiler that defines \<open>__clang__\<close> is never reported as GNU or
  MSVC, although Clang defines \<open>__GNUC__\<close>, and on Windows \<open>_MSC_VER\<close>, as well.
\<close>

lemma clang_is_not_gnu:
  assumes "defd p ''__clang__''" and "s = ''GNU'' \<or> s = ''MSVC''"
  shows "mac (compiler_ids p) ''COMPILER_ID'' \<noteq> Some (Some s)
    \<and> mac (compiler_ids_cxx p) ''COMPILER_ID'' \<noteq> Some (Some s)
    \<and> mac (compiler_ids_22 p) ''COMPILER_ID'' \<noteq> Some (Some s)
    \<and> mac (compiler_ids_cxx22 p) ''COMPILER_ID'' \<noteq> Some (Some s)"
  using clang_other [of p s] clang_other_cxx [OF assms] clang_other_22 [OF assms] clang_other_cxx22 [OF assms] assms
  by (auto simp: other_than_def)

end
