(* ===== verification/Spec2Isabelle.thy ===== *)
theory Spec2Isabelle
  imports History OnePacket Descriptors TreeProps ClientProps ProbesAgree
begin

text \<open>
  A verification development of NanoRedis, a single-threaded key-value server over epoll with
  its command-line client (C++, Linux).

  \<^bold>\<open>The program and its parts.\<close>  A client (\<open>src/client.cpp\<close>) connects, sends one command
  as a length-prefixed list of strings and prints the tagged reply.  The server
  (\<open>src/server.cpp\<close>, \<open>src/server_utils.cpp\<close>) waits in \<open>epoll_wait\<close>, accepts clients
  into the vector \<open>fd2conn\<close>, and drives each connection through the states
  \<open>STATE_REQ\<close>, \<open>STATE_RES\<close> and \<open>STATE_END\<close>: it reads into \<open>rbuf\<close>, takes complete
  requests off its front, executes them on the key space \<open>g_data\<close>, packs each reply into
  \<open>wbuf\<close> and flushes it.  The key space is an intrusive chained hash map
  (\<open>src/hashtable.cpp\<close>) whose nodes are embedded in \<open>Entry\<close> objects and which reaches
  their keys through a callback.  Sorted sets (\<open>src/zset.cpp\<close>), on an AVL tree
  (\<open>src/avl_tree.cpp\<close>) and the same hash map, are compiled in but no command reaches
  them.  Two build trees hold the compiler probes of CMake 3.28.1 and 3.22.1, for C and C++.

  \<^bold>\<open>Which theory models which part.\<close>
  \<^item> \<open>Prelude\<close>: faults as values (\<open>res\<close>), machine words, little-endian words, bounded
    reads and writes of buffers, shared lemmas.
  \<^item> \<open>Utils\<close>: \<open>include/utils.h\<close>, \<open>src/utils.cpp\<close>: tags, \<open>str_hash\<close>,
    \<open>read_full\<close>, \<open>write_all\<close>, and the scripted system calls.
  \<^item> \<open>Hashtable\<close>, \<open>HMap\<close>: \<open>src/hashtable.cpp\<close>.  A node is a record in a heap;
    \<open>HNode **\<close> is a \<open>slot\<close>; \<open>htab_rep\<close> and \<open>hm_idle\<close> say which buckets a
    table represents.  \<open>key_index\<close> is the interface of the comparison callback.
  \<^item> \<open>Codec\<close>: \<open>parse_req\<close>, \<open>out_nil\<close> to \<open>out_arr\<close>, \<open>cmd_is\<close> of
    \<open>src/server_utils.cpp\<close>.
  \<^item> \<open>Keyspace\<close>, \<open>KVSpec\<close>, \<open>KVProps\<close>: \<open>Entry\<close>, \<open>g_data\<close>, \<open>do_get\<close>,
    \<open>do_set\<close>, \<open>do_del\<close>, \<open>do_keys\<close>, \<open>do_request\<close>; the abstract machine on a finite
    map with the locale \<open>kv_server\<close>; the properties.
  \<^item> \<open>Framing\<close>: the locale \<open>framing\<close>, the contract of a message format on a byte stream,
    which \<open>ConnSpec\<close> interprets with the request format.
  \<^item> \<open>Conn\<close>, \<open>ConnSpec\<close>, \<open>ConnCases\<close>: \<open>struct Conn\<close> and the functions from
    \<open>connection_io\<close> to \<open>try_flush_buffer\<close>; the relations \<open>ran\<close> and \<open>served\<close> between
    the bytes that come in, the commands executed and the bytes that go out; runs worked out
    for given answers of the kernel.
  \<^item> \<open>Server\<close>, \<open>ServerSpec\<close>, \<open>ConnProps\<close>, \<open>History\<close>, \<open>Descriptors\<close>,
    \<open>OnePacket\<close>:
    \<open>main\<close>, \<open>accept_new_conn\<close>, \<open>conn_put\<close>; the reachable states
    \<open>server_reach\<close> with the locale \<open>loop_invariant\<close>, interpreted by the invariant
    \<open>server_ok\<close>, by the history of a server, and by the use of descriptors; the packet
    that brings a server down.
  \<^item> \<open>Client\<close>, \<open>ClientProps\<close>: \<open>src/client.cpp\<close>.
  \<^item> \<open>AvlTree\<close>, \<open>AvlSpec\<close>, \<open>AvlDel\<close>, \<open>ZSet\<close>, \<open>ZSetSpec\<close>, \<open>TreeProps\<close>:
    \<open>src/avl_tree.cpp\<close>, \<open>src/zset.cpp\<close>, refined to algebraic trees by \<open>tree_at\<close>,
    with \<open>climb\<close> for \<open>avl_fix\<close> and \<open>remove\<close> for \<open>avl_del\<close>.
  \<^item> \<open>CompilerId\<close>, \<open>CompilerIdCxx\<close>, \<open>CompilerId22\<close>, \<open>CompilerIdCxx22\<close>,
    \<open>CompilerProps\<close>, \<open>ProbesAgree\<close>: \<open>CMakeCCompilerId.c\<close> and
    \<open>CMakeCXXCompilerId.cpp\<close> of CMake 3.28.1 (\<open>cmake-build-debug/\<close>) and 3.22.1
    (\<open>build/\<close>), as functions of the macros a compiler predefines, and how they compare.

  \<^bold>\<open>How state and effects correspond.\<close>  Objects live in heaps, maps from addresses to
  records; objects that embed a node share its address, which is what \<open>container_of\<close>
  computes.  Every load, store and array access is checked: NULL, freed or foreign memory,
  an index outside the array, a failed \<open>assert\<close> and \<open>die()\<close> are values of
  \<open>fault\<close>.  \<open>malloc\<close> and \<open>new\<close> hand out addresses not used before.  The kernel is
  an input: the scripts in \<open>io\<close> hold the answers of \<open>read\<close> and \<open>write\<close>, an
  \<open>event\<close> holds what \<open>epoll_wait\<close> reports and what \<open>accept\<close> returns, and
  \<open>trace\<close> records the calls the program makes.  A batch of events may be longer than
  \<open>MAX_EVENT_LEN\<close>, which only bounds what one \<open>epoll_wait\<close> reports.  A theorem for all scripts is a theorem
  for all kernels; \<open>EnvStop\<close> marks the end of a script or an answer POSIX excludes.

  \<^bold>\<open>What the lemmas show.\<close> The hash map keeps its representation through every operation,
  and the resize succeeds exactly when no empty bucket is in the way. The command handlers
  refine the finite-map machine; they crash exactly in that resize, which 36 chosen keys
  reach, in a single packet if need be, and 35 cannot. The parser inverts the encoder. A
  connection serves the requests on its input in order and loses no byte, whatever the
  fragmentation, and what it executes and answers does not depend on how the bytes were
  cut; interrupted calls do not show; the invariant of the event loop keeps \<open>fd2conn\<close>, the
  epoll set and the states of the connections consistent; descriptors are used only while
  open; clients do not interfere, and the key space is, node by node, what executing all
  their requests in one order gives. The client's parser is safe on any bytes; it
  understands nil, string and array replies and rejects integers and errors. Rotations and
  \<open>avl_fix\<close> keep the order of a tree, but not its balance; \<open>avl_del\<close> removes exactly its
  node, or dereferences NULL in the repair; and no element can be found in or added to a
  well-formed sorted set, or given another score. The C and the C++ compiler probe agree on
  compilers of both languages, the two generations of CMake where the later one added or
  revised no test of a macro, but for the default of the language extensions. What can stop
  a connection or the event loop is stated with its cause: the resize in which a \<open>SET\<close>
  crashes, or a read that fills the buffer to its last byte. The root theory puts client
  and server together.

  \<^bold>\<open>Bounds and fuel.\<close>  Loops that consume input, buffer bytes or table nodes are total
  functions.  A chain walk of the hash table has the table's \<open>size\<close> as fuel, and
  \<open>htab_rep\<close> shows it is enough, so \<open>OutOfFuel\<close> never occurs in a well-formed map.
  \<open>avl_fix\<close> takes fuel above the depth of its node, which is enough by
  \<open>avl_fix_exact\<close>, and \<open>avl_del\<close> twice the size of the tree (\<open>avl_del_exact\<close>); the
  operations of a sorted set three times its size (\<open>zset_writes_crash\<close>).  The resize needs
  fewer than \<open>2 ^ 60\<close> keys, which bounds the bytes a server may have seen
  (\<open>2 ^ 59\<close>).  Sizes of buffers are natural numbers: none exceeds 4100.

  \<^bold>\<open>Not modelled.\<close>  \<open>msg\<close>, whose body is empty unless \<open>VERBOSE\<close> is defined, and the
  texts on stderr are output only.  \<open>malloc\<close> without
  construction and \<open>free\<close> without destruction of the strings of an \<open>Entry\<close> are taken
  to work as \<open>new\<close> and \<open>delete\<close> would.  \<open>zset_pop\<close> on a NULL set, which
  returns no value, has no model.  \<open>avl_offset\<close> is declared only.  Scores are exact
  multiples of the smallest double; the bytes that follow a name in memory are not
  represented.  The rest of the headers is comments and the declarations of what is
  modelled.
\<close>

section \<open>Client and server together\<close>

lemma get_answer:
  assumes "db_rep s M" and "short_vals M"
  shows "\<exists>s'. do_request s [ascii ''get'', k] [] = Inr (s', enc_lookup [] (M k)) \<and> db_rep s' M"
proof -
  from assms(1) obtain bss where ok: "db_ok s bss" and vw: "view (db_entries s) M"
    by (auto simp: db_rep_def)
  have "db_rep (bump s) M"
    using db_ok_bump [OF ok] vw by (auto simp: db_rep_def)
  then show ?thesis
    using do_get_ok [OF ok vw assms(2), of "ascii ''get''" k "[]"]
    by (simp add: do_request_classify classify_words)
qed

lemma get_length: "length (enc_req [ascii ''get'', k]) = 15 + length k"
  by (simp add: length_enc_req ascii_def)

lemma request_sent:
  assumes "length wbuf0 = 4 + k_max_msg" and "length (enc_req cmd) < 2 ^ 32"
    and "send_req wbuf0 fd cmd w = Inr (0, w1)" and "length (enc_req cmd) \<le> k_max_msg"
  shows "written fd (trace w1) = written fd (trace w) @ frame (enc_req cmd)"
proof -
  have "write_all w fd (frame (enc_req cmd)) = Inr (0, w1)"
    using send_req_eq [OF assms(1,2), of fd w] assms(3,4) by (simp add: frame_def)
  from write_all_Inr [OF this] show ?thesis by simp
qed

lemma reply_shown:
  assumes "4 + length (enc_lookup [] r) \<le> k_max_msg" and "length rbuf0 = 4 + k_max_msg + 1"
    and "arrives (enc_lookup [] r) u"
  shows "\<exists>u'. read_res rbuf0 u = Inr (int (length (enc_lookup [] r)), shown_lookup r, u')"
proof -
  have "length (enc_lookup [] r) \<le> k_max_msg" using assms(1) by simp
  from read_res_arrives [OF assms(3) this assms(2)] on_response_lookup [OF this] show ?thesis by auto
qed

text \<open>
  A connection that has nothing to do; the bytes a client puts on the wire for a command;
  and a kernel that delivers bytes in some pieces, then has no more, and takes \<open>n\<close> bytes.
\<close>

definition idle :: "conn \<Rightarrow> bool" where
  "idle c \<longleftrightarrow> conn_ok c \<and> conn_state c = STATE_REQ \<and> inbuf c = []"

definition sends :: "bytes list \<Rightarrow> bytes \<Rightarrow> bool" where
  "sends cmd bs \<longleftrightarrow> (\<exists>wbuf0 fd w w1. length wbuf0 = 4 + k_max_msg \<and> written fd (trace w) = []
     \<and> send_req wbuf0 fd cmd w = Inr (0, w1) \<and> bs = written fd (trace w1))"

definition delivers :: "bytes \<Rightarrow> nat \<Rightarrow> io \<Rightarrow> bool" where
  "delivers bs n w \<longleftrightarrow> (\<exists>bss rs ns ws. concat bss = bs \<and> [] \<notin> set bss
     \<and> rd_script w = map RdData bss @ RdErr EAGAIN # rs
     \<and> wr_script w = map WrN ns @ ws \<and> 0 \<notin> set ns \<and> sum_list ns = n)"

lemma sends_frame:
  assumes "sends cmd bs" and "length (enc_req cmd) \<le> k_max_msg"
  shows "bs = frame (enc_req cmd)"
proof -
  have "length (enc_req cmd) < 2 ^ 32" using assms(2) by (simp add: k_max_msg_def)
  with assms request_sent [of _ cmd] show ?thesis by (fastforce simp: sends_def)
qed

lemma served_idle:
  assumes "idle c" and "delivers (frame (enc_req cmd)) (4 + length out) w" and "length (enc_req cmd) < k_max_msg"
    and "do_request s cmd [] = Inr (s1, out)" and "4 + length out \<le> k_max_msg"
  shows "\<exists>c' w'. connection_io c s w = Inr (c', s1, w') \<and> idle c' \<and> conn_fd c' = conn_fd c
     \<and> written (conn_fd c) (trace w') = written (conn_fd c) (trace w) @ frame out"
proof -
  from assms(1) have c: "conn_ok c" "conn_state c = STATE_REQ" "inbuf c = []" by (simp_all add: idle_def)
  from assms(2) obtain bss rs ns ws where d: "concat bss = frame (enc_req cmd)" "[] \<notin> set bss"
    "rd_script w = map RdData bss @ RdErr EAGAIN # rs" "wr_script w = map WrN ns @ ws" "0 \<notin> set ns"
    "sum_list ns = 4 + length out" by (auto simp: delivers_def)
  have f: "fit out = out" using assms(5) by (simp add: fit_def)
  have i: "inbuf c @ concat bss = frame (enc_req cmd)" using c(3) d(1) by simp
  have ne: "bss \<noteq> []" "\<forall>bs \<in> set bss. bs \<noteq> []" using d(1,2) frame_nonempty by (metis concat.simps(1), blast)
  have n: "\<forall>n \<in> set ns. 0 < n" "sum_list ns = 4 + length (fit out)" using d(5,6) f by (auto intro: gr0I)
  from answer_in_pieces [OF c(1,2) i ne d(3) assms(3,4) d(4) n] c(2) f show ?thesis
    by (auto simp: connection_io_def idle_def)
qed

text \<open>
  C6.  A \<open>GET\<close> from end to end: the client sends it; the bytes it wrote reach the server on
  an idle connection, cut into any pieces; the server answers with one frame, in any number of pieces, and keeps
  its map; and when that frame reaches the client, in any pieces, the client shows the
  value the map holds for the key, or nil.
\<close>

theorem get_end_to_end:
  assumes "length wbuf0 = 4 + k_max_msg" and "written fd (trace w) = []" and "length k < 4081"
    and "send_req wbuf0 fd [ascii ''get'', k] w = Inr (0, w1)"
    and "conn_ok c" and "conn_state c = STATE_REQ" and "inbuf c = []"
    and "db_rep s M" and "short_vals M" and "4 + length (enc_lookup [] (M k)) \<le> k_max_msg"
    and "concat bss = written fd (trace w1)" and "\<forall>bs \<in> set bss. bs \<noteq> []"
    and "rd_script v = map RdData bss @ RdErr EAGAIN # rs"
    and "wr_script v = map WrN ns @ ws" and "\<forall>n \<in> set ns. 0 < n" and "sum_list ns = 4 + length (enc_lookup [] (M k))"
    and "length rbuf0 = 4 + k_max_msg + 1"
  shows "\<exists>c' s' v'. connection_io c s v = Inr (c', s', v') \<and> db_rep s' M
     \<and> written (conn_fd c) (trace v') = written (conn_fd c) (trace v) @ frame (enc_lookup [] (M k))
     \<and> (\<forall>u. arrives (enc_lookup [] (M k)) u \<longrightarrow>
          (\<exists>u'. read_res rbuf0 u = Inr (int (length (enc_lookup [] (M k))), shown_lookup (M k), u')))"
proof -
  let ?cmd = "[ascii ''get'', k]" and ?out = "enc_lookup [] (M k)"
  have len: "length (enc_req ?cmd) < k_max_msg" "length (enc_req ?cmd) < 2 ^ 32"
    using assms(3) by (simp_all only: get_length) (simp_all add: k_max_msg_def)
  have sent: "written fd (trace w1) = frame (enc_req ?cmd)"
    using request_sent [OF assms(1) len(2) assms(4)] len(1) assms(2) by simp
  from get_answer [OF assms(8,9)] obtain s' where
    r: "do_request s ?cmd [] = Inr (s', ?out)" "db_rep s' M" by blast
  have f: "fit ?out = ?out" using assms(10) by (simp add: fit_def)
  have "inbuf c @ concat bss = frame (enc_req ?cmd)"
    using assms(7,11) sent by simp
  moreover from this have "bss \<noteq> []"
    using assms(7) frame_nonempty by (metis append_Nil concat.simps(1))
  ultimately have pieces: "inbuf c @ concat bss = frame (enc_req ?cmd)" "bss \<noteq> []" by simp_all
  from answer_in_pieces [OF assms(5,6) pieces assms(12,13) len(1) r(1) assms(14,15)] assms(6,16) f
  obtain c' v' where "connection_io c s v = Inr (c', s', v')"
    "written (conn_fd c) (trace v') = written (conn_fd c) (trace v) @ frame ?out"
    by (auto simp: connection_io_def)
  moreover note reply_shown [OF assms(10,17)]
  ultimately show ?thesis using r(2) by blast
qed

theorem get_end_to_end_witness:
  "\<exists>w1 c s v. send_req (replicate (4 + k_max_msg) 0) 3 [ascii ''get'', [107]]
       \<lparr>rd_script = [], wr_script = [WrN 20], trace = []\<rparr> = Inr (0, w1)
     \<and> connection_io fresh_conn db_init
         \<lparr>rd_script = [RdData (written 3 (trace w1)), RdErr EAGAIN], wr_script = [WrN 5], trace = []\<rparr> = Inr (c, s, v)
     \<and> written 5 (trace v) = frame (out_nil [])"
proof -
  let ?w = "\<lparr>rd_script = [], wr_script = [WrN 20], trace = []\<rparr>" and ?cmd = "[ascii ''get'', [107]]"
  let ?b = "replicate (4 + k_max_msg) 0 :: bytes"
  have l: "length (frame (enc_req ?cmd)) = 20" "\<not> k_max_msg < length (enc_req ?cmd)" "length (enc_req ?cmd) < 2 ^ 32"
    by (simp_all only: length_frame get_length) (simp_all add: k_max_msg_def)
  have "send_req ?b 3 ?cmd ?w = write_all ?w 3 (frame (enc_req ?cmd))"
    using send_req_eq [of ?b ?cmd 3 ?w] l(2,3) by (simp add: frame_def)
  moreover have "\<exists>w1. write_all ?w 3 (frame (enc_req ?cmd)) = Inr (0, w1)"
    using l(1) by (simp add: write_all.simps [of ?w] write_all.simps [of _ _ "[]"] sys_write_def log_call_def
        del: length_frame)
  ultimately obtain w1 where s: "send_req ?b 3 ?cmd ?w = Inr (0, w1)" by auto
  have out: "enc_lookup [] None = out_nil []" by (simp add: enc_lookup_def)
  have "written 3 (trace w1) = frame (enc_req ?cmd)"
    using request_sent [OF _ l(3) s] l(2) by simp
  then have ne: "\<forall>bs \<in> set [written 3 (trace w1)]. bs \<noteq> []" by simp
  from get_end_to_end [OF _ _ _ s fresh_conn_ok(1,2,5) db_rep_init short_vals_empty _ _ ne, of
      "\<lparr>rd_script = [RdData (written 3 (trace w1)), RdErr EAGAIN], wr_script = [WrN 5], trace = []\<rparr>" "[]" "[5]" "[]"
      "replicate (4 + k_max_msg + 1) 0"]
  show ?thesis
    using s by (auto simp: out fresh_conn_ok k_max_msg_def)
qed

text \<open>
  C7.  Two clients: one sends \<open>SET k v\<close> and another \<open>GET k\<close>, over connections of their
  own and in whatever pieces the kernel makes of their bytes.  If the \<open>SET\<close> does not crash
  the server, and key and value are together shorter than 4070 bytes, both are answered, the
  key space then has the value, and the second client shows it.
\<close>

theorem set_then_get:
  assumes "sends [ascii ''set'', k, v] sa" and "sends [ascii ''get'', k] sb"
    and "length k + length v < 4070" and "idle c" and "idle d"
    and "db_rep s M" and "short_vals M" and "roomy M"
    and "do_request s [ascii ''set'', k, v] [] \<noteq> Inl NullDeref"
    and "delivers sa 5 x" and "delivers sb (9 + length v) y" and "length rbuf0 = 4 + k_max_msg + 1"
  shows "\<exists>c' s1 x' d' s2 y'. connection_io c s x = Inr (c', s1, x')
     \<and> written (conn_fd c) (trace x') = written (conn_fd c) (trace x) @ frame (out_nil [])
     \<and> connection_io d s1 y = Inr (d', s2, y') \<and> db_rep s2 (M(k \<mapsto> v))
     \<and> written (conn_fd d) (trace y') = written (conn_fd d) (trace y) @ frame (out_str [] v)
     \<and> (\<forall>u. arrives (out_str [] v) u \<longrightarrow>
          (\<exists>u'. read_res rbuf0 u = Inr (5 + int (length v), [ShownStr (of_nat (length v)) (c_str v)], u')))"
proof -
  let ?set = "[ascii ''set'', k, v]" and ?get = "[ascii ''get'', k]" and ?M = "M(k \<mapsto> v)"
  have len: "length (enc_req ?set) < k_max_msg" "length (enc_req ?get) < k_max_msg"
    using assms(3) by (simp_all add: length_enc_req ascii_def k_max_msg_def)
  have fr: "sa = frame (enc_req ?set)" "sb = frame (enc_req ?get)"
    using sends_frame [OF assms(1)] sends_frame [OF assms(2)] len by simp_all
  obtain s1 out where r: "do_request s ?set [] = Inr (s1, out)"
    using srv.exec_crash [OF assms(6-8), of ?set] assms(9) by (cases "do_request s ?set []") auto
  have k: "classify ?set = KSet k v" by (simp add: classify_words)
  from srv.exec_ok [OF assms(6-8) r] k have s1: "db_rep s1 ?M" and out: "out = out_nil []" by simp_all
  have "short_vals ?M"
    using assms(3) short_vals_step [OF assms(7), of "KSet k v"] by (simp add: k_max_msg_def)
  from get_answer [OF s1 this, of k] obtain s2 where
    g: "do_request s1 ?get [] = Inr (s2, out_str [] v)" "db_rep s2 ?M" by (auto simp: enc_lookup_def)
  have small: "4 + length (out_nil []) \<le> k_max_msg" "4 + length (out_str [] v) \<le> k_max_msg"
    "4 + length (out_nil []) = 5" "4 + length (out_str [] v) = 9 + length v"
    using assms(3) by (simp_all add: out_nil_def out_str_def k_max_msg_def)
  have dv: "delivers (frame (enc_req ?set)) (4 + length (out_nil [])) x"
    "delivers (frame (enc_req ?get)) (4 + length (out_str [] v)) y"
    using assms(10,11) fr small(3,4) by simp_all
  from served_idle [OF assms(4) dv(1) len(1) r [unfolded out] small(1)] obtain c' x' where
    x: "connection_io c s x = Inr (c', s1, x')"
    "written (conn_fd c) (trace x') = written (conn_fd c) (trace x) @ frame (out_nil [])" by blast
  from served_idle [OF assms(5) dv(2) len(2) g(1) small(2)] obtain d' y' where
    y: "connection_io d s1 y = Inr (d', s2, y')"
    "written (conn_fd d) (trace y') = written (conn_fd d) (trace y) @ frame (out_str [] v)" by blast
  have "enc_lookup [] (Some v) = out_str [] v" "shown_lookup (Some v) = [ShownStr (of_nat (length v)) (c_str v)]"
    "int (length (out_str [] v)) = 5 + int (length v)"
    by (simp_all add: enc_lookup_def shown_lookup_def out_str_def)
  with reply_shown [of "Some v" rbuf0] small(2) assms(12) have
    "\<exists>u'. read_res rbuf0 u = Inr (5 + int (length v), [ShownStr (of_nat (length v)) (c_str v)], u')"
    if "arrives (out_str [] v) u" for u using that by simp
  with x y g(2) show ?thesis by blast
qed

lemma delivers_once:
  assumes "bs \<noteq> []" and "0 \<notin> set ns"
  shows "delivers bs (sum_list ns) \<lparr>rd_script = [RdData bs, RdErr EAGAIN], wr_script = map WrN ns, trace = tr\<rparr>"
  unfolding delivers_def using assms
  by (intro exI [of _ "[bs]"] exI [of _ "[]"] exI [of _ ns]) simp

lemma sends_small:
  assumes "length (enc_req cmd) \<le> k_max_msg"
  shows "sends cmd (frame (enc_req cmd))"
proof -
  let ?w = "\<lparr>rd_script = [], wr_script = [WrN (length (frame (enc_req cmd)))], trace = []\<rparr>"
  let ?b = "replicate (4 + k_max_msg) 0 :: bytes"
  have l: "length (enc_req cmd) < 2 ^ 32" using assms by (simp add: k_max_msg_def)
  have "send_req ?b 3 cmd ?w = write_all ?w 3 (frame (enc_req cmd))"
    using send_req_eq [of ?b cmd 3 ?w] l assms by (simp add: frame_def)
  moreover have "\<exists>w1. write_all ?w 3 (frame (enc_req cmd)) = Inr (0, w1)"
    by (simp add: write_all.simps [of ?w] write_all.simps [of _ _ "[]"] sys_write_def log_call_def
        del: length_frame)
  ultimately obtain w1 where s: "send_req ?b 3 cmd ?w = Inr (0, w1)" by auto
  from request_sent [OF _ l s] assms have "written 3 (trace w1) = frame (enc_req cmd)" by simp
  with s show ?thesis
    unfolding sends_def by (intro exI [of _ ?b] exI [of _ "3 :: int"] exI [of _ ?w] exI [of _ w1]) simp
qed

theorem set_then_get_witness:
  "\<exists>c' s1 x' d' s2 y'.
     connection_io fresh_conn db_init \<lparr>rd_script = [RdData (frame (enc_req [ascii ''set'', [107], [118]])), RdErr EAGAIN],
       wr_script = [WrN 2, WrN 3], trace = []\<rparr> = Inr (c', s1, x')
     \<and> connection_io (fresh_conn\<lparr>conn_fd := 6\<rparr>) s1 \<lparr>rd_script = [RdData (frame (enc_req [ascii ''get'', [107]])), RdErr EAGAIN],
       wr_script = [WrN 10], trace = []\<rparr> = Inr (d', s2, y')
     \<and> written 6 (trace y') = frame (out_str [] [118])"
proof -
  let ?set = "[ascii ''set'', [107], [118]]" and ?get = "[ascii ''get'', [107]]"
  let ?x = "\<lparr>rd_script = [RdData (frame (enc_req ?set)), RdErr EAGAIN], wr_script = [WrN 2, WrN 3], trace = []\<rparr>"
  let ?y = "\<lparr>rd_script = [RdData (frame (enc_req ?get)), RdErr EAGAIN], wr_script = [WrN 10], trace = []\<rparr>"
  have s: "sends ?set (frame (enc_req ?set))" "sends ?get (frame (enc_req ?get))"
    by (rule sends_small, simp add: length_enc_req ascii_def k_max_msg_def)+
  have i: "idle fresh_conn" "idle (fresh_conn\<lparr>conn_fd := 6\<rparr>)"
    using fresh_conn_ok by (simp_all add: idle_def conn_ok_def inbuf_def)
  have d: "delivers (frame (enc_req ?set)) 5 ?x" "delivers (frame (enc_req ?get)) (9 + length [118 :: byte]) ?y"
    using delivers_once [of "frame (enc_req ?set)" "[2, 3]"] delivers_once [of "frame (enc_req ?get)" "[10]"] by simp_all
  have "do_request db_init ?set [] \<noteq> Inl NullDeref" using stored by auto
  from set_then_get [OF s _ i db_rep_init short_vals_empty roomy_empty this d, of "replicate (4 + k_max_msg + 1) 0"]
  show ?thesis by auto
qed

end
